(* ===== verification/Shape_Prelude.thy ===== *)
theory Shape_Prelude
  imports Main
begin

text \<open>
  The vocabulary every component of the development shares.

  A member function of the C++ classes reads and writes the fields of its object, calls out
  (to user handlers, to a third-party library, to the operating system) and either returns or
  throws. It is modelled as a function of the state that yields an \<open>outcome\<close>: what is
  returned or thrown, the calls made on the way in the order they are made, and the state that
  is left. An exception does not roll the state back, so a thrown outcome carries the state of
  the moment of the throw, as in the C++.
\<close>

named_theorems outcome_simps \<open>rewriting of sequenced member functions\<close>
named_theorems conj_simps \<open>facts that take an invariant apart\<close>

section \<open>Outcomes\<close>

type_synonym ('e, 'a, 'o, 's) outcome = "('e + 'a) \<times> 'o list \<times> 's"

abbreviation result_of :: "('e, 'a, 'o, 's) outcome \<Rightarrow> 'e + 'a" where
  "result_of r \<equiv> fst r"

abbreviation outs_of :: "('e, 'a, 'o, 's) outcome \<Rightarrow> 'o list" where
  "outs_of r \<equiv> fst (snd r)"

abbreviation state_of :: "('e, 'a, 'o, 's) outcome \<Rightarrow> 's" where
  "state_of r \<equiv> snd (snd r)"

text \<open>Return a value, throw, call out, and the sequencing that stops at the first throw.\<close>

definition returns :: "'a \<Rightarrow> 's \<Rightarrow> ('e, 'a, 'o, 's) outcome" where
  "returns a s = (Inr a, [], s)"

definition throws :: "'e \<Rightarrow> 's \<Rightarrow> ('e, 'a, 'o, 's) outcome" where
  "throws e s = (Inl e, [], s)"

definition emits :: "'o list \<Rightarrow> 's \<Rightarrow> ('e, unit, 'o, 's) outcome" where
  "emits outs s = (Inr (), outs, s)"

definition and_then ::
  "('e, 'a, 'o, 's) outcome \<Rightarrow> ('a \<Rightarrow> 's \<Rightarrow> ('e, 'b, 'o, 's) outcome) \<Rightarrow> ('e, 'b, 'o, 's) outcome"
where
  "and_then r k = (case result_of r of
       Inl e \<Rightarrow> (Inl e, outs_of r, state_of r)
     | Inr a \<Rightarrow> (result_of (k a (state_of r)),
                 outs_of r @ outs_of (k a (state_of r)),
                 state_of (k a (state_of r))))"

text \<open>The calls first, then the rest of the body.\<close>

definition emit_then :: "'o list \<Rightarrow> ('e, 'a, 'o, 's) outcome \<Rightarrow> ('e, 'a, 'o, 's) outcome" where
  "emit_then outs r = (result_of r, outs @ outs_of r, state_of r)"

lemma returns_sel [outcome_simps]:
  "result_of (returns a s) = Inr a" "outs_of (returns a s) = []" "state_of (returns a s) = s"
  by (simp_all add: returns_def)

lemma throws_sel [outcome_simps]:
  "result_of (throws e s) = Inl e" "outs_of (throws e s) = []" "state_of (throws e s) = s"
  by (simp_all add: throws_def)

lemma emits_sel [outcome_simps]:
  "result_of (emits os s) = Inr ()" "outs_of (emits os s) = os" "state_of (emits os s) = s"
  by (simp_all add: emits_def)

lemma emit_then_sel [outcome_simps]:
  "result_of (emit_then os r) = result_of r"
  "outs_of (emit_then os r) = os @ outs_of r"
  "state_of (emit_then os r) = state_of r"
  by (simp_all add: emit_then_def)

lemma and_then_assoc: "and_then (and_then r k) l = and_then r (\<lambda>a s. and_then (k a s) l)"
  by (simp add: and_then_def split: sum.split)

lemma and_then_Inr [outcome_simps]:
  "result_of r = Inr a \<Longrightarrow> and_then r k = emit_then (outs_of r) (k a (state_of r))"
  by (simp add: and_then_def emit_then_def)

lemma and_then_Inl [outcome_simps]:
  "result_of r = Inl e \<Longrightarrow> and_then r k = (Inl e, outs_of r, state_of r)"
  by (simp add: and_then_def)

text \<open>A relation between the state before and the state after passes through sequencing.\<close>

lemma and_then_state:
  assumes "P (state_of r)" and "\<And>a s. P s \<Longrightarrow> P (state_of (k a s))"
  shows "P (state_of (and_then r k))"
  using assms by (cases "result_of r") (simp_all add: and_then_def)

section \<open>Lists and counting\<close>

abbreviation count_if :: "('a \<Rightarrow> bool) \<Rightarrow> 'a list \<Rightarrow> nat" where
  "count_if P xs \<equiv> length (filter P xs)"

lemma count_if_zero [simp]: "\<forall>x \<in> set xs. \<not> P x \<Longrightarrow> count_if P xs = 0"
  by simp

lemma takeWhile_not_in: "c \<notin> set (takeWhile (\<lambda>x. x \<noteq> c) xs)"
  by (induction xs) auto

lemma list_split_first:
  assumes "c \<in> set xs"
  shows "xs = takeWhile (\<lambda>x. x \<noteq> c) xs @ c # tl (dropWhile (\<lambda>x. x \<noteq> c) xs)"
  using assms by (induction xs) auto

lemma map_filter_append [simp]: "List.map_filter f (xs @ ys) = List.map_filter f xs @ List.map_filter f ys"
  by (simp add: List.map_filter_def)

end
