(* ===== verification/Step_Systems.thy ===== *)
theory Step_Systems
  imports Shape_Prelude "HOL-Library.Sublist"
begin

text \<open>
  The two shapes of behaviour the components have, and the interfaces their invariants are
  proved through: an object driven by a sequence of calls (\<open>call_sequence\<close>) and a set of
  threads that interleave (\<open>interleaving\<close>, and \<open>trace_refinement\<close> for what a schedule of
  them shows to the outside). The locales are interpreted on the model of
  each component that uses them, in the theory of that component.
\<close>

section \<open>Objects driven by calls\<close>

text \<open>
  The state and the calls made after a list of operations. An operation that throws leaves the
  state of the moment of the throw, and the caller is free to go on with the next one.
\<close>

fun run_calls ::
  "('s \<Rightarrow> 'c \<Rightarrow> ('e, 'a, 'o, 's) outcome) \<Rightarrow> 's \<Rightarrow> 'c list \<Rightarrow> 's"
where
  "run_calls step s [] = s"
| "run_calls step s (c # cs) = run_calls step (state_of (step s c)) cs"

fun run_outs ::
  "('s \<Rightarrow> 'c \<Rightarrow> ('e, 'a, 'o, 's) outcome) \<Rightarrow> 's \<Rightarrow> 'c list \<Rightarrow> 'o list"
where
  "run_outs step s [] = []"
| "run_outs step s (c # cs) = outs_of (step s c) @ run_outs step (state_of (step s c)) cs"

text \<open>What a measure of the single calls adds up to over a run.\<close>

fun run_total ::
  "('s \<Rightarrow> 'c \<Rightarrow> ('e, 'a, 'o, 's) outcome) \<Rightarrow> ('s \<Rightarrow> 'c \<Rightarrow> nat) \<Rightarrow> 's \<Rightarrow> 'c list \<Rightarrow> nat"
where
  "run_total step weight s [] = 0"
| "run_total step weight s (c # cs) =
     weight s c + run_total step weight (state_of (step s c)) cs"

lemma run_calls_append: "run_calls step s (cs @ ds) = run_calls step (run_calls step s cs) ds"
  by (induction cs arbitrary: s) auto

lemma run_outs_append:
  "run_outs step s (cs @ ds) = run_outs step s cs @ run_outs step (run_calls step s cs) ds"
  by (induction cs arbitrary: s) auto

lemma run_total_per_call: "run_total step (\<lambda>_. f) s cs = sum_list (map f cs)"
  by (induction cs arbitrary: s) auto

text \<open>
  The contract the operations of one object share: those that satisfy \<open>allowed\<close> keep the
  invariant.
\<close>

locale call_sequence =
  fixes step :: "'s \<Rightarrow> 'c \<Rightarrow> ('e, 'a, 'o, 's) outcome"
    and allowed :: "'c \<Rightarrow> bool"
    and inv :: "'s \<Rightarrow> bool"
  assumes step_keeps: "inv s \<Longrightarrow> allowed c \<Longrightarrow> inv (state_of (step s c))"
begin

lemma run_keeps: "inv s \<Longrightarrow> list_all allowed cs \<Longrightarrow> inv (run_calls step s cs)"
  by (induction cs arbitrary: s) (auto intro: step_keeps)

end

text \<open>The invariant also says what the operations may call: \<open>visible\<close> holds of every call.\<close>

locale observed_sequence = call_sequence +
  fixes visible :: "'o \<Rightarrow> bool"
  assumes step_visible: "inv s \<Longrightarrow> allowed c \<Longrightarrow> list_all visible (outs_of (step s c))"
begin

lemma run_visible: "inv s \<Longrightarrow> list_all allowed cs \<Longrightarrow> list_all visible (run_outs step s cs)"
  by (induction cs arbitrary: s) (auto intro: step_keeps step_visible)

end

text \<open>
  A ledger: what an operation adds to a stock, what it takes from it and what its calls to the
  outside show of it. The books of any run then balance.
\<close>

locale ledger = call_sequence +
  fixes stock :: "'s \<Rightarrow> nat" and opened :: "'s \<Rightarrow> 'c \<Rightarrow> nat" and closed :: "'o \<Rightarrow> bool"
  assumes step_balance: "inv s \<Longrightarrow> allowed c \<Longrightarrow>
    count_if closed (outs_of (step s c)) + stock (state_of (step s c)) \<le> stock s + opened s c"
begin

lemma run_balance:
  "inv s \<Longrightarrow> list_all allowed cs \<Longrightarrow>
   count_if closed (run_outs step s cs) + stock (run_calls step s cs)
     \<le> stock s + run_total step opened s cs"
proof (induction cs arbitrary: s)
  case Nil
  then show ?case by simp
next
  case (Cons c cs)
  let ?t = "state_of (step s c)"
  from Cons.prems have "count_if closed (outs_of (step s c)) + stock ?t \<le> stock s + opened s c"
    by (auto intro: step_balance)
  moreover from Cons have "count_if closed (run_outs step ?t cs) + stock (run_calls step ?t cs)
     \<le> stock ?t + run_total step opened ?t cs"
    by (auto intro: step_keeps)
  ultimately show ?case by simp
qed

end

text \<open>
  Exact books: what one output opens and another closes is what the state still holds.
\<close>

locale balanced_sequence = call_sequence +
  fixes stock :: "'s \<Rightarrow> nat" and opens :: 'o and closes :: 'o
  assumes step_exact: "inv s \<Longrightarrow> allowed c \<Longrightarrow>
    count_list (outs_of (step s c)) closes + stock (state_of (step s c))
      = stock s + count_list (outs_of (step s c)) opens"
begin

lemma run_exact:
  "inv s \<Longrightarrow> list_all allowed cs \<Longrightarrow>
   count_list (run_outs step s cs) closes + stock (run_calls step s cs)
     = stock s + count_list (run_outs step s cs) opens"
proof (induction cs arbitrary: s)
  case (Cons c cs)
  let ?t = "state_of (step s c)"
  from Cons.prems have "count_list (outs_of (step s c)) closes + stock ?t
      = stock s + count_list (outs_of (step s c)) opens"
    by (auto intro: step_exact)
  moreover from Cons have "count_list (run_outs step ?t cs) closes + stock (run_calls step ?t cs)
      = stock ?t + count_list (run_outs step ?t cs) opens"
    by (auto intro: step_keeps)
  ultimately show ?case by simp
qed simp

end

text \<open>
  A refinement operation by operation: seen through \<open>abs\<close>, every operation is one of a simpler
  object. What the object shows after a run is then what its history makes of the simple one.
\<close>

locale call_refinement = call_sequence +
  fixes abs :: "'a \<Rightarrow> 't" and astep :: "'t \<Rightarrow> 'b \<Rightarrow> 't"
  assumes step_abs: "inv s \<Longrightarrow> allowed c \<Longrightarrow> abs (state_of (step s c)) = astep (abs s) c"
begin

lemma run_abs: "inv s \<Longrightarrow> list_all allowed cs \<Longrightarrow> abs (run_calls step s cs) = foldl astep (abs s) cs"
  by (induction cs arbitrary: s) (simp_all add: step_abs step_keeps)

end

text \<open>
  A sender and a receiver, joined by a link of the outside. The sender hands on what it accepted,
  in order, behind what waited; the receiver hands every arrival to its client. When the link
  delivers a first part of what was handed to it, as a reliable one does, the client of the
  receiver gets a first part of what the client of the sender sent.
\<close>

locale message_link =
  sender: call_sequence sstep sallowed sinv + receiver: call_sequence rstep rallowed rinv
  for sstep :: "'s \<Rightarrow> 'c \<Rightarrow> ('e, 'a, 'o, 's) outcome" and sallowed and sinv
    and rstep :: "'t \<Rightarrow> 'd \<Rightarrow> ('f, 'b, 'p, 't) outcome" and rallowed and rinv +
  fixes accepted :: "'c \<Rightarrow> 'm option" and waiting :: "'s \<Rightarrow> 'm list" and sent :: "'o \<Rightarrow> 'm option"
    and arrives :: "'d \<Rightarrow> 'm option" and decode :: "'m \<Rightarrow> 'n" and handled :: "'p \<Rightarrow> 'n option"
  assumes sends: "sinv s \<Longrightarrow> sallowed c \<Longrightarrow>
      List.map_filter sent (outs_of (sstep s c)) @ waiting (state_of (sstep s c))
        = waiting s @ List.map_filter accepted [c]"
    and handles: "rinv t \<Longrightarrow> rallowed d \<Longrightarrow>
      List.map_filter handled (outs_of (rstep t d)) = map decode (List.map_filter arrives [d])"
begin

lemma run_sends:
  "sinv s \<Longrightarrow> list_all sallowed cs \<Longrightarrow>
   List.map_filter sent (run_outs sstep s cs) @ waiting (run_calls sstep s cs)
     = waiting s @ List.map_filter accepted cs"
proof (induction cs arbitrary: s)
  case (Cons c cs)
  with sends [of s c] show ?case by (simp add: sender.step_keeps split: option.splits)
qed simp

lemma run_handles:
  "rinv t \<Longrightarrow> list_all rallowed ds \<Longrightarrow>
   List.map_filter handled (run_outs rstep t ds) = map decode (List.map_filter arrives ds)"
proof (induction ds arbitrary: t)
  case (Cons d ds)
  with handles [of t d] show ?case by (simp add: receiver.step_keeps split: option.splits)
qed simp

lemma end_to_end:
  assumes "sinv s" and "list_all sallowed cs" and "rinv t" and "list_all rallowed ds"
    and "prefix (List.map_filter arrives ds) (List.map_filter sent (run_outs sstep s cs))"
  shows "prefix (List.map_filter handled (run_outs rstep t ds)) (map decode (waiting s @ List.map_filter accepted cs))"
proof -
  have "prefix (List.map_filter arrives ds) (waiting s @ List.map_filter accepted cs)"
    using assms(5) unfolding run_sends [OF assms(1,2), symmetric] by simp
  then show ?thesis unfolding run_handles [OF assms(3,4)] by (rule map_mono_prefix)
qed

text \<open>Over a link that loses messages but keeps their order, what arrives keeps it as well.\<close>

lemma end_to_end_lossy:
  assumes "sinv s" and "list_all sallowed cs" and "rinv t" and "list_all rallowed ds"
    and "subseq (List.map_filter arrives ds) (List.map_filter sent (run_outs sstep s cs))"
  shows "subseq (List.map_filter handled (run_outs rstep t ds)) (map decode (waiting s @ List.map_filter accepted cs))"
proof -
  have "subseq (List.map_filter arrives ds) (waiting s @ List.map_filter accepted cs)"
    unfolding run_sends [OF assms(1,2), symmetric] using assms(5) by (rule subseq_rev_drop_many)
  then show ?thesis unfolding run_handles [OF assms(3,4)] by (rule subseq_map)
qed

end

section \<open>Threads that interleave\<close>

inductive reaches :: "('s \<Rightarrow> 's \<Rightarrow> bool) \<Rightarrow> 's \<Rightarrow> 's \<Rightarrow> bool"
  for step :: "'s \<Rightarrow> 's \<Rightarrow> bool" and start :: 's
where
  reaches_start: "reaches step start start"
| reaches_step: "reaches step start s \<Longrightarrow> step s t \<Longrightarrow> reaches step start t"

lemma reaches_trans: "reaches step s t \<Longrightarrow> reaches step r s \<Longrightarrow> reaches step r t"
  by (induction rule: reaches.induct) (auto intro: reaches_step)

lemma reaches_keeps:
  "reaches step s t \<Longrightarrow> P s \<Longrightarrow> (\<And>x y. P x \<Longrightarrow> step x y \<Longrightarrow> P y) \<Longrightarrow> P t"
  by (induction rule: reaches.induct) auto

locale interleaving =
  fixes start :: "'s" and step :: "'s \<Rightarrow> 's \<Rightarrow> bool" and inv :: "'s \<Rightarrow> bool"
  assumes inv_start: "inv start"
    and inv_step: "inv s \<Longrightarrow> step s t \<Longrightarrow> inv t"
begin

lemma inv_reaches: "reaches step start s \<Longrightarrow> inv s"
  by (induction rule: reaches.induct) (auto intro: inv_start inv_step)

end

section \<open>Schedules and what they show\<close>

text \<open>
  A schedule names the actions in the order they are tried; an action that is not possible is
  skipped. Every action that is made shows some events to the outside.
\<close>

fun run_schedule :: "('a \<Rightarrow> 's \<Rightarrow> 's option) \<Rightarrow> 'a list \<Rightarrow> 's \<Rightarrow> 's" where
  "run_schedule act [] s = s"
| "run_schedule act (a # as) s = run_schedule act as (case act a s of Some t \<Rightarrow> t | None \<Rightarrow> s)"

fun run_events :: "('a \<Rightarrow> 's \<Rightarrow> 's option) \<Rightarrow> ('a \<Rightarrow> 's \<Rightarrow> 'e list) \<Rightarrow> 'a list \<Rightarrow> 's \<Rightarrow> 'e list" where
  "run_events act event [] s = []"
| "run_events act event (a # as) s = (case act a s of
     Some t \<Rightarrow> event a s @ run_events act event as t | None \<Rightarrow> run_events act event as s)"

text \<open>A specification that reads the events one by one; \<open>None\<close> when it does not allow the next.\<close>

fun spec_run :: "('b \<Rightarrow> 'e \<Rightarrow> 'b option) \<Rightarrow> 'b \<Rightarrow> 'e list \<Rightarrow> 'b option" where
  "spec_run spec b [] = Some b"
| "spec_run spec b (e # es) = (case spec b e of Some b' \<Rightarrow> spec_run spec b' es | None \<Rightarrow> None)"

lemma spec_run_append:
  "spec_run spec b (es @ fs) = (case spec_run spec b es of Some b' \<Rightarrow> spec_run spec b' fs | None \<Rightarrow> None)"
  by (induction es arbitrary: b) (auto split: option.splits)

text \<open>
  A refinement of traces: what an action shows is allowed by the specification in the state seen
  through \<open>abs\<close>, and leads it where the action leads the system.
\<close>

locale trace_refinement =
  fixes act :: "'a \<Rightarrow> 's \<Rightarrow> 's option" and event :: "'a \<Rightarrow> 's \<Rightarrow> 'e list"
    and abs :: "'s \<Rightarrow> 'b" and spec :: "'b \<Rightarrow> 'e \<Rightarrow> 'b option"
  assumes act_simulates: "act a s = Some t \<Longrightarrow> spec_run spec (abs s) (event a s) = Some (abs t)"
begin

lemma run_refines:
  "spec_run spec (abs s) (run_events act event as s) = Some (abs (run_schedule act as s))"
  by (induction as arbitrary: s) (auto simp: spec_run_append act_simulates split: option.split)

end

end
