(* ===== verification/Std_Map.thy ===== *)
theory Std_Map
  imports Shape_Prelude "HOL-Library.List_Lexorder" "HOL-Library.Char_ord"
begin

text \<open>
  The operations of \<^verbatim>\<open>std::map\<close> the components use, on the list of its pairs in the
  order its iterator visits them. \<^verbatim>\<open>std::string\<close> keys compare as lists of bytes, which is
  the lexicographic order of \<open>List_Lexorder\<close> over \<open>Char_ord\<close>.
\<close>

type_synonym ('k, 'v) std_map = "('k \<times> 'v) list"

section \<open>Operations\<close>

text \<open>\<^verbatim>\<open>find\<close>: the mapped value, \<open>None\<close> for \<^verbatim>\<open>end()\<close>.\<close>

fun sm_find :: "('k, 'v) std_map \<Rightarrow> 'k \<Rightarrow> 'v option" where
  "sm_find [] k = None"
| "sm_find (kv # m) k = (if fst kv = k then Some (snd kv) else sm_find m k)"

text \<open>\<^verbatim>\<open>m[k] = v\<close>: overwrite the value of \<open>k\<close>, or a new pair at its place in the order.\<close>

fun sm_assign :: "'k::linorder \<Rightarrow> 'v \<Rightarrow> ('k, 'v) std_map \<Rightarrow> ('k, 'v) std_map" where
  "sm_assign k v [] = [(k, v)]"
| "sm_assign k v (kv # m) =
     (if fst kv < k then kv # sm_assign k v m
      else if k < fst kv then (k, v) # kv # m
      else (k, v) # m)"

text \<open>\<^verbatim>\<open>insert\<close>: a present key keeps its value and the flag of the result is false.\<close>

definition sm_insert :: "'k::linorder \<Rightarrow> 'v \<Rightarrow> ('k, 'v) std_map \<Rightarrow> bool \<times> ('k, 'v) std_map" where
  "sm_insert k v m = (case sm_find m k of Some _ \<Rightarrow> (False, m) | None \<Rightarrow> (True, sm_assign k v m))"

definition sm_erase :: "'k \<Rightarrow> ('k, 'v) std_map \<Rightarrow> ('k, 'v) std_map" where
  "sm_erase k m = filter (\<lambda>kv. fst kv \<noteq> k) m"

definition sm_keys :: "('k, 'v) std_map \<Rightarrow> 'k list" where
  "sm_keys m = map fst m"

text \<open>What every \<^verbatim>\<open>std::map\<close> satisfies: its keys strictly increase.\<close>

definition sm_inv :: "('k::linorder, 'v) std_map \<Rightarrow> bool" where
  "sm_inv m \<longleftrightarrow> sorted_wrt (<) (sm_keys m)"

section \<open>The interface the components rely on\<close>

locale token_store =
  fixes find :: "'m \<Rightarrow> 'k \<Rightarrow> 'v option"
    and assign :: "'k \<Rightarrow> 'v \<Rightarrow> 'm \<Rightarrow> 'm"
    and erase :: "'k \<Rightarrow> 'm \<Rightarrow> 'm"
    and count :: "'m \<Rightarrow> nat"
    and wf :: "'m \<Rightarrow> bool"
  assumes find_assign: "wf m \<Longrightarrow> find (assign k v m) k' = (if k' = k then Some v else find m k')"
    and find_erase: "wf m \<Longrightarrow> find (erase k m) k' = (if k' = k then None else find m k')"
    and wf_assign: "wf m \<Longrightarrow> wf (assign k v m)"
    and wf_erase: "wf m \<Longrightarrow> wf (erase k m)"
    and count_assign: "wf m \<Longrightarrow>
      count (assign k v m) = (if find m k = None then Suc (count m) else count m)"
    and count_erase: "wf m \<Longrightarrow>
      count (erase k m) = (if find m k = None then count m else count m - 1)"
    and count_found: "wf m \<Longrightarrow> find m k = Some v \<Longrightarrow> 0 < count m"
begin

lemma count_assign_le: "wf m \<Longrightarrow> count (assign k v m) \<le> Suc (count m)"
  by (simp add: count_assign)

lemma count_erase_le: "wf m \<Longrightarrow> count (erase k m) \<le> count m"
  by (simp add: count_erase)

lemma count_erase_found: "wf m \<Longrightarrow> find m k = Some v \<Longrightarrow> Suc (count (erase k m)) = count m"
  using count_found [of m k v] by (simp add: count_erase)

text \<open>A token taken out answers once: the second look finds nothing.\<close>

lemma take_once: "wf m \<Longrightarrow> find (erase k m) k = None"
  by (simp add: find_erase)

lemma put_take: "wf m \<Longrightarrow> find m k = None \<Longrightarrow> find (erase k (assign k v m)) k' = find m k'"
  by (simp add: find_erase find_assign wf_assign)

end

section \<open>The sorted list provides it\<close>

lemma sm_keys_simps [simp]: "sm_keys [] = []" "sm_keys (kv # m) = fst kv # sm_keys m"
  by (simp_all add: sm_keys_def)

lemma sm_inv_Nil [simp]: "sm_inv []"
  by (simp add: sm_inv_def)

lemma sm_inv_Cons: "sm_inv (kv # m) \<longleftrightarrow> (\<forall>k \<in> set (sm_keys m). fst kv < k) \<and> sm_inv m"
  by (simp add: sm_inv_def)

lemma sm_inv_distinct: "sm_inv m \<Longrightarrow> distinct (sm_keys m)"
  by (induction m) (auto simp: sm_inv_Cons)

lemma sm_find_None: "sm_find m k = None \<longleftrightarrow> k \<notin> set (sm_keys m)"
  by (induction m) auto

lemma sm_find_Some: "sm_inv m \<Longrightarrow> sm_find m k = Some v \<longleftrightarrow> (k, v) \<in> set m"
proof (induction m)
  case Nil
  then show ?case by simp
next
  case (Cons kv m)
  have "k \<noteq> fst kv" if "(k, v) \<in> set m" for k v
  proof -
    from that have "k \<in> set (sm_keys m)" by (force simp: sm_keys_def)
    with Cons.prems show ?thesis by (auto simp: sm_inv_Cons)
  qed
  with Cons show ?case by (cases kv) (auto simp: sm_inv_Cons)
qed

lemma set_keys_assign: "set (sm_keys (sm_assign k v m)) = insert k (set (sm_keys m))"
  by (induction m) auto

lemma sm_inv_assign: "sm_inv m \<Longrightarrow> sm_inv (sm_assign k v m)"
  by (induction m) (auto simp: sm_inv_Cons set_keys_assign)

lemma sm_keys_erase: "sm_keys (sm_erase k m) = filter (\<lambda>k'. k' \<noteq> k) (sm_keys m)"
  by (induction m) (auto simp: sm_erase_def)

lemma sm_inv_erase: "sm_inv m \<Longrightarrow> sm_inv (sm_erase k m)"
  by (simp add: sm_inv_def sm_keys_erase sorted_wrt_filter)

lemma sm_find_assign:
  "sm_inv m \<Longrightarrow> sm_find (sm_assign k v m) k' = (if k' = k then Some v else sm_find m k')"
proof (induction m)
  case Nil
  then show ?case by simp
next
  case (Cons kv m)
  have "k' \<notin> set (sm_keys m)" if "k' \<le> fst kv"
    using Cons.prems that by (auto simp: sm_inv_Cons)
  with Cons show ?case by (auto simp: sm_inv_Cons sm_find_None [symmetric])
qed

lemma sm_find_erase: "sm_find (sm_erase k m) k' = (if k' = k then None else sm_find m k')"
  by (induction m) (auto simp: sm_erase_def)

lemma length_sm_assign:
  "sm_inv m \<Longrightarrow>
   length (sm_assign k v m) = (if sm_find m k = None then Suc (length m) else length m)"
proof (induction m)
  case Nil
  then show ?case by simp
next
  case (Cons kv m)
  have "k \<notin> set (sm_keys m)" if "k \<le> fst kv"
    using Cons.prems that by (auto simp: sm_inv_Cons)
  with Cons show ?case by (auto simp: sm_inv_Cons sm_find_None)
qed

lemma sm_erase_absent: "k \<notin> set (sm_keys m) \<Longrightarrow> sm_erase k m = m"
  by (induction m) (auto simp: sm_erase_def)

lemma length_sm_erase:
  "sm_inv m \<Longrightarrow>
   length (sm_erase k m) = (if sm_find m k = None then length m else length m - 1)"
proof (induction m)
  case Nil
  then show ?case by (simp add: sm_erase_def)
next
  case (Cons kv m)
  show ?case
  proof (cases "fst kv = k")
    case True
    with Cons.prems have "k \<notin> set (sm_keys m)" by (auto simp: sm_inv_Cons)
    then have "sm_erase k m = m" by (rule sm_erase_absent)
    with True show ?thesis by (simp add: sm_erase_def)
  next
    case False
    have "0 < length m" if "sm_find m k \<noteq> None" using that by (cases m) auto
    with False Cons show ?thesis by (auto simp: sm_inv_Cons sm_erase_def)
  qed
qed

interpretation sm: token_store sm_find sm_assign sm_erase length sm_inv
proof unfold_locales
  fix m :: "('a, 'b) std_map" and k v
  show "sm_inv m \<Longrightarrow> sm_find m k = Some v \<Longrightarrow> 0 < length m" by (cases m) auto
qed (simp_all add: sm_find_assign sm_find_erase sm_inv_assign sm_inv_erase
      length_sm_assign length_sm_erase)

lemmas sm_store = sm.find_assign sm.find_erase sm.wf_assign sm.wf_erase

lemma sm_insert_inv: "sm_inv m \<Longrightarrow> sm_inv (snd (sm_insert k v m))"
  by (simp add: sm_insert_def sm_inv_assign split: option.split)

lemma sm_insert_flag: "fst (sm_insert k v m) \<longleftrightarrow> sm_find m k = None"
  by (simp add: sm_insert_def split: option.split)

lemma sm_find_insert:
  "sm_inv m \<Longrightarrow> sm_find (snd (sm_insert k v m)) k' =
     (if k' = k \<and> sm_find m k = None then Some v else sm_find m k')"
  by (auto simp: sm_insert_def sm_find_assign split: option.split)

lemma sm_erase_assign_fresh:
  "sm_find m k = None \<Longrightarrow> sm_erase k (sm_assign k v m) = m"
proof (induction m)
  case Nil
  then show ?case by (simp add: sm_erase_def)
next
  case (Cons kv m)
  then have "fst kv \<noteq> k" and rest: "sm_find m k = None" by (auto split: if_splits)
  then have "sm_erase k m = m" by (simp add: sm_erase_absent sm_find_None)
  with Cons.IH [OF rest] \<open>fst kv \<noteq> k\<close> show ?case by (auto simp: sm_erase_def)
qed

text \<open>The pairs with keys of a kind, by the keys in their order.\<close>

lemma sm_filter_keys:
  assumes "sm_inv m"
  shows "filter (P \<circ> fst) m
    = map (\<lambda>k. (k, the (sm_find m k))) (sorted_list_of_set {k. sm_find m k \<noteq> None \<and> P k})"
proof -
  let ?f = "filter (P \<circ> fst) m"
  have keys: "map fst ?f = filter P (sm_keys m)" by (simp add: sm_keys_def filter_map)
  have "sorted_wrt (<) (filter P (sm_keys m))" using assms by (simp add: sm_inv_def sorted_wrt_filter)
  then have "sorted_list_of_set (set (filter P (sm_keys m))) = filter P (sm_keys m)"
    using sorted_list_of_set.idem_if_sorted_distinct [of "filter P (sm_keys m)"]
    by (simp add: strict_sorted_iff del: set_filter)
  moreover have "set (filter P (sm_keys m)) = {k. sm_find m k \<noteq> None \<and> P k}"
    by (auto simp: sm_find_None)
  ultimately have keyset: "sorted_list_of_set {k. sm_find m k \<noteq> None \<and> P k} = map fst ?f" by (simp add: keys)
  have "the (sm_find m (fst kv)) = snd kv" if "kv \<in> set m" for kv
    using that sm_find_Some [OF assms, of "fst kv" "snd kv"] by simp
  then have same: "map ((\<lambda>k. (k, the (sm_find m k))) \<circ> fst) ?f = ?f" by (intro map_idI) auto
  show ?thesis unfolding keyset by (simp only: map_map same)
qed

end
