(* ===== verification/Std_String.thy ===== *)
theory Std_String
  imports Shape_Prelude
begin

text \<open>
  The parts of \<^verbatim>\<open>std::string\<close> and of the string streams the sources use. A \<open>char\<close> is a
  byte, so a \<^verbatim>\<open>std::string\<close> and a \<^verbatim>\<open>std::vector<uint8_t>\<close> of the same bytes are the same
  list; the conversions between them in the sources copy the bytes.
\<close>

type_synonym bytes = string

section \<open>Searching and cutting\<close>

text \<open>\<^verbatim>\<open>find(c)\<close>: the first position, \<open>None\<close> for \<^verbatim>\<open>npos\<close>.\<close>

fun str_find :: "char \<Rightarrow> string \<Rightarrow> nat option" where
  "str_find c [] = None"
| "str_find c (x # xs) = (if x = c then Some 0 else map_option Suc (str_find c xs))"

text \<open>\<^verbatim>\<open>substr(0, n)\<close> and \<^verbatim>\<open>erase(0, n)\<close>, which never throw: position 0 is in range.\<close>

definition str_prefix :: "nat \<Rightarrow> string \<Rightarrow> string" where
  "str_prefix n s = take n s"

definition str_erase_front :: "nat \<Rightarrow> string \<Rightarrow> string" where
  "str_erase_front n s = drop n s"

text \<open>\<^verbatim>\<open>0 == s.compare(0, n, t, 0, n)\<close>: both substrings are cut at the end of their string.\<close>

definition str_same_prefix :: "nat \<Rightarrow> string \<Rightarrow> string \<Rightarrow> bool" where
  "str_same_prefix n s t \<longleftrightarrow> take n s = take n t"

text \<open>\<^verbatim>\<open>find_last_of(set)\<close>: the last position that holds a character of the set.\<close>

fun str_find_last_of :: "char set \<Rightarrow> string \<Rightarrow> nat option" where
  "str_find_last_of C [] = None"
| "str_find_last_of C (x # xs) =
     (case str_find_last_of C xs of
        Some i \<Rightarrow> Some (Suc i)
      | None \<Rightarrow> if x \<in> C then Some 0 else None)"

text \<open>
  A \<^verbatim>\<open>std::string\<close> made from the \<^verbatim>\<open>const char*\<close> of another one ends at its first zero
  byte.
\<close>

definition of_c_str :: "string \<Rightarrow> string" where
  "of_c_str s = takeWhile (\<lambda>c. c \<noteq> CHR 0x00) s"

section \<open>Streams\<close>

text \<open>White space of the classic locale, which \<^verbatim>\<open>operator>>\<close> skips and stops at.\<close>

definition is_space :: "char \<Rightarrow> bool" where
  "is_space c \<longleftrightarrow> c \<in> {CHR 0x20, CHR 0x09, CHR 0x0A, CHR 0x0B, CHR 0x0C, CHR 0x0D}"

text \<open>
  \<^verbatim>\<open>in >> word\<close> into an empty string: the word, empty when only white space is left, and
  what is left to read.
\<close>

definition extract_word :: "string \<Rightarrow> string \<times> string" where
  "extract_word s = (let t = dropWhile is_space s in
     (takeWhile (\<lambda>c. \<not> is_space c) t, dropWhile (\<lambda>c. \<not> is_space c) t))"

text \<open>
  \<^verbatim>\<open>std::getline(in, line)\<close>: the line, whether the end of the input was met before the
  delimiter (\<^verbatim>\<open>eofbit\<close>, so that \<^verbatim>\<open>rdstate()\<close> is not zero), and what is left.
\<close>

definition get_line :: "char \<Rightarrow> string \<Rightarrow> string \<times> bool \<times> string" where
  "get_line d s = (case str_find d s of
       Some pos \<Rightarrow> (take pos s, False, drop (Suc pos) s)
     | None \<Rightarrow> (s, True, []))"

text \<open>\<^verbatim>\<open>std::left << std::setw(n) << s\<close>.\<close>

definition pad_right :: "nat \<Rightarrow> string \<Rightarrow> string" where
  "pad_right n s = s @ replicate (n - length s) CHR 0x20"

text \<open>\<^verbatim>\<open>out << n\<close> for an integer, in decimal.\<close>

fun dec_nat :: "nat \<Rightarrow> string" where
  "dec_nat n = (if n < 10 then [char_of (48 + n)] else dec_nat (n div 10) @ [char_of (48 + n mod 10)])"

declare dec_nat.simps [simp del]

definition dec_int :: "int \<Rightarrow> string" where
  "dec_int i = (if i < 0 then CHR ''-'' # dec_nat (nat (- i)) else dec_nat (nat i))"

abbreviation newline :: string where
  "newline \<equiv> [CHR 0x0A]"

section \<open>Facts\<close>

lemma str_find_None: "str_find c s = None \<longleftrightarrow> c \<notin> set s"
  by (induction s) auto

lemma str_find_Some_split:
  "str_find c s = Some p \<Longrightarrow> s = take p s @ c # drop (Suc p) s \<and> c \<notin> set (take p s) \<and> p < length s"
proof (induction s arbitrary: p)
  case Nil
  then show ?case by simp
next
  case (Cons x xs)
  then show ?case by (cases p) (auto split: if_splits)
qed

lemma str_find_append: "c \<notin> set s \<Longrightarrow> str_find c (s @ c # t) = Some (length s)"
  by (induction s) auto

lemma str_find_bound: "str_find c s = Some p \<Longrightarrow> p < length s"
  using str_find_Some_split by blast

lemma extract_word_no_space: "c \<in> set (fst (extract_word s)) \<Longrightarrow> \<not> is_space c"
  by (auto simp: extract_word_def Let_def dest: set_takeWhileD)

lemma extract_word_shorter: "length (snd (extract_word s)) \<le> length s"
proof -
  have "length (dropWhile P xs) \<le> length xs" for P :: "char \<Rightarrow> bool" and xs
    by (induction xs) auto
  then show ?thesis
    unfolding extract_word_def Let_def snd_conv by (meson le_trans)
qed

text \<open>A word followed by white space is read back whole.\<close>

lemma extract_word_append:
  assumes "\<forall>c \<in> set w. \<not> is_space c" and "w \<noteq> []" and "is_space d"
  shows "extract_word (w @ d # r) = (w, d # r)"
proof -
  have "dropWhile is_space (w @ d # r) = w @ d # r"
    using assms by (cases w) auto
  moreover have "takeWhile (\<lambda>c. \<not> is_space c) (w @ d # r) = w"
    using assms by (induction w) auto
  moreover have "dropWhile (\<lambda>c. \<not> is_space c) (w @ d # r) = d # r"
    using assms by (induction w) auto
  ultimately show ?thesis by (simp add: extract_word_def Let_def)
qed

lemma extract_word_all:
  assumes "\<forall>c \<in> set w. \<not> is_space c"
  shows "extract_word w = (w, [])"
proof -
  have "dropWhile is_space w = w" using assms by (cases w) auto
  moreover have "takeWhile (\<lambda>c. \<not> is_space c) w = w" "dropWhile (\<lambda>c. \<not> is_space c) w = []"
    using assms by (induction w) auto
  ultimately show ?thesis by (simp add: extract_word_def Let_def)
qed

lemma extract_word_skip: "is_space d \<Longrightarrow> extract_word (d # s) = extract_word s"
  by (simp add: extract_word_def)

lemma get_line_terminated: "d \<notin> set l \<Longrightarrow> get_line d (l @ d # r) = (l, False, r)"
  by (simp add: get_line_def str_find_append)

lemma get_line_last: "d \<notin> set l \<Longrightarrow> get_line d l = (l, True, [])"
  using str_find_None [of d l] by (simp add: get_line_def)

lemma of_c_str_no_zero: "CHR 0x00 \<notin> set s \<Longrightarrow> of_c_str s = s"
  unfolding of_c_str_def by (induction s) auto

lemma of_c_str_cut: "of_c_str (s @ CHR 0x00 # t) = of_c_str s"
  unfolding of_c_str_def by (induction s) auto

lemma str_find_last_of_None [simp]: "str_find_last_of C s = None \<longleftrightarrow> set s \<inter> C = {}"
  by (induction s) (auto split: option.split)

lemma str_find_last_of_append:
  "c \<in> C \<Longrightarrow> set t \<inter> C = {} \<Longrightarrow> str_find_last_of C (s @ c # t) = Some (length s)"
  by (induction s) (auto split: option.split)

end
