(* ===== verification/Topic.thy ===== *)
theory Topic
  imports Std_String
begin

text \<open>
  Topics of MQTT: the tokenizer of \<^verbatim>\<open>include/mqtt_utils.h\<close> and the three tests
  \<^verbatim>\<open>MqttService::Imp::msgarrvd\<close> makes for each subscription, with the matching rule of the MQTT
  standard as the specification they are measured against.
\<close>

section \<open>The tokenizer\<close>

text \<open>
  The loop of \<^verbatim>\<open>tokenizeTopic\<close>: \<open>s\<close> is what is left of the copy, \<open>retval\<close> the vector
  filled so far.
\<close>

function tokenize_loop :: "char \<Rightarrow> string \<Rightarrow> string list \<Rightarrow> string list" where
  "tokenize_loop delimit s retval =
     (case str_find delimit s of
        Some pos \<Rightarrow>
          tokenize_loop delimit (str_erase_front (pos + 1) s) (retval @ [str_prefix pos s])
      | None \<Rightarrow> retval @ [s])"
  by pat_completeness auto
termination
  by (relation "measure (\<lambda>(d, s, r). length s)")
     (auto simp: str_erase_front_def dest: str_find_bound)

declare tokenize_loop.simps [simp del]

definition tokenizeTopic :: "string \<Rightarrow> string list" where
  "tokenizeTopic tokens = tokenize_loop CHR ''/'' tokens []"

text \<open>What the loop computes, by structural recursion, and its inverse.\<close>

fun levels :: "char \<Rightarrow> string \<Rightarrow> string list" where
  "levels d [] = [[]]"
| "levels d (c # cs) =
     (if c = d then [] # levels d cs else (c # hd (levels d cs)) # tl (levels d cs))"

fun join :: "char \<Rightarrow> string list \<Rightarrow> string" where
  "join d [] = []"
| "join d [x] = x"
| "join d (x # y # zs) = x @ d # join d (y # zs)"

lemma levels_not_Nil [simp]: "levels d s \<noteq> []"
  by (cases s) auto

lemma levels_absent: "d \<notin> set s \<Longrightarrow> levels d s = [s]"
  by (induction s) auto

lemma levels_append: "d \<notin> set a \<Longrightarrow> levels d (a @ d # b) = a # levels d b"
  by (induction a) auto

lemma levels_general_append: "levels d (a @ d # b) = levels d a @ levels d b"
proof (induction a)
  case Nil
  then show ?case by simp
next
  case (Cons c a)
  then show ?case by (cases "levels d a") auto
qed

lemma tokenize_loop_levels: "tokenize_loop d s acc = acc @ levels d s"
proof (induction d s acc rule: tokenize_loop.induct)
  case (1 d s acc)
  show ?case
  proof (cases "str_find d s")
    case None
    then show ?thesis
      by (simp add: tokenize_loop.simps [of d s acc] levels_absent str_find_None [THEN iffD1])
  next
    case (Some p)
    from str_find_Some_split [OF Some]
    have s: "s = take p s @ d # drop (Suc p) s" and "d \<notin> set (take p s)" by auto
    then have "levels d s = take p s # levels d (drop (Suc p) s)"
      by (metis levels_append)
    with Some "1.IH" show ?thesis
      by (simp add: tokenize_loop.simps [of d s acc] str_prefix_def str_erase_front_def)
  qed
qed

lemma tokenizeTopic_levels: "tokenizeTopic s = levels CHR ''/'' s"
  by (simp add: tokenizeTopic_def tokenize_loop_levels)

lemma join_Cons: "xs \<noteq> [] \<Longrightarrow> join d (x # xs) = x @ d # join d xs"
  by (cases xs) auto

lemma join_levels: "join d (levels d s) = s"
proof (induction s)
  case Nil
  then show ?case by simp
next
  case (Cons c s)
  then show ?case
    by (cases "levels d s"; cases "tl (levels d s)") (auto simp: join_Cons)
qed

lemma levels_join: "xs \<noteq> [] \<Longrightarrow> \<forall>x \<in> set xs. d \<notin> set x \<Longrightarrow> levels d (join d xs) = xs"
proof (induction xs rule: induct_list012)
  case 1
  then show ?case by simp
next
  case (2 x)
  then show ?case by (simp add: levels_absent)
next
  case (3 x y zs)
  then show ?case by (simp add: levels_append)
qed

lemma levels_chars: "t \<in> set (levels d s) \<Longrightarrow> set t \<subseteq> set s - {d}"
proof (induction s arbitrary: t)
  case Nil
  then show ?case by simp
next
  case (Cons c s)
  then show ?case by (cases "levels d s") (fastforce split: if_splits)+
qed

lemma levels_inject: "levels d s = levels d t \<longleftrightarrow> s = t"
  by (metis join_levels)

lemma length_levels: "length (levels d s) = Suc (count_list s d)"
  by (induction s) auto

section \<open>The tests of msgarrvd\<close>

datatype match_kind = Exact | Hash | Plus

text \<open>\<^verbatim>\<open>topic2 == topic\<close>\<close>

definition exact_test :: "string \<Rightarrow> string \<Rightarrow> bool" where
  "exact_test topic2 topic \<longleftrightarrow> topic2 = topic"

text \<open>
  \<^verbatim>\<open>'#' == topic2[--sz] && 0 == topic2.compare(0, sz, topic, 0, sz)\<close>. For an empty
  \<^verbatim>\<open>topic2\<close> the decremented \<^verbatim>\<open>size_t\<close> wraps and the access is outside the string:
  \<open>None\<close>.
\<close>

definition hash_test :: "string \<Rightarrow> string \<Rightarrow> bool option" where
  "hash_test topic2 topic =
     (if topic2 = [] then None
      else let sz = length topic2 - 1 in
        Some (topic2 ! sz = CHR ''#'' \<and> str_same_prefix sz topic2 topic))"

text \<open>
  The iteration over the two token vectors. \<open>None\<close> is the dereference of the end iterator of
  the first vector.
\<close>

fun plus_loop :: "string list \<Rightarrow> string list \<Rightarrow> bool option" where
  "plus_loop [] it1 = Some True"
| "plus_loop (t2 # it2) it1 =
     (if t2 = ''+'' then plus_loop it2 (tl it1)
      else case it1 of
        [] \<Rightarrow> None
      | t1 # rest \<Rightarrow> if t2 \<noteq> t1 then Some False else plus_loop it2 rest)"

definition plus_test :: "string \<Rightarrow> string \<Rightarrow> bool option" where
  "plus_test topic2 topic =
     (if str_find CHR ''+'' topic2 = None then Some False
      else let vect1 = tokenizeTopic topic; vect2 = tokenizeTopic topic2 in
        if length vect1 = length vect2 then plus_loop vect2 vect1 else Some False)"

text \<open>
  The body of the loop over the subscriptions: which of the three tests call the handler, in
  the order of the calls.
\<close>

definition entry_matches :: "string \<Rightarrow> string \<Rightarrow> match_kind list option" where
  "entry_matches topic2 topic =
     (case hash_test topic2 topic of
        None \<Rightarrow> None
      | Some h \<Rightarrow>
          (case plus_test topic2 topic of
             None \<Rightarrow> None
           | Some p \<Rightarrow> Some ((if exact_test topic2 topic then [Exact] else [])
                            @ (if h then [Hash] else []) @ (if p then [Plus] else []))))"

section \<open>The matching rule of the standard\<close>

text \<open>
  MQTT 3.1.1, section 4.7.1, the levels: a \<^verbatim>\<open>+\<close> level matches one level, a final \<^verbatim>\<open>#\<close> level
  matches its parent and any number of levels below it, any other level matches itself.
\<close>

fun filter_matches :: "string list \<Rightarrow> string list \<Rightarrow> bool" where
  "filter_matches [] ts \<longleftrightarrow> ts = []"
| "filter_matches (f # fs) ts \<longleftrightarrow>
     (if f = ''#'' \<and> fs = [] then True
      else case ts of
        [] \<Rightarrow> False
      | t # ts' \<Rightarrow> (f = ''+'' \<or> f = t) \<and> filter_matches fs ts')"

definition levels_match :: "string \<Rightarrow> string \<Rightarrow> bool" where
  "levels_match flt topic = filter_matches (levels CHR ''/'' flt) (levels CHR ''/'' topic)"

text \<open>
  Section 4.7.2 adds that a filter that starts with a wildcard does not match a topic that starts
  with \<^verbatim>\<open>$\<close>, whatever their levels. The rule of the standard is both sections together.
\<close>

definition hidden_from :: "string \<Rightarrow> string \<Rightarrow> bool" where
  "hidden_from flt topic \<longleftrightarrow> take 1 topic = ''$'' \<and> take 1 flt \<in> {''+'', ''#''}"

definition mqtt_matches :: "string \<Rightarrow> string \<Rightarrow> bool" where
  "mqtt_matches flt topic \<longleftrightarrow> levels_match flt topic \<and> \<not> hidden_from flt topic"

definition topic_name :: "string \<Rightarrow> bool" where
  "topic_name t \<longleftrightarrow> CHR ''+'' \<notin> set t \<and> CHR ''#'' \<notin> set t"

section \<open>The tests against the rule\<close>

lemma plus_loop_list_all2:
  "length ts2 = length ts1 \<Longrightarrow>
   plus_loop ts2 ts1 = Some (list_all2 (\<lambda>f t. f = ''+'' \<or> f = t) ts2 ts1)"
  by (induction ts2 ts1 rule: list_induct2) auto

lemma plus_test_defined: "plus_test topic2 topic \<noteq> None"
  by (auto simp: plus_test_def Let_def plus_loop_list_all2)

lemma filter_matches_no_hash:
  "''#'' \<notin> set fs \<Longrightarrow> filter_matches fs ts \<longleftrightarrow> list_all2 (\<lambda>f t. f = ''+'' \<or> f = t) fs ts"
proof (induction fs ts rule: filter_matches.induct)
  case (1 ts)
  then show ?case by simp
next
  case (2 f fs ts)
  then show ?case by (cases ts) auto
qed

lemma hash_test_Some:
  assumes "topic2 \<noteq> []"
  shows "hash_test topic2 topic = Some
     (last topic2 = CHR ''#'' \<and> take (length topic2 - 1) topic = butlast topic2)"
  using assms
  by (auto simp: hash_test_def Let_def str_same_prefix_def last_conv_nth butlast_conv_take)

lemma hash_test_snoc:
  "hash_test (p @ ''#'') topic = Some (take (length p) topic = p)"
  by (auto simp: hash_test_Some butlast_append)

lemma plus_test_Some:
  "plus_test topic2 topic = Some (CHR ''+'' \<in> set topic2 \<and>
     list_all2 (\<lambda>f t. f = ''+'' \<or> f = t) (tokenizeTopic topic2) (tokenizeTopic topic))"
  by (auto simp: plus_test_def Let_def plus_loop_list_all2 str_find_None dest: list_all2_lengthD)

lemma entry_matches_eq:
  assumes "topic2 \<noteq> []"
  shows "entry_matches topic2 topic = Some (
     (if topic2 = topic then [Exact] else []) @
     (if last topic2 = CHR ''#'' \<and> take (length topic2 - 1) topic = butlast topic2
      then [Hash] else []) @
     (if CHR ''+'' \<in> set topic2 \<and>
         list_all2 (\<lambda>f t. f = ''+'' \<or> f = t) (tokenizeTopic topic2) (tokenizeTopic topic)
      then [Plus] else []))"
  unfolding entry_matches_def hash_test_Some [OF assms] plus_test_Some
  by (simp add: exact_test_def)


lemma token_chars: "t \<in> set (tokenizeTopic s) \<Longrightarrow> set t \<subseteq> set s"
  using levels_chars by (fastforce simp: tokenizeTopic_levels)

lemma token_free: "c \<notin> set s \<Longrightarrow> t \<in> set (tokenizeTopic s) \<Longrightarrow> c \<notin> set t"
  using token_chars by blast

lemma wildcard_token_absent: "c \<notin> set s \<Longrightarrow> [c] \<notin> set (tokenizeTopic s)"
  using token_free by fastforce

lemma list_all2_plain:
  "''+'' \<notin> set fs \<Longrightarrow> list_all2 (\<lambda>f t. f = ''+'' \<or> f = t) fs ts \<longleftrightarrow> fs = ts"
  by (induction fs arbitrary: ts) (auto simp: list_all2_Cons1)

lemma filter_matches_final_hash:
  assumes "''+'' \<notin> set fs" and "''#'' \<notin> set fs"
  shows "filter_matches (fs @ [''#'']) ts \<longleftrightarrow> (\<exists>r. ts = fs @ r)"
  using assms
proof (induction fs arbitrary: ts)
  case Nil
  then show ?case by simp
next
  case (Cons f fs)
  then show ?case by (cases ts) auto
qed

lemma levels_prefix:
  "(\<exists>r. levels d t = levels d p @ r) \<longleftrightarrow> t = p \<or> (\<exists>q. t = p @ d # q)"
proof
  assume "\<exists>r. levels d t = levels d p @ r"
  then obtain r where r: "levels d t = levels d p @ r" by blast
  have "t = join d (levels d p @ r)" by (metis r join_levels)
  moreover have "join d (xs @ ys) = join d xs @ d # join d ys" if "xs \<noteq> []" "ys \<noteq> []" for xs ys
    using that by (induction xs rule: induct_list012) (auto simp: join_Cons)
  ultimately show "t = p \<or> (\<exists>q. t = p @ d # q)"
    by (cases "r = []") (auto simp: join_levels)
next
  assume "t = p \<or> (\<exists>q. t = p @ d # q)"
  then show "\<exists>r. levels d t = levels d p @ r"
    by (auto simp: levels_general_append)
qed

lemma levels_match_hash:
  assumes "topic_name p"
  shows "levels_match (p @ ''/#'') topic \<longleftrightarrow> topic = p \<or> (\<exists>q. topic = p @ ''/'' @ q)"
proof -
  have "levels CHR ''/'' (p @ ''/#'') = levels CHR ''/'' p @ [''#'']"
    using levels_general_append [of "CHR ''/''" p "''#''"] by simp
  moreover have "''+'' \<notin> set (levels CHR ''/'' p)" "''#'' \<notin> set (levels CHR ''/'' p)"
    using assms wildcard_token_absent
    by (auto simp: topic_name_def tokenizeTopic_levels [symmetric])
  ultimately show ?thesis
    by (simp add: levels_match_def filter_matches_final_hash levels_prefix)
qed

lemma set_join: "set (join d xs) \<subseteq> insert d (\<Union> (set ` set xs))"
  by (induction d xs rule: join.induct) auto

lemma token_holding:
  assumes "c \<in> set s" and "c \<noteq> CHR ''/''"
  shows "\<exists>t \<in> set (tokenizeTopic s). c \<in> set t"
  using assms set_join [of "CHR ''/''" "tokenizeTopic s"]
  by (auto simp: tokenizeTopic_levels join_levels)

lemma both_wildcards_silent:
  assumes "topic_name topic" and "CHR ''+'' \<in> set flt" and "flt \<noteq> []" and "last flt = CHR ''#''"
  shows "entry_matches flt topic = Some []"
proof -
  have "CHR ''+'' \<in> set (butlast flt)"
    using assms(2-4) by (cases flt rule: rev_cases) auto
  then have "take (length flt - 1) topic \<noteq> butlast flt"
    using assms(1) by (metis in_set_takeD topic_name_def)
  moreover have "flt \<noteq> topic" using assms(1,2) by (auto simp: topic_name_def)
  moreover have "\<not> list_all2 (\<lambda>f t. f = ''+'' \<or> f = t) (tokenizeTopic flt) (tokenizeTopic topic)"
  proof
    assume all: "list_all2 (\<lambda>f t. f = ''+'' \<or> f = t) (tokenizeTopic flt) (tokenizeTopic topic)"
    have "CHR ''#'' \<in> set flt" using assms(3,4) last_in_set by metis
    then obtain f where "f \<in> set (tokenizeTopic flt)" "CHR ''#'' \<in> set f"
      using token_holding by fastforce
    with all obtain t where "t \<in> set (tokenizeTopic topic)" "CHR ''#'' \<in> set t"
      by (fastforce simp: in_set_conv_nth list_all2_conv_all_nth)
    with assms(1) token_chars show False by (auto simp: topic_name_def)
  qed
  ultimately show ?thesis by (simp add: entry_matches_eq [OF assms(3)])
qed

lemma single_level_calls:
  assumes "topic_name topic" and "CHR ''#'' \<notin> set flt" and "flt \<noteq> []"
  shows "entry_matches flt topic = Some (if levels_match flt topic
     then [if CHR ''+'' \<in> set flt then Plus else Exact] else [])"
proof -
  let ?all = "list_all2 (\<lambda>f t. f = ''+'' \<or> f = t) (tokenizeTopic flt) (tokenizeTopic topic)"
  have "last flt \<noteq> CHR ''#''" using assms(2,3) last_in_set by fastforce
  moreover have m: "levels_match flt topic \<longleftrightarrow> ?all"
    using filter_matches_no_hash wildcard_token_absent [OF assms(2)]
    by (simp add: levels_match_def tokenizeTopic_levels)
  moreover have "?all \<longleftrightarrow> flt = topic" if "CHR ''+'' \<notin> set flt"
    using list_all2_plain [OF wildcard_token_absent [OF that]]
    by (simp add: tokenizeTopic_levels levels_inject)
  moreover have "flt \<noteq> topic" if "CHR ''+'' \<in> set flt"
    using that assms(1) by (auto simp: topic_name_def)
  ultimately show ?thesis by (auto simp: entry_matches_eq [OF assms(3)])
qed

lemma multi_level_calls:
  assumes "topic_name topic" and "topic_name p"
  shows "entry_matches (p @ ''/#'') topic = Some
     (if levels_match (p @ ''/#'') topic \<and> topic \<noteq> p then [Hash] else [])"
proof -
  have "take (Suc (length p)) topic = p @ ''/'' \<longleftrightarrow> (\<exists>q. topic = p @ ''/'' @ q)"
    by (metis append.assoc append_eq_conv_conj append_take_drop_id length_append_singleton)
  moreover have "p @ ''/#'' \<noteq> topic" "CHR ''+'' \<notin> set (p @ ''/#'')"
    using assms by (auto simp: topic_name_def)
  ultimately show ?thesis
    using levels_match_hash [OF assms(2), of topic]
    by (auto simp: entry_matches_eq butlast_append)
qed

section \<open>Properties\<close>

text \<open>
  Splitting a topic loses nothing. Joining the tokens of \<^verbatim>\<open>tokenizeTopic\<close> with the
  delimiter gives the topic back, there is one token more than delimiters, and no token holds
  one.
\<close>

theorem tokenizeTopic_split:
  "join CHR ''/'' (tokenizeTopic s) = s
   \<and> length (tokenizeTopic s) = Suc (count_list s CHR ''/'')
   \<and> CHR ''/'' \<notin> \<Union> (set ` set (tokenizeTopic s))"
  using levels_chars [of _ "CHR ''/''" s]
  by (auto simp: tokenizeTopic_levels join_levels length_levels)

text \<open>
  The tokens of a topic built from levels are these levels, so the tokenizer inverts the
  assembly of a topic.
\<close>

theorem tokenizeTopic_join:
  assumes "xs \<noteq> []" and "\<forall>x \<in> set xs. CHR ''/'' \<notin> set x"
  shows "tokenizeTopic (join CHR ''/'' xs) = xs"
  using assms by (simp add: tokenizeTopic_levels levels_join)

theorem tokenizeTopic_join_witness:
  "tokenizeTopic (join CHR ''/'' [''a'', [], ''+'']) = [''a'', [], ''+'']"
  by (rule tokenizeTopic_join) simp_all

text \<open>
  C16: on nonempty filters without the multi-level wildcard the tests of \<^verbatim>\<open>msgarrvd\<close> call the
  handler at most once, and exactly when the filter matches by the standard (\<open>mqtt_matches\<close>), or when
  only section 4.7.2 keeps it from matching: the tests compare levels and do not treat a topic that
  starts with \<^verbatim>\<open>$\<close> apart. The witness has a filter of each kind.
\<close>

theorem entry_matches_single_level:
  assumes "topic_name topic" and "CHR ''#'' \<notin> set flt" and "flt \<noteq> []"
  shows "\<exists>ks. entry_matches flt topic = Some ks
    \<and> length ks = (if mqtt_matches flt topic \<or> (levels_match flt topic \<and> hidden_from flt topic) then 1 else 0)"
  using single_level_calls [OF assms] by (auto simp: mqtt_matches_def)

theorem entry_matches_single_level_witness:
  "(\<exists>ks. entry_matches ''dev/+/temp'' ''dev/7/temp'' = Some ks \<and> length ks = 1)
   \<and> mqtt_matches ''dev/+/temp'' ''dev/7/temp''
   \<and> (\<exists>ks. entry_matches ''+/load'' ''$SYS/load'' = Some ks \<and> length ks = 1)
   \<and> \<not> mqtt_matches ''+/load'' ''$SYS/load''"
proof -
  have "mqtt_matches ''dev/+/temp'' ''dev/7/temp''" "\<not> mqtt_matches ''+/load'' ''$SYS/load''"
    "levels_match ''+/load'' ''$SYS/load'' \<and> hidden_from ''+/load'' ''$SYS/load''"
    by (simp_all add: mqtt_matches_def levels_match_def hidden_from_def)
  with entry_matches_single_level [of "''dev/7/temp''" "''dev/+/temp''"]
    entry_matches_single_level [of "''$SYS/load''" "''+/load''"]
  show ?thesis by (simp add: topic_name_def)
qed

text \<open>
  On filters \<^verbatim>\<open>p/#\<close> with no other wildcard the tests call the handler exactly for the
  topics below \<^verbatim>\<open>p\<close>. By the levels \<^verbatim>\<open>p\<close> itself matches too, and the code does not call for it:
  that is the only difference.
\<close>

theorem entry_matches_multi_level:
  assumes "topic_name topic" and "topic_name p"
  shows "\<exists>ks. entry_matches (p @ ''/#'') topic = Some ks
     \<and> length ks = (if levels_match (p @ ''/#'') topic \<and> topic \<noteq> p then 1 else 0)"
  using multi_level_calls [OF assms] by simp

theorem entry_matches_multi_level_witness:
  "(\<exists>ks. entry_matches (''dev'' @ ''/#'') ''dev'' = Some ks
     \<and> length ks = (if levels_match (''dev'' @ ''/#'') ''dev'' \<and> ''dev'' \<noteq> ''dev'' then 1 else 0))
   \<and> levels_match ''dev/#'' ''dev''"
  using entry_matches_multi_level [of "''dev''" "''dev''"]
  by (simp add: topic_name_def levels_match_def)

text \<open>
  A filter that combines both wildcards, as in \<^verbatim>\<open>a/+/#\<close>, never calls its handler: the
  prefix test compares the \<^verbatim>\<open>+\<close> literally and the token test compares the \<^verbatim>\<open>#\<close> literally.
  The witness is such a filter that matches by its levels.
\<close>

theorem entry_matches_both_wildcards:
  assumes "topic_name topic" and "CHR ''+'' \<in> set flt" and "flt \<noteq> []" and "last flt = CHR ''#''"
  shows "entry_matches flt topic = Some []"
  using assms by (rule both_wildcards_silent)

theorem entry_matches_both_wildcards_witness:
  "entry_matches ''a/+/#'' ''a/b/c'' = Some [] \<and> levels_match ''a/+/#'' ''a/b/c''"
  using entry_matches_both_wildcards [of "''a/b/c''" "''a/+/#''"]
  by (simp add: topic_name_def levels_match_def)

text \<open>
  For a published topic name, which holds no wildcard, no subscription is called twice for
  one message, whatever its filter.
\<close>

theorem entry_matches_at_most_once:
  assumes "topic_name topic" and "entry_matches flt topic = Some ks"
  shows "length ks \<le> 1"
proof (cases "flt = []")
  case True
  with assms(2) show ?thesis by (simp add: entry_matches_def hash_test_def)
next
  case False
  show ?thesis
  proof (cases "last flt = CHR ''#''")
    case True
    have "flt \<noteq> topic" using True False assms(1) last_in_set by (fastforce simp: topic_name_def)
    moreover have "CHR ''+'' \<in> set flt \<Longrightarrow> ks = []"
      using both_wildcards_silent [OF assms(1) _ False True] assms(2) by simp
    ultimately show ?thesis
      using assms(2) by (auto simp: entry_matches_eq [OF False] split: if_splits)
  next
    case hash: False
    have "CHR ''+'' \<in> set flt \<Longrightarrow> flt \<noteq> topic" using assms(1) by (auto simp: topic_name_def)
    with hash show ?thesis
      using assms(2) by (auto simp: entry_matches_eq [OF False] split: if_splits)
  qed
qed

theorem entry_matches_at_most_once_witness:
  "length [Hash] \<le> 1 \<and> entry_matches ''a/#'' ''a/b'' = Some [Hash]"
proof -
  have "entry_matches ''a/#'' ''a/b'' = Some [Hash]" by (simp add: entry_matches_eq)
  moreover from this have "length [Hash] \<le> 1"
    by (rule entry_matches_at_most_once [rotated]) (simp add: topic_name_def)
  ultimately show ?thesis by blast
qed

end
