(* ===== verification/Mqtt.thy ===== *)
theory Mqtt
  imports Std_Map Topic Step_Systems
begin

text \<open>
  \<^verbatim>\<open>MqttService/MqttService.cpp\<close>: the class \<^verbatim>\<open>MqttService::Imp\<close>, an MQTT client on top of
  the Paho library.

  Paho is not part of the repository. What a call of it answers (return code, token, handle) is
  an argument of the operation that makes the call, and the call itself is an output of the
  operation. Paho's callbacks are operations of their own. The handlers clients pass as
  \<^verbatim>\<open>std::function\<close> are values of a type \<open>'h\<close>, an empty one is \<open>None\<close>; that a handler is
  called, with which arguments and in which order, is an output. Trace messages are left out
  but for the one of a message nobody handles.
\<close>

section \<open>Data\<close>

type_synonym token = int
type_synonym topic = string

abbreviation (input) MQTTASYNC_SUCCESS :: int where
  "MQTTASYNC_SUCCESS \<equiv> 0"

text \<open>
  \<^verbatim>\<open>MqttOnSubscribeQosHandlerFunc\<close>, \<^verbatim>\<open>MqttMessageStrHandlerFunc\<close> and the two publish
  handlers hold what a client passed or one of the lambdas of the service: the ones of the
  obsolete \<^verbatim>\<open>subscribe(topic, qos)\<close>, the logging ones of \<^verbatim>\<open>publish(topic, qos, msg)\<close>.
\<close>

datatype 'h on_subscribe = SubUser "'h option" | SubLegacy
datatype 'h on_message = MsgUser "'h option" | MsgLegacy
datatype 'h on_send = SendUser "'h option" | SendLog
datatype 'h on_delivery = DeliveryUser "'h option" | DeliveryLog

record 'h SubscribeContext =
  sc_topic :: topic
  sc_qos :: int
  sc_onSubscribeHndl :: "'h on_subscribe"

record 'h UnsubscribeContext =
  uc_topic :: topic
  uc_onUnsubscribeHndl :: "'h option"

record 'h PublishContext =
  pc_topic :: topic
  pc_qos :: int
  pc_msg :: bytes
  pc_onSendHndl :: "'h on_send"
  pc_onDeliveryHndl :: "'h on_delivery"

record ConnectionPars =
  cp_brokerAddress :: string
  cp_trustStore :: string
  cp_certificate :: string
  cp_privateKey :: string
  cp_user :: string
  cp_password :: string
  cp_enabledSSL :: bool

definition default_ConnectionPars :: ConnectionPars where
  "default_ConnectionPars = \<lparr>cp_brokerAddress = [], cp_trustStore = [], cp_certificate = [],
     cp_privateKey = [], cp_user = [], cp_password = [], cp_enabledSSL = True\<rparr>"

text \<open>The configuration members, with their initialisers in \<open>mqtt_config0\<close>.\<close>

record mqtt_config =
  m_mqttBrokerAddr :: string
  m_mqttClientId :: string
  m_mqttPersistence :: int
  m_mqttUser :: string
  m_mqttPassword :: string
  m_mqttEnabledSSL :: bool
  m_mqttKeepAliveInterval :: int
  m_mqttConnectTimeout :: int
  m_mqttMinReconnect :: int
  m_mqttMaxReconnect :: int
  m_buffered :: bool
  m_bufferSize :: int
  m_trustStore :: string
  m_keyStore :: string
  m_privateKey :: string
  m_privateKeyPassword :: string
  m_enabledCipherSuites :: string
  m_enableServerCertAuth :: bool

definition mqtt_config0 :: mqtt_config where
  "mqtt_config0 = \<lparr>m_mqttBrokerAddr = [], m_mqttClientId = [], m_mqttPersistence = 0,
     m_mqttUser = [], m_mqttPassword = [], m_mqttEnabledSSL = False,
     m_mqttKeepAliveInterval = 20, m_mqttConnectTimeout = 5, m_mqttMinReconnect = 1,
     m_mqttMaxReconnect = 64, m_buffered = False, m_bufferSize = 1024, m_trustStore = [],
     m_keyStore = [], m_privateKey = [], m_privateKeyPassword = [], m_enabledCipherSuites = [],
     m_enableServerCertAuth = True\<rparr>"

text \<open>\<^verbatim>\<open>std::promise<bool>\<close>: not satisfied yet, or with its value.\<close>

datatype promise = Unsatisfied | Satisfied bool

text \<open>\<^verbatim>\<open>ILaunchService\<close>: the identity of the attached object and its data directory.\<close>

record launch_service =
  ls_id :: nat
  ls_dataDir :: string

record 'h mqtt =
  cfg :: mqtt_config
  m_iLaunchService :: "launch_service option"
  m_mqttMessageHandlerFunc :: "'h option"
  m_mqttMessageStrHandlerFunc :: "'h option"
  m_mqttOnConnectHandlerFunc :: "'h option"
  m_mqttOnConnectFailureHandlerFunc :: "'h option"
  m_mqttOnSubscribeHandlerFunc :: "'h option"
  m_mqttOnDisconnectHandlerFunc :: "'h option"
  m_subscribeContextMap :: "(token, 'h SubscribeContext) std_map"
  m_unsubscribeContextMap :: "(token, 'h UnsubscribeContext) std_map"
  m_onMessageHndlMap :: "(topic, 'h on_message) std_map"
  m_publishContextMap :: "(token, 'h PublishContext) std_map"
  m_client :: "nat option"
  m_connected :: bool
  m_disconnect_promise :: "promise option"

definition mqtt0 :: "'h mqtt" where
  "mqtt0 = \<lparr>cfg = mqtt_config0, m_iLaunchService = None, m_mqttMessageHandlerFunc = None,
     m_mqttMessageStrHandlerFunc = None, m_mqttOnConnectHandlerFunc = None,
     m_mqttOnConnectFailureHandlerFunc = None, m_mqttOnSubscribeHandlerFunc = None,
     m_mqttOnDisconnectHandlerFunc = None, m_subscribeContextMap = [],
     m_unsubscribeContextMap = [], m_onMessageHndlMap = [], m_publishContextMap = [],
     m_client = None, m_connected = False, m_disconnect_promise = None\<rparr>"

text \<open>What is thrown; the last two are not exceptions but undefined behaviour.\<close>

datatype mqtt_error =
    AlreadyCreated
  | CreateFailed int
  | SetConnectedFailed int
  | SetCallbacksFailed int
  | ClientNotCreated
  | ConnectFailed int
  | SubscribeFailed int topic int
  | UnsubscribeFailed int topic
  | BadFunctionCall
  | PromiseAlreadySatisfied
  | NullPointer
  | OutOfBounds

text \<open>The options of \<^verbatim>\<open>MQTTAsync_connect\<close> the service sets; \<open>None\<close> is a null pointer.\<close>

record ssl_options =
  ssl_trustStore :: "string option"
  ssl_keyStore :: "string option"
  ssl_privateKey :: "string option"
  ssl_privateKeyPassword :: "string option"
  ssl_enabledCipherSuites :: "string option"
  ssl_enableServerCertAuth :: bool

record connect_options =
  co_keepAliveInterval :: int
  co_cleansession :: bool
  co_connectTimeout :: int
  co_username :: string
  co_password :: string
  co_automaticReconnect :: bool
  co_ssl :: "ssl_options option"

datatype 'h mqtt_out =
    OnSubscribe 'h topic int bool
  | LegacyOnSubscribe 'h topic bool
  | OnUnsubscribe 'h topic bool
  | OnSend 'h topic int bool
  | OnDelivery 'h topic int bool
  | OnMessage 'h topic string
  | MessageHandler 'h topic bytes
  | MessageStrHandler 'h topic string
  | OnConnect 'h
  | OnConnectFailure 'h int string
  | OnDisconnect 'h
  | NoHandlerFor topic
  | PahoCreate string string int bool int
  | PahoSetConnected
  | PahoSetCallbacks bool
  | PahoConnect connect_options
  | PahoDisconnect "nat option"
  | PahoDestroy "nat option"
  | PahoSubscribe topic int
  | PahoUnsubscribe topic
  | PahoSendMessage topic int bytes

type_synonym 'h mqtt_outcome = "(mqtt_error, unit, 'h mqtt_out, 'h mqtt) outcome"

text \<open>The answers of the library.\<close>

record create_reply =
  cr_create :: int
  cr_handle :: "nat option"
  cr_setConnected :: int
  cr_setCallbacks :: int

record request_reply =
  rr_code :: int
  rr_token :: token

datatype disconnect_reply = NoAnswer | DisconnectSucceeded | DisconnectFailed

text \<open>
  \<^verbatim>\<open>shape::Properties\<close> by its readers: \<open>None\<close> for a member that is missing or of another
  type, which leaves the variable passed to the reader unchanged.
\<close>

record properties =
  getMemberAsString :: "string \<Rightarrow> string option"
  getMemberAsInt :: "string \<Rightarrow> int option"
  getMemberAsBool :: "string \<Rightarrow> bool option"

definition read_member :: "(string \<Rightarrow> 'a option) \<Rightarrow> string \<Rightarrow> 'a \<Rightarrow> 'a" where
  "read_member get name old = (case get name of Some v \<Rightarrow> v | None \<Rightarrow> old)"

lemma read_member_simps [simp]:
  "get name = Some v \<Longrightarrow> read_member get name old = v"
  "get name = None \<Longrightarrow> read_member get name old = old"
  by (simp_all add: read_member_def)

lemma read_member_twice [simp]:
  "read_member get name (read_member get name old) = read_member get name old"
  by (cases "get name") simp_all

section \<open>Creating and destroying the client\<close>

text \<open>The assignments from the connection parameters.\<close>

definition apply_pars :: "string \<Rightarrow> ConnectionPars \<Rightarrow> mqtt_config \<Rightarrow> mqtt_config" where
  "apply_pars clientId cp c = c\<lparr>
     m_mqttBrokerAddr := if cp_brokerAddress cp \<noteq> [] then cp_brokerAddress cp else m_mqttBrokerAddr c,
     m_trustStore := if cp_trustStore cp \<noteq> [] then cp_trustStore cp else m_trustStore c,
     m_keyStore := if cp_certificate cp \<noteq> [] then cp_certificate cp else m_keyStore c,
     m_privateKey := if cp_privateKey cp \<noteq> [] then cp_privateKey cp else m_privateKey c,
     m_mqttUser := if cp_user cp \<noteq> [] then cp_user cp else m_mqttUser c,
     m_mqttPassword := if cp_password cp \<noteq> [] then cp_password cp else m_mqttPassword c,
     m_mqttEnabledSSL := cp_enabledSSL cp,
     m_mqttClientId := clientId\<rparr>"

definition mqtt_create ::
  "string \<Rightarrow> ConnectionPars \<Rightarrow> create_reply \<Rightarrow> 'h mqtt \<Rightarrow> 'h mqtt_outcome"
where
  "mqtt_create clientId cp r s =
     (if m_client s \<noteq> None then throws AlreadyCreated s
      else
        let c = apply_pars clientId cp (cfg s); s1 = s\<lparr>cfg := c, m_client := cr_handle r\<rparr> in
        emit_then [PahoCreate (m_mqttBrokerAddr c) (m_mqttClientId c) (m_mqttPersistence c)
                     (m_buffered c) (m_bufferSize c)]
          (if cr_create r \<noteq> MQTTASYNC_SUCCESS then throws (CreateFailed (cr_create r)) s1
           else emit_then [PahoSetConnected]
             (if cr_setConnected r \<noteq> MQTTASYNC_SUCCESS then throws (SetConnectedFailed (cr_create r)) s1
              else emit_then [PahoSetCallbacks True]
                (if cr_setCallbacks r \<noteq> MQTTASYNC_SUCCESS
                 then throws (SetCallbacksFailed (cr_setCallbacks r)) s1
                 else returns () s1))))"

text \<open>\<^verbatim>\<open>onDisconnect\<close> and \<^verbatim>\<open>onDisconnectFailure\<close>, the callbacks of a disconnect.\<close>

definition set_disconnect_promise :: "bool \<Rightarrow> 'h mqtt \<Rightarrow> 'h mqtt_outcome" where
  "set_disconnect_promise v s =
     (case m_disconnect_promise s of
        None \<Rightarrow> throws NullPointer s
      | Some Unsatisfied \<Rightarrow> returns () (s\<lparr>m_disconnect_promise := Some (Satisfied v)\<rparr>)
      | Some (Satisfied _) \<Rightarrow> throws PromiseAlreadySatisfied s)"

definition mqtt_onDisconnect :: "'h mqtt \<Rightarrow> 'h mqtt_outcome" where
  "mqtt_onDisconnect s = and_then (set_disconnect_promise True s) (\<lambda>_ s.
     case m_mqttOnDisconnectHandlerFunc s of
       Some h \<Rightarrow> emits [OnDisconnect h] s
     | None \<Rightarrow> returns () s)"

definition mqtt_onDisconnectFailure :: "'h mqtt \<Rightarrow> 'h mqtt_outcome" where
  "mqtt_onDisconnectFailure s = set_disconnect_promise False s"

text \<open>
  \<^verbatim>\<open>disconnect()\<close> waits up to five seconds for the promise; the reply says which callback
  ran while it waited. It goes on in the same way whatever happened: only warnings differ.
\<close>

definition mqtt_disconnect :: "disconnect_reply \<Rightarrow> 'h mqtt \<Rightarrow> 'h mqtt_outcome" where
  "mqtt_disconnect r s =
     (let s1 = s\<lparr>m_disconnect_promise := Some Unsatisfied\<rparr> in
      emit_then [PahoDisconnect (m_client s)]
        (case r of
           NoAnswer \<Rightarrow> returns () s1
         | DisconnectSucceeded \<Rightarrow> mqtt_onDisconnect s1
         | DisconnectFailed \<Rightarrow> mqtt_onDisconnectFailure s1))"

definition mqtt_disconnect_with :: "'h option \<Rightarrow> disconnect_reply \<Rightarrow> 'h mqtt \<Rightarrow> 'h mqtt_outcome" where
  "mqtt_disconnect_with onDisconnect r s =
     mqtt_disconnect r (s\<lparr>m_mqttOnDisconnectHandlerFunc := onDisconnect\<rparr>)"

text \<open>
  \<^verbatim>\<open>MQTTAsync_destroy(&m_client)\<close> writes \<^verbatim>\<open>m_client\<close>; what it writes is the argument
  \<open>left\<close>.
\<close>

definition mqtt_destroy :: "string \<Rightarrow> disconnect_reply \<Rightarrow> nat option \<Rightarrow> 'h mqtt \<Rightarrow> 'h mqtt_outcome" where
  "mqtt_destroy clientId r left s = and_then (mqtt_disconnect r s) (\<lambda>_ s.
     emits [PahoSetCallbacks False, PahoDestroy (m_client s)] (s\<lparr>m_client := left\<rparr>))"

section \<open>Connecting\<close>

definition non_empty :: "string \<Rightarrow> string option" where
  "non_empty v = (if v = [] then None else Some v)"

definition ssl_options_of :: "mqtt_config \<Rightarrow> ssl_options" where
  "ssl_options_of c = \<lparr>ssl_trustStore = non_empty (m_trustStore c),
     ssl_keyStore = non_empty (m_keyStore c), ssl_privateKey = non_empty (m_privateKey c),
     ssl_privateKeyPassword = non_empty (m_privateKeyPassword c),
     ssl_enabledCipherSuites = non_empty (m_enabledCipherSuites c),
     ssl_enableServerCertAuth = m_enableServerCertAuth c\<rparr>"

definition connect_options_of :: "mqtt_config \<Rightarrow> connect_options" where
  "connect_options_of c = \<lparr>co_keepAliveInterval = m_mqttKeepAliveInterval c,
     co_cleansession = True, co_connectTimeout = m_mqttConnectTimeout c,
     co_username = m_mqttUser c, co_password = m_mqttPassword c, co_automaticReconnect = True,
     co_ssl = (if m_mqttEnabledSSL c then Some (ssl_options_of c) else None)\<rparr>"

text \<open>\<open>isConnected\<close> and \<open>code\<close> are the answers of \<^verbatim>\<open>MQTTAsync_isConnected\<close> and \<^verbatim>\<open>MQTTAsync_connect\<close>.\<close>

definition mqtt_connect :: "bool \<Rightarrow> int \<Rightarrow> 'h mqtt \<Rightarrow> 'h mqtt_outcome" where
  "mqtt_connect isConnected code s =
     (let s1 = s\<lparr>m_connected := False\<rparr> in
      if m_client s1 = None then throws ClientNotCreated s1
      else if isConnected then returns () s1
      else emit_then [PahoConnect (connect_options_of (cfg s1))]
        (if code \<noteq> MQTTASYNC_SUCCESS then throws (ConnectFailed code) s1 else returns () s1))"

definition mqtt_connect_on :: "'h option \<Rightarrow> bool \<Rightarrow> int \<Rightarrow> 'h mqtt \<Rightarrow> 'h mqtt_outcome" where
  "mqtt_connect_on onConnect isConnected code s =
     mqtt_connect isConnected code (s\<lparr>m_mqttOnConnectHandlerFunc := onConnect\<rparr>)"

definition mqtt_connect_on2 ::
  "'h option \<Rightarrow> 'h option \<Rightarrow> bool \<Rightarrow> int \<Rightarrow> 'h mqtt \<Rightarrow> 'h mqtt_outcome"
where
  "mqtt_connect_on2 onConnect onConnectFailure isConnected code s =
     mqtt_connect isConnected code
       (s\<lparr>m_mqttOnConnectHandlerFunc := onConnect,
          m_mqttOnConnectFailureHandlerFunc := onConnectFailure\<rparr>)"

text \<open>\<^verbatim>\<open>isReady() const\<close>, with the answer of \<^verbatim>\<open>MQTTAsync_isConnected\<close>.\<close>

definition mqtt_isReady :: "bool \<Rightarrow> 'h mqtt \<Rightarrow> bool" where
  "mqtt_isReady isConnected s = (if m_client s = None then False else isConnected)"

text \<open>The callbacks of a connection.\<close>

definition mqtt_onConnect :: "'h mqtt \<Rightarrow> 'h mqtt_outcome" where
  "mqtt_onConnect s = returns () (s\<lparr>m_connected := True\<rparr>)"

text \<open>The response holds the code and, unless it is a null pointer, the message.\<close>

definition mqtt_onConnectFailure ::
  "(int \<times> string option) option \<Rightarrow> 'h mqtt \<Rightarrow> 'h mqtt_outcome"
where
  "mqtt_onConnectFailure response s =
     (let s1 = s\<lparr>m_connected := False\<rparr> in
      case response of
        None \<Rightarrow> returns () s1
      | Some (code, message) \<Rightarrow>
          (case m_mqttOnConnectFailureHandlerFunc s1 of
             None \<Rightarrow> returns () s1
           | Some h \<Rightarrow> emits [OnConnectFailure h code
               (case message of Some m \<Rightarrow> m | None \<Rightarrow> ''unknown'')] s1))"

definition mqtt_connected :: "'h mqtt \<Rightarrow> 'h mqtt_outcome" where
  "mqtt_connected s =
     (let s1 = s\<lparr>m_connected := True\<rparr> in
      case m_mqttOnConnectHandlerFunc s1 of
        Some h \<Rightarrow> emits [OnConnect h] s1
      | None \<Rightarrow> returns () s1)"

definition mqtt_connlost :: "'h mqtt \<Rightarrow> 'h mqtt_outcome" where
  "mqtt_connlost s = returns () (s\<lparr>m_connected := False\<rparr>)"

section \<open>Subscribing\<close>

text \<open>
  The first half, up to the library call, and the second half, which registers the handlers
  under the lock of the subscription data. A callback of the library can run in between.
\<close>

definition subscribe_request :: "topic \<Rightarrow> int \<Rightarrow> int \<Rightarrow> 'h mqtt \<Rightarrow> 'h mqtt_outcome" where
  "subscribe_request topic qos code s =
     (if m_client s = None then throws ClientNotCreated s
      else emit_then [PahoSubscribe topic qos]
        (if code \<noteq> MQTTASYNC_SUCCESS then throws (SubscribeFailed code topic qos) s
         else returns () s))"

definition subscribe_register ::
  "token \<Rightarrow> topic \<Rightarrow> int \<Rightarrow> 'h on_subscribe \<Rightarrow> 'h on_message \<Rightarrow> 'h mqtt \<Rightarrow> 'h mqtt"
where
  "subscribe_register token topic qos onSubscribe onMessage s = s\<lparr>
     m_subscribeContextMap := sm_assign token
       \<lparr>sc_topic = topic, sc_qos = qos, sc_onSubscribeHndl = onSubscribe\<rparr> (m_subscribeContextMap s),
     m_onMessageHndlMap := sm_assign topic onMessage (m_onMessageHndlMap s)\<rparr>"

definition mqtt_subscribe ::
  "topic \<Rightarrow> int \<Rightarrow> 'h on_subscribe \<Rightarrow> 'h on_message \<Rightarrow> request_reply \<Rightarrow> 'h mqtt \<Rightarrow> 'h mqtt_outcome"
where
  "mqtt_subscribe topic qos onSubscribe onMessage r s =
     and_then (subscribe_request topic qos (rr_code r) s) (\<lambda>_ s.
       returns () (subscribe_register (rr_token r) topic qos onSubscribe onMessage s))"

text \<open>The obsolete \<^verbatim>\<open>subscribe(topic, qos)\<close> passes its own two lambdas.\<close>

definition mqtt_subscribe_legacy :: "topic \<Rightarrow> int \<Rightarrow> request_reply \<Rightarrow> 'h mqtt \<Rightarrow> 'h mqtt_outcome" where
  "mqtt_subscribe_legacy topic qos r s =
     (if m_client s = None then throws ClientNotCreated s
      else mqtt_subscribe topic qos SubLegacy MsgLegacy r s)"

definition mqtt_unsubscribe ::
  "topic \<Rightarrow> 'h option \<Rightarrow> request_reply \<Rightarrow> 'h mqtt \<Rightarrow> 'h mqtt_outcome"
where
  "mqtt_unsubscribe topic onUnsubscribe r s =
     (if m_client s = None then throws ClientNotCreated s
      else emit_then [PahoUnsubscribe topic]
        (if rr_code r \<noteq> MQTTASYNC_SUCCESS then throws (UnsubscribeFailed (rr_code r) topic) s
         else returns () (s\<lparr>
           m_onMessageHndlMap := sm_erase topic (m_onMessageHndlMap s),
           m_unsubscribeContextMap := sm_assign (rr_token r)
             \<lparr>uc_topic = topic, uc_onUnsubscribeHndl = onUnsubscribe\<rparr>
             (m_unsubscribeContextMap s)\<rparr>)))"

text \<open>
  Calling a context. The lambda of the obsolete \<^verbatim>\<open>subscribe\<close> looks the registered handler up
  when it runs and passes it \<^verbatim>\<open>true\<close>.
\<close>

definition call_onSubscribe ::
  "'h SubscribeContext \<Rightarrow> int \<Rightarrow> bool \<Rightarrow> 'h mqtt \<Rightarrow> 'h mqtt_outcome"
where
  "call_onSubscribe sc qos result s =
     (case sc_onSubscribeHndl sc of
        SubUser None \<Rightarrow> throws BadFunctionCall s
      | SubUser (Some h) \<Rightarrow> emits [OnSubscribe h (sc_topic sc) qos result] s
      | SubLegacy \<Rightarrow>
          (case m_mqttOnSubscribeHandlerFunc s of
             Some h \<Rightarrow> emits [LegacyOnSubscribe h (sc_topic sc) True] s
           | None \<Rightarrow> returns () s))"

text \<open>
  \<^verbatim>\<open>onSubscribe\<close> (the response holds token and granted qos) and \<^verbatim>\<open>onSubscribeFailure\<close>
  (the response holds the token): call the context of the token, then erase it.
\<close>

definition finish_subscribe :: "token \<Rightarrow> int \<Rightarrow> bool \<Rightarrow> 'h mqtt \<Rightarrow> 'h mqtt_outcome" where
  "finish_subscribe token qos result s =
     (case sm_find (m_subscribeContextMap s) token of
        None \<Rightarrow> returns () s
      | Some sc \<Rightarrow> and_then (call_onSubscribe sc qos result s) (\<lambda>_ s.
          returns () (s\<lparr>m_subscribeContextMap := sm_erase token (m_subscribeContextMap s)\<rparr>)))"

definition mqtt_onSubscribe :: "(token \<times> int) option \<Rightarrow> 'h mqtt \<Rightarrow> 'h mqtt_outcome" where
  "mqtt_onSubscribe response s =
     (case response of
        None \<Rightarrow> finish_subscribe 0 0 True s
      | Some (token, qos) \<Rightarrow> finish_subscribe token qos True s)"

definition mqtt_onSubscribeFailure :: "token option \<Rightarrow> 'h mqtt \<Rightarrow> 'h mqtt_outcome" where
  "mqtt_onSubscribeFailure response s =
     finish_subscribe (case response of None \<Rightarrow> 0 | Some token \<Rightarrow> token) 0 False s"

definition finish_unsubscribe :: "token \<Rightarrow> bool \<Rightarrow> 'h mqtt \<Rightarrow> 'h mqtt_outcome" where
  "finish_unsubscribe token result s =
     (case sm_find (m_unsubscribeContextMap s) token of
        None \<Rightarrow> returns () s
      | Some uc \<Rightarrow>
          (case uc_onUnsubscribeHndl uc of
             None \<Rightarrow> throws BadFunctionCall s
           | Some h \<Rightarrow> emits [OnUnsubscribe h (uc_topic uc) result]
               (s\<lparr>m_unsubscribeContextMap := sm_erase token (m_unsubscribeContextMap s)\<rparr>)))"

definition mqtt_onUnsubscribe :: "token option \<Rightarrow> 'h mqtt \<Rightarrow> 'h mqtt_outcome" where
  "mqtt_onUnsubscribe response s =
     finish_unsubscribe (case response of None \<Rightarrow> 0 | Some token \<Rightarrow> token) True s"

definition mqtt_onUnsubscribeFailure :: "token option \<Rightarrow> 'h mqtt \<Rightarrow> 'h mqtt_outcome" where
  "mqtt_onUnsubscribeFailure response s =
     finish_unsubscribe (case response of None \<Rightarrow> 0 | Some token \<Rightarrow> token) False s"

section \<open>Publishing\<close>

text \<open>
  \<^verbatim>\<open>m_publishContextMap.size() > m_bufferSize\<close> converts the \<^verbatim>\<open>int\<close> to \<^verbatim>\<open>size_t\<close>: a
  negative limit becomes a huge one.
\<close>

definition to_size_t :: "int \<Rightarrow> nat" where
  "to_size_t i = nat (i mod 2 ^ 64)"

definition mqtt_publish ::
  "topic \<Rightarrow> int \<Rightarrow> bytes \<Rightarrow> 'h on_send \<Rightarrow> 'h on_delivery \<Rightarrow> request_reply \<Rightarrow> 'h mqtt \<Rightarrow> 'h mqtt_outcome"
where
  "mqtt_publish topic qos msg onSend onDelivery r s =
     (if m_client s = None then throws ClientNotCreated s
      else emit_then [PahoSendMessage topic qos msg]
        (if rr_code r = MQTTASYNC_SUCCESS
         then let pc = \<lparr>pc_topic = topic, pc_qos = qos, pc_msg = msg, pc_onSendHndl = onSend,
                        pc_onDeliveryHndl = onDelivery\<rparr> in
           if length (m_publishContextMap s) > to_size_t (m_bufferSize (cfg s)) then returns () s
           else returns ()
             (s\<lparr>m_publishContextMap := sm_assign (rr_token r) pc (m_publishContextMap s)\<rparr>)
         else returns () s))"

definition mqtt_publish_plain ::
  "topic \<Rightarrow> int \<Rightarrow> bytes \<Rightarrow> request_reply \<Rightarrow> 'h mqtt \<Rightarrow> 'h mqtt_outcome"
where
  "mqtt_publish_plain topic qos msg r s = mqtt_publish topic qos msg SendLog DeliveryLog r s"

definition call_onSend :: "'h PublishContext \<Rightarrow> int \<Rightarrow> bool \<Rightarrow> 'h mqtt \<Rightarrow> 'h mqtt_outcome" where
  "call_onSend pc qos result s =
     (case pc_onSendHndl pc of
        SendUser None \<Rightarrow> throws BadFunctionCall s
      | SendUser (Some h) \<Rightarrow> emits [OnSend h (pc_topic pc) qos result] s
      | SendLog \<Rightarrow> returns () s)"

definition finish_send :: "token \<Rightarrow> bool \<Rightarrow> 'h mqtt \<Rightarrow> 'h mqtt_outcome" where
  "finish_send token result s =
     (case sm_find (m_publishContextMap s) token of
        None \<Rightarrow> returns () s
      | Some pc \<Rightarrow> and_then (call_onSend pc (pc_qos pc) result s) (\<lambda>_ s.
          returns () (s\<lparr>m_publishContextMap := sm_erase token (m_publishContextMap s)\<rparr>)))"

text \<open>A null response of \<^verbatim>\<open>onSend\<close> is ignored; in \<^verbatim>\<open>onSendFailure\<close> it is token 0.\<close>

definition mqtt_onSend :: "token option \<Rightarrow> 'h mqtt \<Rightarrow> 'h mqtt_outcome" where
  "mqtt_onSend response s =
     (case response of None \<Rightarrow> returns () s | Some token \<Rightarrow> finish_send token True s)"

definition mqtt_onSendFailure :: "token option \<Rightarrow> 'h mqtt \<Rightarrow> 'h mqtt_outcome" where
  "mqtt_onSendFailure response s =
     finish_send (case response of None \<Rightarrow> 0 | Some token \<Rightarrow> token) False s"

text \<open>\<^verbatim>\<open>delivered\<close> calls the delivery handler and leaves the context where it is.\<close>

definition mqtt_delivered :: "token \<Rightarrow> 'h mqtt \<Rightarrow> 'h mqtt_outcome" where
  "mqtt_delivered token s =
     (case sm_find (m_publishContextMap s) token of
        None \<Rightarrow> returns () s
      | Some pc \<Rightarrow>
          (case pc_onDeliveryHndl pc of
             DeliveryUser None \<Rightarrow> throws BadFunctionCall s
           | DeliveryUser (Some h) \<Rightarrow> emits [OnDelivery h (pc_topic pc) (pc_qos pc) True] s
           | DeliveryLog \<Rightarrow> returns () s))"

section \<open>Receiving\<close>

text \<open>
  \<^verbatim>\<open>msgarrvd\<close> makes the topic from the buffer: \<open>topicLen\<close> bytes of it, or up to the first
  zero byte when the length is not positive.
\<close>

definition arrived_topic :: "string \<Rightarrow> int \<Rightarrow> topic" where
  "arrived_topic topicName topicLen =
     (if topicLen > 0 then take (nat topicLen) topicName else of_c_str topicName)"

text \<open>One call of a message handler.\<close>

definition call_onMessage :: "'h mqtt \<Rightarrow> 'h on_message \<Rightarrow> topic \<Rightarrow> string \<Rightarrow> mqtt_error + 'h mqtt_out list" where
  "call_onMessage s hndl topic msg =
     (case hndl of
        MsgUser None \<Rightarrow> Inl BadFunctionCall
      | MsgUser (Some h) \<Rightarrow> Inr [OnMessage h topic msg]
      | MsgLegacy \<Rightarrow> Inr
          ((case m_mqttMessageHandlerFunc s of Some h \<Rightarrow> [MessageHandler h topic msg] | None \<Rightarrow> []) @
           (case m_mqttMessageStrHandlerFunc s of Some h \<Rightarrow> [MessageStrHandler h topic msg] | None \<Rightarrow> [])))"

text \<open>The calls of one subscription: one for each test that succeeds.\<close>

fun call_for_matches ::
  "'h mqtt \<Rightarrow> 'h on_message \<Rightarrow> topic \<Rightarrow> string \<Rightarrow> match_kind list \<Rightarrow> (mqtt_error, unit, 'h mqtt_out, bool) outcome"
where
  "call_for_matches s hndl topic msg [] = returns () False"
| "call_for_matches s hndl topic msg (k # ks) =
     (case call_onMessage s hndl topic msg of
        Inl e \<Rightarrow> throws e False
      | Inr outs \<Rightarrow> (result_of (call_for_matches s hndl topic msg ks),
          outs @ outs_of (call_for_matches s hndl topic msg ks), True))"

text \<open>
  The loop over the subscriptions in the order of their filters; the flag of the outcome is
  \<^verbatim>\<open>handled\<close>.
\<close>

fun dispatch_loop ::
  "'h mqtt \<Rightarrow> topic \<Rightarrow> string \<Rightarrow> bool \<Rightarrow> (topic \<times> 'h on_message) list \<Rightarrow> (mqtt_error, unit, 'h mqtt_out, bool) outcome"
where
  "dispatch_loop s topic msg handled [] = returns () handled"
| "dispatch_loop s topic msg handled (it # its) =
     (case entry_matches (fst it) topic of
        None \<Rightarrow> throws OutOfBounds handled
      | Some ks \<Rightarrow>
          and_then (call_for_matches s (snd it) topic msg ks) (\<lambda>_ called.
            dispatch_loop s topic msg (handled \<or> called) its))"

definition mqtt_msgarrvd :: "string \<Rightarrow> int \<Rightarrow> bytes \<Rightarrow> 'h mqtt \<Rightarrow> 'h mqtt_outcome" where
  "mqtt_msgarrvd topicName topicLen payload s =
     (let topic = arrived_topic topicName topicLen;
          d = dispatch_loop s topic payload False (m_onMessageHndlMap s)
      in (result_of d,
          outs_of d @ (if result_of d = Inr () \<and> \<not> state_of d then [NoHandlerFor topic] else []),
          s))"

section \<open>Component functions\<close>

definition cert_path :: "string \<Rightarrow> string \<Rightarrow> string" where
  "cert_path dataDir v = (if v = [] then [] else dataDir @ ''/cert/'' @ v)"

text \<open>The reads of \<^verbatim>\<open>modify\<close>, in two halves, and the certificate paths it puts in front.\<close>

definition read_connection :: "properties \<Rightarrow> mqtt_config \<Rightarrow> mqtt_config" where
  "read_connection props c = c\<lparr>
     m_mqttBrokerAddr := read_member (getMemberAsString props) ''BrokerAddr'' (m_mqttBrokerAddr c),
     m_mqttPersistence := read_member (getMemberAsInt props) ''Persistence'' (m_mqttPersistence c),
     m_mqttUser := read_member (getMemberAsString props) ''User'' (m_mqttUser c),
     m_mqttPassword := read_member (getMemberAsString props) ''Password'' (m_mqttPassword c),
     m_mqttEnabledSSL := read_member (getMemberAsBool props) ''EnabledSSL'' (m_mqttEnabledSSL c),
     m_trustStore := read_member (getMemberAsString props) ''TrustStore'' (m_trustStore c),
     m_keyStore := read_member (getMemberAsString props) ''KeyStore'' (m_keyStore c),
     m_privateKey := read_member (getMemberAsString props) ''PrivateKey'' (m_privateKey c),
     m_privateKeyPassword :=
       read_member (getMemberAsString props) ''PrivateKeyPassword'' (m_privateKeyPassword c),
     m_enabledCipherSuites :=
       read_member (getMemberAsString props) ''EnabledCipherSuites'' (m_enabledCipherSuites c),
     m_enableServerCertAuth :=
       read_member (getMemberAsBool props) ''EnableServerCertAuth'' (m_enableServerCertAuth c)\<rparr>"

definition read_limits :: "properties \<Rightarrow> mqtt_config \<Rightarrow> mqtt_config" where
  "read_limits props c = c\<lparr>
     m_mqttKeepAliveInterval :=
       read_member (getMemberAsInt props) ''KeepAliveInterval'' (m_mqttKeepAliveInterval c),
     m_mqttConnectTimeout :=
       read_member (getMemberAsInt props) ''ConnectTimeout'' (m_mqttConnectTimeout c),
     m_mqttMinReconnect := read_member (getMemberAsInt props) ''MinReconnect'' (m_mqttMinReconnect c),
     m_mqttMaxReconnect := read_member (getMemberAsInt props) ''MaxReconnect'' (m_mqttMaxReconnect c),
     m_buffered := read_member (getMemberAsBool props) ''Buffered'' (m_buffered c),
     m_bufferSize := read_member (getMemberAsInt props) ''BufferSize'' (m_bufferSize c)\<rparr>"

definition put_cert_paths :: "string \<Rightarrow> mqtt_config \<Rightarrow> mqtt_config" where
  "put_cert_paths dataDir c = c\<lparr>
     m_trustStore := cert_path dataDir (m_trustStore c),
     m_keyStore := cert_path dataDir (m_keyStore c),
     m_privateKey := cert_path dataDir (m_privateKey c)\<rparr>"

definition mqtt_modify :: "properties \<Rightarrow> 'h mqtt \<Rightarrow> 'h mqtt_outcome" where
  "mqtt_modify props s =
     (let c = read_limits props (read_connection props (cfg s)) in
      case m_iLaunchService s of
        None \<Rightarrow> throws NullPointer (s\<lparr>cfg := c\<rparr>)
      | Some ls \<Rightarrow> returns () (s\<lparr>cfg := put_cert_paths (ls_dataDir ls) c\<rparr>))"

definition mqtt_activate :: "properties \<Rightarrow> 'h mqtt \<Rightarrow> 'h mqtt_outcome" where
  "mqtt_activate props s = mqtt_modify props s"

definition mqtt_deactivate :: "disconnect_reply \<Rightarrow> nat option \<Rightarrow> 'h mqtt \<Rightarrow> 'h mqtt_outcome" where
  "mqtt_deactivate r left s = and_then (mqtt_disconnect r s) (\<lambda>_ s.
     emits [PahoSetCallbacks False, PahoDestroy (m_client s)] (s\<lparr>m_client := left\<rparr>))"

definition mqtt_attach :: "launch_service \<Rightarrow> 'h mqtt \<Rightarrow> 'h mqtt_outcome" where
  "mqtt_attach iface s = returns () (s\<lparr>m_iLaunchService := Some iface\<rparr>)"

definition mqtt_detach :: "launch_service \<Rightarrow> 'h mqtt \<Rightarrow> 'h mqtt_outcome" where
  "mqtt_detach iface s =
     (if map_option ls_id (m_iLaunchService s) = Some (ls_id iface)
      then returns () (s\<lparr>m_iLaunchService := None\<rparr>) else returns () s)"

section \<open>The whole interface\<close>

text \<open>The registrations: \<open>Some h\<close> registers, \<open>None\<close> is what the unregister functions store.\<close>

datatype handler_slot = MessageSlot | MessageStrSlot | OnConnectSlot | OnSubscribeSlot | OnDisconnectSlot

fun mqtt_register :: "handler_slot \<Rightarrow> 'h option \<Rightarrow> 'h mqtt \<Rightarrow> 'h mqtt" where
  "mqtt_register MessageSlot hndl s = s\<lparr>m_mqttMessageHandlerFunc := hndl\<rparr>"
| "mqtt_register MessageStrSlot hndl s = s\<lparr>m_mqttMessageStrHandlerFunc := hndl\<rparr>"
| "mqtt_register OnConnectSlot hndl s = s\<lparr>m_mqttOnConnectHandlerFunc := hndl\<rparr>"
| "mqtt_register OnSubscribeSlot hndl s = s\<lparr>m_mqttOnSubscribeHandlerFunc := hndl\<rparr>"
| "mqtt_register OnDisconnectSlot hndl s = s\<lparr>m_mqttOnDisconnectHandlerFunc := hndl\<rparr>"

text \<open>The member functions of the interface, and the callbacks Paho makes.\<close>

datatype 'h mqtt_call =
    Create string ConnectionPars create_reply
  | Destroy string disconnect_reply "nat option"
  | Connect bool int
  | ConnectOn "'h option" bool int
  | ConnectOn2 "'h option" "'h option" bool int
  | Disconnect disconnect_reply
  | DisconnectOn "'h option" disconnect_reply
  | Register handler_slot "'h option"
  | SubscribeLegacy topic int request_reply
  | Subscribe topic int "'h on_subscribe" "'h on_message" request_reply
  | Unsubscribe topic "'h option" request_reply
  | PublishPlain topic int bytes request_reply
  | Publish topic int bytes "'h on_send" "'h on_delivery" request_reply
  | Modify properties
  | Activate properties
  | Deactivate disconnect_reply "nat option"
  | Attach launch_service
  | Detach launch_service
  | CbConnect
  | CbConnectFailure "(int \<times> string option) option"
  | CbConnected
  | CbConnlost
  | CbSubscribe "(token \<times> int) option"
  | CbSubscribeFailure "token option"
  | CbUnsubscribe "token option"
  | CbUnsubscribeFailure "token option"
  | CbSend "token option"
  | CbSendFailure "token option"
  | CbDisconnect
  | CbDisconnectFailure
  | CbDelivered token
  | CbMsgarrvd string int bytes

text \<open>The forwarding members of \<^verbatim>\<open>MqttService\<close> and the static callbacks \<^verbatim>\<open>s_...\<close>.\<close>

fun mqtt_step :: "'h mqtt \<Rightarrow> 'h mqtt_call \<Rightarrow> 'h mqtt_outcome" where
  "mqtt_step s (Create clientId cp r) = mqtt_create clientId cp r s"
| "mqtt_step s (Destroy clientId r left) = mqtt_destroy clientId r left s"
| "mqtt_step s (Connect isConnected code) = mqtt_connect isConnected code s"
| "mqtt_step s (ConnectOn h isConnected code) = mqtt_connect_on h isConnected code s"
| "mqtt_step s (ConnectOn2 h f isConnected code) = mqtt_connect_on2 h f isConnected code s"
| "mqtt_step s (Disconnect r) = mqtt_disconnect r s"
| "mqtt_step s (DisconnectOn h r) = mqtt_disconnect_with h r s"
| "mqtt_step s (Register slot hndl) = returns () (mqtt_register slot hndl s)"
| "mqtt_step s (SubscribeLegacy topic qos r) = mqtt_subscribe_legacy topic qos r s"
| "mqtt_step s (Subscribe topic qos onSub onMsg r) = mqtt_subscribe topic qos onSub onMsg r s"
| "mqtt_step s (Unsubscribe topic h r) = mqtt_unsubscribe topic h r s"
| "mqtt_step s (PublishPlain topic qos msg r) = mqtt_publish_plain topic qos msg r s"
| "mqtt_step s (Publish topic qos msg onSnd onDel r) = mqtt_publish topic qos msg onSnd onDel r s"
| "mqtt_step s (Modify props) = mqtt_modify props s"
| "mqtt_step s (Activate props) = mqtt_activate props s"
| "mqtt_step s (Deactivate r left) = mqtt_deactivate r left s"
| "mqtt_step s (Attach iface) = mqtt_attach iface s"
| "mqtt_step s (Detach iface) = mqtt_detach iface s"
| "mqtt_step s CbConnect = mqtt_onConnect s"
| "mqtt_step s (CbConnectFailure r) = mqtt_onConnectFailure r s"
| "mqtt_step s CbConnected = mqtt_connected s"
| "mqtt_step s CbConnlost = mqtt_connlost s"
| "mqtt_step s (CbSubscribe r) = mqtt_onSubscribe r s"
| "mqtt_step s (CbSubscribeFailure r) = mqtt_onSubscribeFailure r s"
| "mqtt_step s (CbUnsubscribe r) = mqtt_onUnsubscribe r s"
| "mqtt_step s (CbUnsubscribeFailure r) = mqtt_onUnsubscribeFailure r s"
| "mqtt_step s (CbSend r) = mqtt_onSend r s"
| "mqtt_step s (CbSendFailure r) = mqtt_onSendFailure r s"
| "mqtt_step s CbDisconnect = mqtt_onDisconnect s"
| "mqtt_step s CbDisconnectFailure = mqtt_onDisconnectFailure s"
| "mqtt_step s (CbDelivered token) = mqtt_delivered token s"
| "mqtt_step s (CbMsgarrvd topicName topicLen payload) = mqtt_msgarrvd topicName topicLen payload s"

end
