(* ===== verification/Mqtt_Correct.thy ===== *)
theory Mqtt_Correct
  imports Mqtt
begin

text \<open>
  What \<^verbatim>\<open>MqttService\<close> guarantees: the bounds and balances of its three maps of contexts
  over every sequence of calls and callbacks, the dispatch of messages, the life of a client, a
  connection and a subscription, and the configuration. The step function \<open>mqtt_step\<close> of
  the model is the object the interfaces of \<open>Step_Systems\<close> are interpreted on.
\<close>

section \<open>Bundles of facts\<close>

lemmas mqtt_client_defs =
  mqtt_create_def mqtt_destroy_def mqtt_disconnect_def mqtt_disconnect_with_def
  mqtt_onDisconnect_def mqtt_onDisconnectFailure_def set_disconnect_promise_def
  mqtt_connect_def mqtt_connect_on_def mqtt_connect_on2_def mqtt_onConnect_def
  mqtt_onConnectFailure_def mqtt_connected_def mqtt_connlost_def mqtt_deactivate_def
  mqtt_attach_def mqtt_detach_def

lemmas mqtt_data_defs =
  subscribe_request_def subscribe_register_def mqtt_subscribe_def mqtt_subscribe_legacy_def
  mqtt_unsubscribe_def mqtt_publish_def mqtt_publish_plain_def mqtt_delivered_def
  mqtt_modify_def mqtt_activate_def mqtt_msgarrvd_def

lemmas mqtt_callback_defs =
  call_onSubscribe_def finish_subscribe_def mqtt_onSubscribe_def mqtt_onSubscribeFailure_def
  finish_unsubscribe_def mqtt_onUnsubscribe_def mqtt_onUnsubscribeFailure_def
  call_onSend_def finish_send_def mqtt_onSend_def mqtt_onSendFailure_def

lemmas mqtt_splits =
  option.split prod.split promise.split disconnect_reply.split on_subscribe.split on_send.split
  on_delivery.split

lemmas mqtt_op_simps = mqtt_client_defs mqtt_data_defs mqtt_callback_defs outcome_simps Let_def

definition mqtt_inv :: "'h mqtt \<Rightarrow> bool" where
  "mqtt_inv s \<longleftrightarrow> sm_inv (m_subscribeContextMap s) \<and> sm_inv (m_unsubscribeContextMap s)
     \<and> sm_inv (m_onMessageHndlMap s) \<and> sm_inv (m_publishContextMap s)"

lemma mqtt_step_inv: "mqtt_inv s \<Longrightarrow> mqtt_inv (state_of (mqtt_step s c))"
proof (cases c)
  case (Register slot hndl)
  then show "mqtt_inv s \<Longrightarrow> ?thesis" by (cases slot) (simp_all add: mqtt_inv_def outcome_simps)
qed (simp_all add: mqtt_inv_def mqtt_op_simps sm_inv_assign sm_inv_erase split: mqtt_splits)

section \<open>The limit of pending publishes\<close>

fun configures :: "'h mqtt_call \<Rightarrow> bool" where
  "configures (Modify props) = True"
| "configures (Activate props) = True"
| "configures _ = False"

definition publish_limit :: "'h mqtt \<Rightarrow> nat" where
  "publish_limit s = to_size_t (m_bufferSize (cfg s))"

definition within_limit :: "'h mqtt \<Rightarrow> bool" where
  "within_limit s \<longleftrightarrow> length (m_publishContextMap s) \<le> Suc (publish_limit s)"

lemma step_limit: "\<not> configures c \<Longrightarrow> publish_limit (state_of (mqtt_step s c)) = publish_limit s"
proof (cases c)
  case (Register slot hndl)
  then show ?thesis by (cases slot) (simp_all add: publish_limit_def outcome_simps)
qed (simp_all add: publish_limit_def mqtt_op_simps apply_pars_def split: mqtt_splits)

lemma length_erase_le: "length (sm_erase k m) \<le> length m"
  by (simp add: sm_erase_def)

lemma length_assign_le: "length (sm_assign k v m) \<le> Suc (length m)"
  by (induction m) auto

lemmas length_erase_trans = length_erase_le [THEN le_trans]

text \<open>What each operation does to the number of pending publishes.\<close>

fun accepted_publish :: "'h mqtt_call \<Rightarrow> nat" where
  "accepted_publish (Publish topic qos msg onSnd onDel r) = of_bool (rr_code r = MQTTASYNC_SUCCESS)"
| "accepted_publish (PublishPlain topic qos msg r) = of_bool (rr_code r = MQTTASYNC_SUCCESS)"
| "accepted_publish _ = 0"

lemma step_publish_map:
  "length (m_publishContextMap (state_of (mqtt_step s c))) \<le> length (m_publishContextMap s)
   \<or> accepted_publish c = 1 \<and> length (m_publishContextMap s) \<le> publish_limit s
     \<and> length (m_publishContextMap (state_of (mqtt_step s c))) \<le> Suc (length (m_publishContextMap s))"
proof (cases c)
  case (Register slot hndl)
  then show ?thesis by (cases slot) (simp_all add: outcome_simps)
qed (auto simp: mqtt_op_simps publish_limit_def length_erase_le length_assign_le not_less
    split: mqtt_splits)

lemma step_within_limit:
  "within_limit s \<Longrightarrow> \<not> configures c \<Longrightarrow> within_limit (state_of (mqtt_step s c))"
  using step_publish_map [of s c] by (auto simp: within_limit_def step_limit)

interpretation limited: call_sequence mqtt_step "\<lambda>c. \<not> configures c" within_limit
  by unfold_locales (rule step_within_limit)

section \<open>Every result is reported at most once\<close>

fun is_OnSend :: "'h mqtt_out \<Rightarrow> bool" where
  "is_OnSend (OnSend h topic qos result) = True"
| "is_OnSend _ = False"

fun is_OnSubscribe :: "'h mqtt_out \<Rightarrow> bool" where
  "is_OnSubscribe (OnSubscribe h topic qos result) = True"
| "is_OnSubscribe (LegacyOnSubscribe h topic result) = True"
| "is_OnSubscribe _ = False"

fun accepted_subscribe :: "'h mqtt_call \<Rightarrow> nat" where
  "accepted_subscribe (Subscribe topic qos onSub onMsg r) = of_bool (rr_code r = MQTTASYNC_SUCCESS)"
| "accepted_subscribe (SubscribeLegacy topic qos r) = of_bool (rr_code r = MQTTASYNC_SUCCESS)"
| "accepted_subscribe _ = 0"

lemma call_onMessage_kinds:
  assumes "call_onMessage s hndl topic msg = Inr outs"
  shows "\<forall>e \<in> set outs. \<not> is_OnSend e \<and> \<not> is_OnSubscribe e"
  using assms by (auto simp: call_onMessage_def split: on_message.splits option.splits)

lemma call_for_matches_kinds:
  "\<forall>e \<in> set (outs_of (call_for_matches s hndl topic msg ks)). \<not> is_OnSend e \<and> \<not> is_OnSubscribe e"
proof (induction ks)
  case (Cons k ks)
  then show ?case
    using call_onMessage_kinds [of s hndl topic msg] by (auto simp: outcome_simps split: sum.split)
qed (simp add: outcome_simps)

lemma dispatch_loop_kinds:
  "\<forall>e \<in> set (outs_of (dispatch_loop s topic msg handled its)). \<not> is_OnSend e \<and> \<not> is_OnSubscribe e"
proof (induction its arbitrary: handled)
  case (Cons it its)
  then show ?case
    using call_for_matches_kinds [of s "snd it" topic msg]
    by (auto simp: outcome_simps and_then_def split: option.split sum.split)
qed (simp add: outcome_simps)

lemma dispatch_counts [simp]:
  "count_if is_OnSend (outs_of (dispatch_loop s topic msg handled its)) = 0"
  "count_if is_OnSubscribe (outs_of (dispatch_loop s topic msg handled its)) = 0"
  using dispatch_loop_kinds [of s topic msg handled its] by auto

lemma step_send_balance:
  "mqtt_inv s \<Longrightarrow>
   count_if is_OnSend (outs_of (mqtt_step s c)) + length (m_publishContextMap (state_of (mqtt_step s c)))
     \<le> length (m_publishContextMap s) + accepted_publish c"
proof (cases c)
  case (Register slot hndl)
  then show ?thesis by (cases slot) (simp_all add: outcome_simps)
qed (auto simp: mqtt_op_simps mqtt_inv_def length_erase_le length_assign_le sm.count_erase_found
    split: mqtt_splits)

lemma step_subscribe_balance:
  "mqtt_inv s \<Longrightarrow>
   count_if is_OnSubscribe (outs_of (mqtt_step s c)) + length (m_subscribeContextMap (state_of (mqtt_step s c)))
     \<le> length (m_subscribeContextMap s) + accepted_subscribe c"
proof (cases c)
  case (Register slot hndl)
  then show ?thesis by (cases slot) (simp_all add: outcome_simps)
qed (auto simp: mqtt_op_simps mqtt_inv_def length_erase_le length_assign_le sm.count_erase_found
    split: mqtt_splits)

interpretation sends: ledger mqtt_step "\<lambda>_. True" mqtt_inv
    "\<lambda>s. length (m_publishContextMap s)" "\<lambda>_. accepted_publish" is_OnSend
  by unfold_locales (simp_all add: mqtt_step_inv step_send_balance)

interpretation subs: ledger mqtt_step "\<lambda>_. True" mqtt_inv
    "\<lambda>s. length (m_subscribeContextMap s)" "\<lambda>_. accepted_subscribe" is_OnSubscribe
  by unfold_locales (simp_all add: mqtt_step_inv step_subscribe_balance)

section \<open>Dispatching a message\<close>

text \<open>A filter whose meaning the tests implement, and what they accept of it.\<close>

definition plain_filter :: "topic \<Rightarrow> bool" where
  "plain_filter flt \<longleftrightarrow> flt \<noteq> [] \<and>
     (CHR ''#'' \<notin> set flt \<or> (\<exists>p. topic_name p \<and> flt = p @ ''/#''))"

definition delivers :: "topic \<Rightarrow> topic \<Rightarrow> bool" where
  "delivers topic flt \<longleftrightarrow> levels_match flt topic \<and> flt \<noteq> topic @ ''/#''"

lemma plain_filter_calls:
  assumes "topic_name topic" and "plain_filter flt"
  shows "\<exists>k. entry_matches flt topic = Some (if delivers topic flt then [k] else [])"
proof (cases "CHR ''#'' \<in> set flt")
  case False
  then have "flt \<noteq> topic @ ''/#''" by auto
  with False assms show ?thesis
    using single_level_calls [OF assms(1) False] by (auto simp: plain_filter_def delivers_def)
next
  case True
  with assms(2) obtain p where "topic_name p" "flt = p @ ''/#''" by (auto simp: plain_filter_def)
  with multi_level_calls [OF assms(1) this(1)] show ?thesis by (auto simp: delivers_def)
qed

text \<open>What calling a handler makes; the empty \<^verbatim>\<open>std::function\<close> aside, it never throws.\<close>

definition message_calls :: "'h mqtt \<Rightarrow> topic \<Rightarrow> string \<Rightarrow> 'h on_message \<Rightarrow> 'h mqtt_out list" where
  "message_calls s topic msg hndl = (case call_onMessage s hndl topic msg of Inl e \<Rightarrow> [] | Inr outs \<Rightarrow> outs)"

lemma call_onMessage_total:
  "hndl \<noteq> MsgUser None \<Longrightarrow> call_onMessage s hndl topic msg = Inr (message_calls s topic msg hndl)"
  by (auto simp: call_onMessage_def message_calls_def split: on_message.splits option.splits)

lemma dispatch_loop_plain:
  assumes "topic_name topic"
    and "\<forall>it \<in> set its. plain_filter (fst it) \<and> snd it \<noteq> MsgUser None"
  shows "dispatch_loop s topic msg handled its =
    (Inr (), concat (map (message_calls s topic msg \<circ> snd) (filter (delivers topic \<circ> fst) its)),
     handled \<or> (\<exists>it \<in> set its. delivers topic (fst it)))"
  using assms(2)
proof (induction its arbitrary: handled)
  case Nil
  then show ?case by (simp add: returns_def)
next
  case (Cons it its)
  from Cons.prems have "plain_filter (fst it)" by simp
  from plain_filter_calls [OF assms(1) this] obtain k
    where k: "entry_matches (fst it) topic = Some (if delivers topic (fst it) then [k] else [])"
    by blast
  have "call_onMessage s (snd it) topic msg = Inr (message_calls s topic msg (snd it))"
    by (rule call_onMessage_total) (use Cons.prems in simp)
  with k Cons show ?case by (simp add: outcome_simps and_then_def emit_then_def)
qed

section \<open>Subscriptions that are gone\<close>

fun subscribes_to :: "topic \<Rightarrow> 'h mqtt_call \<Rightarrow> bool" where
  "subscribes_to t (Subscribe topic qos onSub onMsg r) = (topic = t)"
| "subscribes_to t (SubscribeLegacy topic qos r) = (topic = t)"
| "subscribes_to t _ = False"

definition no_handler :: "topic \<Rightarrow> 'h mqtt \<Rightarrow> bool" where
  "no_handler t s \<longleftrightarrow> mqtt_inv s \<and> sm_find (m_onMessageHndlMap s) t = None"

lemma step_no_handler:
  "no_handler t s \<Longrightarrow> \<not> subscribes_to t c \<Longrightarrow> no_handler t (state_of (mqtt_step s c))"
proof -
  assume s: "no_handler t s" and c: "\<not> subscribes_to t c"
  from s have "mqtt_inv (state_of (mqtt_step s c))" by (simp add: no_handler_def mqtt_step_inv)
  moreover have "sm_find (m_onMessageHndlMap (state_of (mqtt_step s c))) t = None"
  proof (cases c)
    case (Register slot hndl)
    with s show ?thesis by (cases slot) (simp_all add: no_handler_def outcome_simps)
  qed (use s c in \<open>simp_all add: no_handler_def mqtt_inv_def mqtt_op_simps sm_find_assign
      sm_find_erase split: mqtt_splits\<close>)
  ultimately show ?thesis by (simp add: no_handler_def)
qed

interpretation gone: call_sequence mqtt_step "\<lambda>c. \<not> subscribes_to t c" "no_handler t" for t
  by unfold_locales (rule step_no_handler)

lemma no_handler_silent:
  assumes "no_handler t s"
  shows "it \<in> set (m_onMessageHndlMap s) \<Longrightarrow> fst it \<noteq> t"
proof -
  from assms have "t \<notin> set (sm_keys (m_onMessageHndlMap s))"
    by (simp add: no_handler_def sm_find_None)
  then show "it \<in> set (m_onMessageHndlMap s) \<Longrightarrow> fst it \<noteq> t" by (auto simp: sm_keys_def)
qed

section \<open>One publish among the others\<close>

text \<open>The calls that have to do with the context of a token: the reports of the library about it, and
  a publish the library accepts under it.\<close>

fun concerns_token :: "token \<Rightarrow> 'h mqtt_call \<Rightarrow> bool" where
  "concerns_token t (Publish topic qos msg onSnd onDel r) = (rr_code r = MQTTASYNC_SUCCESS \<and> rr_token r = t)"
| "concerns_token t (PublishPlain topic qos msg r) = (rr_code r = MQTTASYNC_SUCCESS \<and> rr_token r = t)"
| "concerns_token t (CbSend r) = (r = Some t)"
| "concerns_token t (CbSendFailure r) = ((case r of None \<Rightarrow> 0 | Some k \<Rightarrow> k) = t)"
| "concerns_token t _ = False"

definition publish_pending :: "token \<Rightarrow> 'h PublishContext option \<Rightarrow> 'h mqtt \<Rightarrow> bool" where
  "publish_pending t pc s \<longleftrightarrow> mqtt_inv s \<and> sm_find (m_publishContextMap s) t = pc"

lemma step_publish_pending:
  "publish_pending t pc s \<Longrightarrow> \<not> concerns_token t c \<Longrightarrow> publish_pending t pc (state_of (mqtt_step s c))"
proof -
  assume s: "publish_pending t pc s" and c: "\<not> concerns_token t c"
  from s have "mqtt_inv (state_of (mqtt_step s c))" by (simp add: publish_pending_def mqtt_step_inv)
  moreover have "sm_find (m_publishContextMap (state_of (mqtt_step s c))) t = pc"
  proof (cases c)
    case (Register slot hndl)
    with s show ?thesis by (cases slot) (simp_all add: publish_pending_def outcome_simps)
  qed (use s c in \<open>auto simp: publish_pending_def mqtt_inv_def mqtt_op_simps sm_find_assign
      sm_find_erase split: mqtt_splits\<close>)
  ultimately show ?thesis by (simp add: publish_pending_def)
qed

interpretation pending: call_sequence mqtt_step "\<lambda>c. \<not> concerns_token t c" "publish_pending t pc" for t pc
  by unfold_locales (rule step_publish_pending)

lemma pending_reports:
  assumes "publish_pending t pc s" and "r = CbSend (Some t) \<or> r = CbSendFailure (Some t)"
    and "pc = None \<or> pc_onSendHndl (the pc) = SendUser (Some h)"
  shows "outs_of (mqtt_step s r) = (case pc of None \<Rightarrow> []
      | Some p \<Rightarrow> [OnSend h (pc_topic p) (pc_qos p) (r = CbSend (Some t))])"
    and "publish_pending t None (state_of (mqtt_step s r))"
  using assms
  by (auto simp: publish_pending_def mqtt_inv_def mqtt_op_simps sm_find_erase sm_inv_erase split: option.split)

section \<open>The connection flag\<close>

text \<open>The specification of \<^verbatim>\<open>m_connected\<close>: the last event that speaks of the connection.\<close>

fun connection_event :: "'h mqtt_call \<Rightarrow> bool option" where
  "connection_event (Connect isConnected code) = Some False"
| "connection_event (ConnectOn h isConnected code) = Some False"
| "connection_event (ConnectOn2 h f isConnected code) = Some False"
| "connection_event CbConnect = Some True"
| "connection_event CbConnected = Some True"
| "connection_event (CbConnectFailure r) = Some False"
| "connection_event CbConnlost = Some False"
| "connection_event _ = None"

definition connection_update :: "bool \<Rightarrow> 'h mqtt_call \<Rightarrow> bool" where
  "connection_update b c = (case connection_event c of Some v \<Rightarrow> v | None \<Rightarrow> b)"

lemma step_connected: "m_connected (state_of (mqtt_step s c)) = connection_update (m_connected s) c"
proof (cases c)
  case (Register slot hndl)
  then show ?thesis by (cases slot) (simp_all add: connection_update_def outcome_simps)
qed (simp_all add: connection_update_def mqtt_op_simps split: mqtt_splits)

lemma run_connected:
  "m_connected (run_calls mqtt_step s cs) = foldl connection_update (m_connected s) cs"
  by (induction cs arbitrary: s) (simp_all add: step_connected)

section \<open>Properties\<close>

text \<open>
  C2: the buffer of pending publishes is bounded. From a state within the limit, no sequence of
  calls of clients and callbacks of the library that leaves the configuration alone makes
  \<^verbatim>\<open>m_publishContextMap\<close> hold more than one context above \<^verbatim>\<open>m_bufferSize\<close>, read as the
  \<^verbatim>\<open>size_t\<close> the comparison makes of it. (One above: the guard of \<^verbatim>\<open>publish\<close> is
  \<open>>\<close>, so a publish is still registered when the limit is reached.)
\<close>

theorem pending_publishes_bounded:
  assumes "within_limit s" and "list_all (\<lambda>c. \<not> configures c) cs"
  shows "length (m_publishContextMap (run_calls mqtt_step s cs))
    \<le> Suc (to_size_t (m_bufferSize (cfg (run_calls mqtt_step s cs))))"
  using limited.run_keeps [OF assms] by (simp add: within_limit_def publish_limit_def)

theorem pending_publishes_bounded_witness:
  "length (m_publishContextMap (run_calls mqtt_step (mqtt0 :: nat mqtt)
      [Create ''c'' default_ConnectionPars \<lparr>cr_create = 0, cr_handle = Some 1, cr_setConnected = 0, cr_setCallbacks = 0\<rparr>,
       PublishPlain ''t'' 1 ''m'' \<lparr>rr_code = 0, rr_token = 7\<rparr>]))
    \<le> Suc (to_size_t (m_bufferSize (cfg (run_calls mqtt_step (mqtt0 :: nat mqtt)
      [Create ''c'' default_ConnectionPars \<lparr>cr_create = 0, cr_handle = Some 1, cr_setConnected = 0, cr_setCallbacks = 0\<rparr>,
       PublishPlain ''t'' 1 ''m'' \<lparr>rr_code = 0, rr_token = 7\<rparr>]))))"
  by (rule pending_publishes_bounded) (simp_all add: within_limit_def mqtt0_def)

text \<open>
  C3: every accepted publish reports its result at most once. Over any run, the calls of
  \<^verbatim>\<open>onSend\<close> handlers and the contexts still pending at its end together are no more than the
  contexts pending at its start and the publishes the library accepted in between.
\<close>

theorem send_results_balance:
  assumes "mqtt_inv s"
  shows "count_if is_OnSend (run_outs mqtt_step s cs)
      + length (m_publishContextMap (run_calls mqtt_step s cs))
    \<le> length (m_publishContextMap s) + sum_list (map accepted_publish cs)"
  using sends.run_balance [OF assms, of cs] by (simp add: run_total_per_call list_all_iff)

theorem send_results_balance_witness:
  "count_if is_OnSend (run_outs mqtt_step (mqtt0 :: nat mqtt) [CbSend (Some 3), CbSendFailure None])
      + length (m_publishContextMap (run_calls mqtt_step (mqtt0 :: nat mqtt) [CbSend (Some 3), CbSendFailure None]))
    \<le> length (m_publishContextMap (mqtt0 :: nat mqtt))
      + sum_list (map accepted_publish [CbSend (Some 3), CbSendFailure None :: nat mqtt_call])"
  by (rule send_results_balance) (simp add: mqtt_inv_def mqtt0_def)

text \<open>
  Likewise every accepted subscription reports its result at most once, the lambda of the
  obsolete \<^verbatim>\<open>subscribe\<close> included.
\<close>

theorem subscribe_results_balance:
  assumes "mqtt_inv s"
  shows "count_if is_OnSubscribe (run_outs mqtt_step s cs)
      + length (m_subscribeContextMap (run_calls mqtt_step s cs))
    \<le> length (m_subscribeContextMap s) + sum_list (map accepted_subscribe cs)"
  using subs.run_balance [OF assms, of cs] by (simp add: run_total_per_call list_all_iff)

theorem subscribe_results_balance_witness:
  "count_if is_OnSubscribe (run_outs mqtt_step (mqtt0 :: nat mqtt) [CbSubscribe (Some (3, 1))])
      + length (m_subscribeContextMap (run_calls mqtt_step (mqtt0 :: nat mqtt) [CbSubscribe (Some (3, 1))]))
    \<le> length (m_subscribeContextMap (mqtt0 :: nat mqtt))
      + sum_list (map accepted_subscribe [CbSubscribe (Some (3, 1)) :: nat mqtt_call])"
  by (rule subscribe_results_balance) (simp add: mqtt_inv_def mqtt0_def)

text \<open>
  C17: the life of a publish, among whatever else happens. A publish that the library accepts under a
  token that no pending publish has returns after the one call of the library. Let any calls of
  clients and callbacks of the library follow, except reports about this token and publishes accepted
  under it. If there was room (at most \<^verbatim>\<open>m_bufferSize\<close> contexts, read as a \<^verbatim>\<open>size_t\<close>), the report of
  the library, of success or of failure, then calls the handler of the publish, once, with its topic,
  its qos and the result; without room the publish was accepted all the same, and its handler is not
  called. After the report, and again any such calls, a further report calls nobody.
\<close>

theorem publish_lifecycle:
  assumes "mqtt_inv s" and "m_client s \<noteq> None" and "sm_find (m_publishContextMap s) t = None"
    and "list_all (\<lambda>c. \<not> concerns_token t c) cs" and "list_all (\<lambda>c. \<not> concerns_token t c) ds"
    and "r = CbSend (Some t) \<or> r = CbSendFailure (Some t)"
    and "r' = CbSend (Some t) \<or> r' = CbSendFailure (Some t)"
  shows "let p = mqtt_publish topic qos msg (SendUser (Some h)) d \<lparr>rr_code = MQTTASYNC_SUCCESS, rr_token = t\<rparr> s;
      reported = mqtt_step (run_calls mqtt_step (state_of p) cs) r
    in result_of p = Inr () \<and> outs_of p = [PahoSendMessage topic qos msg]
     \<and> outs_of reported = (if length (m_publishContextMap s) \<le> to_size_t (m_bufferSize (cfg s))
         then [OnSend h topic qos (r = CbSend (Some t))] else [])
     \<and> outs_of (mqtt_step (run_calls mqtt_step (state_of reported) ds) r') = []"
proof -
  let ?p = "mqtt_publish topic qos msg (SendUser (Some h)) d \<lparr>rr_code = MQTTASYNC_SUCCESS, rr_token = t\<rparr> s"
  let ?pc = "if length (m_publishContextMap s) \<le> to_size_t (m_bufferSize (cfg s))
    then Some \<lparr>pc_topic = topic, pc_qos = qos, pc_msg = msg, pc_onSendHndl = SendUser (Some h), pc_onDeliveryHndl = d\<rparr>
    else None"
  let ?s1 = "run_calls mqtt_step (state_of ?p) cs"
  let ?s2 = "run_calls mqtt_step (state_of (mqtt_step ?s1 r)) ds"
  have "publish_pending t ?pc (state_of ?p)"
    using assms(1-3) by (auto simp: publish_pending_def mqtt_inv_def mqtt_op_simps sm_find_assign sm_inv_assign)
  from pending.run_keeps [OF this assms(4)] have s1: "publish_pending t ?pc ?s1" .
  note told = pending_reports [OF s1 assms(6), of h]
  have "publish_pending t None ?s2"
    by (rule pending.run_keeps [OF told(2) assms(5)]) simp
  from pending_reports(1) [OF this assms(7), of h] told(1) assms(2) show ?thesis
    by (auto simp: Let_def mqtt_op_simps)
qed

definition client0 :: "nat mqtt" where
  "client0 = mqtt0\<lparr>m_client := Some 1\<rparr>"

lemma client0_simps [simp]:
  "m_client client0 = Some 1" "m_bufferSize (cfg client0) = 1024" "m_publishContextMap client0 = []"
  "m_subscribeContextMap client0 = []" "m_unsubscribeContextMap client0 = []"
  "m_onMessageHndlMap client0 = []"
  by (simp_all add: client0_def mqtt0_def mqtt_config0_def)

theorem publish_lifecycle_witness:
  "let s = state_of (mqtt_publish ''t'' 1 ''m'' (SendUser (Some 5)) DeliveryLog
      \<lparr>rr_code = MQTTASYNC_SUCCESS, rr_token = 7\<rparr> client0);
    u = run_calls mqtt_step s [PublishPlain ''u'' 0 ''n'' \<lparr>rr_code = 0, rr_token = 8\<rparr>, CbSend (Some 8), CbConnlost]
   in outs_of (mqtt_step u (CbSendFailure (Some 7))) = [OnSend 5 ''t'' 1 False]"
proof -
  have "mqtt_inv client0" by (simp add: mqtt_inv_def client0_def mqtt0_def)
  from publish_lifecycle [OF this, of 7
      "[PublishPlain ''u'' 0 ''n'' \<lparr>rr_code = 0, rr_token = 8\<rparr>, CbSend (Some 8), CbConnlost]" "[]"
      "CbSendFailure (Some 7)" "CbSend (Some 7)" "''t''" 1 "''m''" 5 DeliveryLog]
  show ?thesis by (simp add: to_size_t_def Let_def)
qed

text \<open>
  A message is delivered to exactly the handlers it is meant for. For a published topic
  name and subscriptions with filters whose meaning the tests implement, \<^verbatim>\<open>msgarrvd\<close> calls,
  in the order of the filters and once each, the handlers of the filters that match by the rule
  of the standard, except \<^verbatim>\<open>p/#\<close> for the topic \<^verbatim>\<open>p\<close> itself; when no filter does, the one
  output is the warning. The state stays as it is.
\<close>

theorem message_dispatch:
  assumes "topic_name topic" and "topic \<noteq> []"
    and "\<forall>it \<in> set (m_onMessageHndlMap s). plain_filter (fst it) \<and> snd it \<noteq> MsgUser None"
  shows "mqtt_msgarrvd topic (int (length topic)) msg s =
    (let its = filter (delivers topic \<circ> fst) (m_onMessageHndlMap s) in
     (Inr (), if its = [] then [NoHandlerFor topic]
              else concat (map (message_calls s topic msg \<circ> snd) its), s))"
  using assms
  by (auto simp: mqtt_msgarrvd_def arrived_topic_def dispatch_loop_plain Let_def filter_empty_conv)

theorem message_dispatch_witness:
  "mqtt_msgarrvd ''a/b'' 3 ''m'' (client0\<lparr>m_onMessageHndlMap :=
      [(''a/#'', MsgUser (Some 1)), (''a/+'', MsgUser (Some 2)), (''c'', MsgUser (Some 3))]\<rparr>) =
    (Inr (), [OnMessage 1 ''a/b'' ''m'', OnMessage 2 ''a/b'' ''m''],
     client0\<lparr>m_onMessageHndlMap :=
      [(''a/#'', MsgUser (Some 1)), (''a/+'', MsgUser (Some 2)), (''c'', MsgUser (Some 3))]\<rparr>)"
proof -
  let ?s = "client0\<lparr>m_onMessageHndlMap :=
      [(''a/#'', MsgUser (Some 1)), (''a/+'', MsgUser (Some 2)), (''c'', MsgUser (Some 3))]\<rparr>"
  have "plain_filter ''a/#''"
    unfolding plain_filter_def by (rule conjI, simp, rule disjI2, rule exI [of _ "''a''"])
      (simp add: topic_name_def)
  then have "\<forall>it \<in> set (m_onMessageHndlMap ?s). plain_filter (fst it) \<and> snd it \<noteq> MsgUser None"
    by (simp add: plain_filter_def)
  from message_dispatch [OF _ _ this, of "''a/b''" "''m''"] show ?thesis
    by (simp add: topic_name_def delivers_def levels_match_def message_calls_def call_onMessage_def)
qed

text \<open>
  An unsubscribed topic is silent at once. After an \<^verbatim>\<open>unsubscribe\<close> the library accepted,
  and whatever calls and callbacks follow, a failure of the unsubscription included, no entry
  for the topic is among the subscriptions messages are dispatched to, until the topic is
  subscribed again.
\<close>

theorem unsubscribe_silences:
  assumes "mqtt_inv s" and "m_client s \<noteq> None" and "rr_code r = MQTTASYNC_SUCCESS"
    and "list_all (\<lambda>c. \<not> subscribes_to topic c) cs"
  shows "topic \<notin> fst ` set (m_onMessageHndlMap
     (run_calls mqtt_step (state_of (mqtt_unsubscribe topic h r s)) cs))"
proof -
  have "mqtt_inv (state_of (mqtt_step s (Unsubscribe topic h r)))"
    using assms(1) by (rule mqtt_step_inv)
  then have "no_handler topic (state_of (mqtt_unsubscribe topic h r s))"
    using assms(1-3)
    by (cases "m_client s") (simp_all add: no_handler_def mqtt_unsubscribe_def outcome_simps sm_find_erase)
  from gone.run_keeps [OF this assms(4)] show ?thesis
    using no_handler_silent by blast
qed

theorem unsubscribe_silences_witness:
  "''t'' \<notin> fst ` set (m_onMessageHndlMap (run_calls mqtt_step
     (state_of (mqtt_unsubscribe ''t'' (Some 4) \<lparr>rr_code = 0, rr_token = 9\<rparr>
       (client0\<lparr>m_onMessageHndlMap := [(''t'', MsgUser (Some 2))]\<rparr>)))
     [CbUnsubscribeFailure (Some 9), CbConnected]))"
  by (rule unsubscribe_silences) (simp_all add: mqtt_inv_def sm_inv_Cons)

text \<open>
  The result of a subscription is lost when the library's callback overtakes the
  registration. Between the two halves of \<^verbatim>\<open>subscribe\<close> the success callback of the fresh token
  calls nobody, and the registration then leaves a context that waits for it; run after the
  registration, the same callback calls the handler.
\<close>

theorem subscribe_overtaken:
  assumes "mqtt_inv s" and "m_client s \<noteq> None" and "sm_find (m_subscribeContextMap s) t = None"
  shows "let s1 = state_of (subscribe_request topic qos MQTTASYNC_SUCCESS s);
        registered = subscribe_register t topic qos (SubUser (Some h)) onMessage in
    mqtt_onSubscribe (Some (t, q)) s1 = (Inr (), [], s1)
    \<and> sm_find (m_subscribeContextMap (registered s1)) t =
        Some \<lparr>sc_topic = topic, sc_qos = qos, sc_onSubscribeHndl = SubUser (Some h)\<rparr>
    \<and> outs_of (mqtt_onSubscribe (Some (t, q)) (registered s1)) = [OnSubscribe h topic q True]"
  using assms
  by (simp add: mqtt_op_simps mqtt_inv_def sm_find_assign returns_def emits_def emit_then_def and_then_def)

theorem subscribe_overtaken_witness:
  "mqtt_onSubscribe (Some (3, 1)) (state_of (subscribe_request ''t'' 1 MQTTASYNC_SUCCESS client0))
    = (Inr (), [], state_of (subscribe_request ''t'' 1 MQTTASYNC_SUCCESS client0))"
  using subscribe_overtaken [of client0 3 "''t''" 1 5 "MsgUser (Some 6)" 1]
  by (simp add: mqtt_inv_def Let_def)

text \<open>
  The obsolete \<^verbatim>\<open>subscribe\<close> reports success for a failure. When the broker rejects such a
  subscription, the registered handler is told \<^verbatim>\<open>true\<close>, as when it accepts.
\<close>

theorem legacy_subscribe_reports_success:
  assumes "mqtt_inv s" and "m_client s \<noteq> None" and "m_mqttOnSubscribeHandlerFunc s = Some h"
    and "rr_code r = MQTTASYNC_SUCCESS"
  shows "let s1 = state_of (mqtt_subscribe_legacy topic qos r s) in
    outs_of (mqtt_onSubscribeFailure (Some (rr_token r)) s1) = [LegacyOnSubscribe h topic True]
    \<and> outs_of (mqtt_onSubscribe (Some (rr_token r, q)) s1) = [LegacyOnSubscribe h topic True]"
  using assms by (cases "m_client s") (simp_all add: mqtt_op_simps mqtt_inv_def sm_find_assign)

theorem legacy_subscribe_reports_success_witness:
  "outs_of (mqtt_onSubscribeFailure (Some 3) (state_of (mqtt_subscribe_legacy ''t'' 0
     \<lparr>rr_code = 0, rr_token = 3\<rparr> (client0\<lparr>m_mqttOnSubscribeHandlerFunc := Some 8\<rparr>))))
   = [LegacyOnSubscribe 8 ''t'' True]"
  using legacy_subscribe_reports_success
    [of "client0\<lparr>m_mqttOnSubscribeHandlerFunc := Some 8\<rparr>" 8 "\<lparr>rr_code = 0, rr_token = 3\<rparr>" "''t''" 0 0]
  by (simp add: mqtt_inv_def Let_def)

text \<open>
  One client at a time. While a client exists \<^verbatim>\<open>create\<close> throws and touches nothing, neither
  the library nor the state; once \<^verbatim>\<open>destroy\<close> has cleared the handle, as the library documents
  it, a client can be created again.
\<close>

theorem create_guard:
  assumes "m_client s \<noteq> None" and "left = None"
    and "cr_create r = 0" and "cr_setConnected r = 0" and "cr_setCallbacks r = 0"
  shows "let s1 = state_of (mqtt_destroy clientId d left s) in
    mqtt_create clientId cp r s = (Inl AlreadyCreated, [], s)
    \<and> result_of (mqtt_create clientId cp r s1) = Inr ()
    \<and> m_client (state_of (mqtt_create clientId cp r s1)) = cr_handle r"
  using assms
  by (cases d) (auto simp: mqtt_op_simps throws_def returns_def split: option.splits)

theorem create_guard_witness:
  "mqtt_create ''x'' default_ConnectionPars \<lparr>cr_create = 0, cr_handle = Some 2, cr_setConnected = 0,
     cr_setCallbacks = 0\<rparr> client0 = (Inl AlreadyCreated, [], client0)"
  using create_guard [of client0 None "\<lparr>cr_create = 0, cr_handle = Some 2, cr_setConnected = 0,
     cr_setCallbacks = 0\<rparr>" "''x''" NoAnswer default_ConnectionPars]
  by (simp add: Let_def)

text \<open>
  The connection flag follows the events. After any run \<^verbatim>\<open>m_connected\<close> is what the last
  call or callback that speaks of the connection says: false from a \<^verbatim>\<open>connect\<close>, a failure or a
  loss on, true from a success on. (A \<^verbatim>\<open>disconnect\<close> is not among them: it leaves the flag.)
\<close>

theorem connection_flag:
  "m_connected (run_calls mqtt_step s cs) = foldl connection_update (m_connected s) cs"
  by (rule run_connected)

text \<open>
  \<^verbatim>\<open>disconnect\<close> never throws and always starts from a fresh promise; the registered handler
  is called exactly when the success callback arrives while it waits; a second callback for the
  same promise throws, and one without any \<^verbatim>\<open>disconnect\<close> dereferences a null pointer.
\<close>

theorem disconnect_outcomes:
  "result_of (mqtt_disconnect d s) = Inr ()
   \<and> outs_of (mqtt_disconnect d s) = PahoDisconnect (m_client s) #
       (case (d, m_mqttOnDisconnectHandlerFunc s) of
          (DisconnectSucceeded, Some h) \<Rightarrow> [OnDisconnect h] | _ \<Rightarrow> [])
   \<and> m_disconnect_promise (state_of (mqtt_disconnect d s)) =
       Some (case d of NoAnswer \<Rightarrow> Unsatisfied | DisconnectSucceeded \<Rightarrow> Satisfied True
                     | DisconnectFailed \<Rightarrow> Satisfied False)
   \<and> mqtt_onDisconnect (s\<lparr>m_disconnect_promise := Some (Satisfied b)\<rparr>) =
       (Inl PromiseAlreadySatisfied, [], s\<lparr>m_disconnect_promise := Some (Satisfied b)\<rparr>)
   \<and> mqtt_onDisconnect (s\<lparr>m_disconnect_promise := None\<rparr>) =
       (Inl NullPointer, [], s\<lparr>m_disconnect_promise := None\<rparr>)"
  by (cases d)
     (simp_all add: mqtt_op_simps throws_def and_then_def split: option.split)

text \<open>
  An empty handler costs the context its end. A send callback whose handler is an empty
  \<^verbatim>\<open>std::function\<close> throws out of the library's thread before the context is erased, so the
  context stays and the next callback of the token throws again.
\<close>

theorem empty_send_handler_throws:
  assumes "sm_find (m_publishContextMap s) t = Some pc" and "pc_onSendHndl pc = SendUser None"
  shows "mqtt_onSend (Some t) s = (Inl BadFunctionCall, [], s)
    \<and> mqtt_onSendFailure (Some t) s = (Inl BadFunctionCall, [], s)"
  using assms by (simp add: mqtt_op_simps and_then_def throws_def)

theorem empty_send_handler_throws_witness:
  "let s = client0\<lparr>m_publishContextMap := [(3, \<lparr>pc_topic = ''t'', pc_qos = 1, pc_msg = ''m'',
       pc_onSendHndl = SendUser None, pc_onDeliveryHndl = DeliveryLog\<rparr>)]\<rparr>
   in mqtt_onSend (Some 3) s = (Inl BadFunctionCall, [], s)"
  using empty_send_handler_throws [of "client0\<lparr>m_publishContextMap := [(3, \<lparr>pc_topic = ''t'',
      pc_qos = 1, pc_msg = ''m'', pc_onSendHndl = SendUser None, pc_onDeliveryHndl = DeliveryLog\<rparr>)]\<rparr>" 3]
  by (simp add: Let_def)

section \<open>Configuration\<close>

lemma put_cert_paths_sel [simp]:
  "m_keyStore (put_cert_paths d c) = cert_path d (m_keyStore c)"
  "m_trustStore (put_cert_paths d c) = cert_path d (m_trustStore c)"
  "m_privateKey (put_cert_paths d c) = cert_path d (m_privateKey c)"
  by (simp_all add: put_cert_paths_def)

text \<open>
  \<^verbatim>\<open>modify\<close> with complete properties is idempotent. When the properties name the three
  certificate files, modifying twice leaves the configuration of modifying once, with the files
  under \<^verbatim>\<open>/cert/\<close> of the data directory.
\<close>

theorem modify_idempotent:
  assumes "m_iLaunchService s = Some ls"
    and "getMemberAsString props ''TrustStore'' = Some ts"
    and "getMemberAsString props ''KeyStore'' = Some ks"
    and "getMemberAsString props ''PrivateKey'' = Some pk"
  shows "let s1 = state_of (mqtt_modify props s) in
    mqtt_modify props s1 = (Inr (), [], s1)
    \<and> m_keyStore (cfg s1) = cert_path (ls_dataDir ls) ks
    \<and> m_trustStore (cfg s1) = cert_path (ls_dataDir ls) ts
    \<and> m_privateKey (cfg s1) = cert_path (ls_dataDir ls) pk"
  using assms
  by (simp add: mqtt_modify_def Let_def outcome_simps returns_def read_limits_def read_connection_def
      put_cert_paths_def)

definition props0 :: properties where
  "props0 = \<lparr>getMemberAsString = (\<lambda>n. if n \<in> {''TrustStore'', ''KeyStore'', ''PrivateKey''}
       then Some (CHR ''x'' # n) else None),
     getMemberAsInt = (\<lambda>n. None), getMemberAsBool = (\<lambda>n. None)\<rparr>"

theorem modify_idempotent_witness:
  "m_keyStore (cfg (state_of (mqtt_modify props0
     (client0\<lparr>m_iLaunchService := Some \<lparr>ls_id = 0, ls_dataDir = ''d''\<rparr>\<rparr>)))) = ''d/cert/xKeyStore''"
  using modify_idempotent [of "client0\<lparr>m_iLaunchService := Some \<lparr>ls_id = 0, ls_dataDir = ''d''\<rparr>\<rparr>"
      "\<lparr>ls_id = 0, ls_dataDir = ''d''\<rparr>" props0 "''xTrustStore''" "''xKeyStore''" "''xPrivateKey''"]
  by (simp add: props0_def Let_def cert_path_def)

text \<open>
  \<^verbatim>\<open>modify\<close> with properties that leave a certificate file out puts the directory in front of
  the path once more, so each such call moves the path away from the file.
\<close>

theorem modify_prefixes_again:
  assumes "m_iLaunchService s = Some ls" and "m_keyStore (cfg s) \<noteq> []"
    and "getMemberAsString props ''KeyStore'' = None"
  shows "m_keyStore (cfg (state_of (mqtt_modify props s))) = ls_dataDir ls @ ''/cert/'' @ m_keyStore (cfg s)
    \<and> m_keyStore (cfg (state_of (mqtt_modify props s))) \<noteq> m_keyStore (cfg s)"
  using assms
  by (simp add: mqtt_modify_def Let_def outcome_simps read_limits_def read_connection_def cert_path_def)

theorem modify_prefixes_again_witness:
  "let s = client0\<lparr>m_iLaunchService := Some \<lparr>ls_id = 0, ls_dataDir = ''d''\<rparr>,
        cfg := mqtt_config0\<lparr>m_keyStore := ''d/cert/k''\<rparr>\<rparr>
   in m_keyStore (cfg (state_of (mqtt_modify (props0\<lparr>getMemberAsString := \<lambda>n. None\<rparr>) s)))
        = ''d/cert/d/cert/k''"
  using modify_prefixes_again [of "client0\<lparr>m_iLaunchService := Some \<lparr>ls_id = 0, ls_dataDir = ''d''\<rparr>,
        cfg := mqtt_config0\<lparr>m_keyStore := ''d/cert/k''\<rparr>\<rparr>" "\<lparr>ls_id = 0, ls_dataDir = ''d''\<rparr>"
        "props0\<lparr>getMemberAsString := \<lambda>n. None\<rparr>"]
  by (simp add: Let_def)

end
