(* ===== verification/Task_Queue.thy ===== *)
theory Task_Queue
  imports Step_Systems
begin

text \<open>
  \<^verbatim>\<open>TaskQueue\<close> of \<^verbatim>\<open>src/MqMessageService/TaskQueue.h\<close>: a queue that clients of any number
  of threads push to and one worker thread empties. The statements of the worker and of the
  client operations are the program points of the threads, a step of the system is a step of
  one thread, a spurious wake-up of the worker or the start of a client operation, and the
  mutex and the condition variable are part of the state.

  Plain variables are read and written as if they were atomic: \<^verbatim>\<open>m_runWorkerThread\<close> is read by
  the loop conditions of \<^verbatim>\<open>worker\<close> without the mutex.
\<close>

section \<open>State\<close>

datatype thread = Worker | Client nat

text \<open>The operations of clients; the destructor is \<^verbatim>\<open>stopQueue\<close> followed by a join.\<close>

datatype 'a tq_call = PushToQueue 'a | StopQueue | Size | Destroy

text \<open>
  Program points of \<^verbatim>\<open>worker\<close>: the outer condition (without and with the mutex), the lock,
  the wait with the mutex held, asleep in the condition variable, woken and waiting for the
  mutex, the inner condition, the call of the processing function, the lock at the end of the
  inner loop, the end of the thread, and the exception of a second \<^verbatim>\<open>lock\<close> of a held lock.
\<close>

datatype 'a worker_pc =
    W_Test | W_TestHeld | W_Lock | W_Wait | W_Asleep | W_Woken | W_Inner | W_Process 'a | W_Relock
  | W_Done | W_Crashed

text \<open>Program points of a client: outside (with the last value returned), then along a call.\<close>

datatype 'a client_pc =
    C_Outside "nat option" | C_Lock "'a tq_call" | C_Body "'a tq_call" | C_Unlock "'a tq_call" nat
  | C_Notify "'a tq_call" nat | C_Join

record 'a task_queue =
  m_taskQueueMutex :: "thread option"
  m_taskQueue :: "'a list"
  m_taskPushed :: bool
  m_runWorkerThread :: bool
  m_workerThread :: "'a worker_pc"
  clients :: "nat \<Rightarrow> 'a client_pc"
  tasks_pushed :: "'a list"
  tasks_processed :: "'a list"

text \<open>
  The constructor. The last two fields are a record of the past for the proofs: the tasks
  pushed and the tasks handed to the processing function, in order.
\<close>

definition task_queue0 :: "'a task_queue" where
  "task_queue0 = \<lparr>m_taskQueueMutex = None, m_taskQueue = [], m_taskPushed = False,
     m_runWorkerThread = True, m_workerThread = W_Test, clients = (\<lambda>_. C_Outside None),
     tasks_pushed = [], tasks_processed = []\<rparr>"

section \<open>Threads\<close>

text \<open>\<open>None\<close>: the thread is blocked, asleep or at its end.\<close>

definition worker_step :: "'a task_queue \<Rightarrow> 'a task_queue option" where
  "worker_step s = (case m_workerThread s of
       W_Test \<Rightarrow> Some (s\<lparr>m_workerThread := if m_runWorkerThread s then W_Lock else W_Done\<rparr>)
     | W_TestHeld \<Rightarrow> Some (if m_runWorkerThread s then s\<lparr>m_workerThread := W_Crashed\<rparr>
         else s\<lparr>m_workerThread := W_Done, m_taskQueueMutex := None\<rparr>)
     | W_Lock \<Rightarrow> (if m_taskQueueMutex s = None
         then Some (s\<lparr>m_workerThread := W_Wait, m_taskQueueMutex := Some Worker\<rparr>) else None)
     | W_Wait \<Rightarrow> Some (if m_taskPushed s then s\<lparr>m_workerThread := W_Inner, m_taskPushed := False\<rparr>
         else s\<lparr>m_workerThread := W_Asleep, m_taskQueueMutex := None\<rparr>)
     | W_Asleep \<Rightarrow> None
     | W_Woken \<Rightarrow> (if m_taskQueueMutex s = None
         then Some (s\<lparr>m_workerThread := W_Wait, m_taskQueueMutex := Some Worker\<rparr>) else None)
     | W_Inner \<Rightarrow> Some (if m_runWorkerThread s then
           (case m_taskQueue s of
              task # rest \<Rightarrow> s\<lparr>m_workerThread := W_Process task, m_taskQueue := rest, m_taskQueueMutex := None\<rparr>
            | [] \<Rightarrow> s\<lparr>m_workerThread := W_Test, m_taskQueueMutex := None\<rparr>)
         else s\<lparr>m_workerThread := W_TestHeld\<rparr>)
     | W_Process task \<Rightarrow>
         Some (s\<lparr>m_workerThread := W_Relock, tasks_processed := tasks_processed s @ [task]\<rparr>)
     | W_Relock \<Rightarrow> (if m_taskQueueMutex s = None
         then Some (s\<lparr>m_workerThread := W_Inner, m_taskQueueMutex := Some Worker\<rparr>) else None)
     | W_Done \<Rightarrow> None
     | W_Crashed \<Rightarrow> None)"

text \<open>The guarded part of an operation, with the value it returns.\<close>

fun client_body :: "'a tq_call \<Rightarrow> 'a task_queue \<Rightarrow> nat \<times> 'a task_queue" where
  "client_body (PushToQueue task) s = (Suc (length (m_taskQueue s)),
     s\<lparr>m_taskQueue := m_taskQueue s @ [task], m_taskPushed := True,
       tasks_pushed := tasks_pushed s @ [task]\<rparr>)"
| "client_body StopQueue s = (0, s\<lparr>m_runWorkerThread := False, m_taskPushed := True\<rparr>)"
| "client_body Size s = (length (m_taskQueue s), s)"
| "client_body Destroy s = (0, s\<lparr>m_runWorkerThread := False, m_taskPushed := True\<rparr>)"

definition at_client :: "nat \<Rightarrow> 'a client_pc \<Rightarrow> 'a task_queue \<Rightarrow> 'a task_queue" where
  "at_client c pc s = s\<lparr>clients := (clients s)(c := pc)\<rparr>"

definition notify_all :: "'a task_queue \<Rightarrow> 'a task_queue" where
  "notify_all s = (if m_workerThread s = W_Asleep then s\<lparr>m_workerThread := W_Woken\<rparr> else s)"

definition client_step :: "nat \<Rightarrow> 'a task_queue \<Rightarrow> 'a task_queue option" where
  "client_step c s = (case clients s c of
       C_Outside r \<Rightarrow> None
     | C_Lock call \<Rightarrow> (if m_taskQueueMutex s = None
         then Some (at_client c (C_Body call) (s\<lparr>m_taskQueueMutex := Some (Client c)\<rparr>)) else None)
     | C_Body call \<Rightarrow> (let (r, t) = client_body call s in Some (at_client c (C_Unlock call r) t))
     | C_Unlock call r \<Rightarrow> Some (at_client c (if call = Size then C_Outside (Some r) else C_Notify call r)
         (s\<lparr>m_taskQueueMutex := None\<rparr>))
     | C_Notify call r \<Rightarrow>
         Some (at_client c (if call = Destroy then C_Join else C_Outside (Some r)) (notify_all s))
     | C_Join \<Rightarrow> (if m_workerThread s = W_Done then Some (at_client c (C_Outside None) s) else None))"

datatype 'a tq_action = WorkerRuns | SpuriousWakeup | ClientCalls nat "'a tq_call" | ClientRuns nat

fun tq_act :: "'a tq_action \<Rightarrow> 'a task_queue \<Rightarrow> 'a task_queue option" where
  "tq_act WorkerRuns s = worker_step s"
| "tq_act SpuriousWakeup s =
     (if m_workerThread s = W_Asleep then Some (s\<lparr>m_workerThread := W_Woken\<rparr>) else None)"
| "tq_act (ClientCalls c call) s =
     (case clients s c of C_Outside r \<Rightarrow> Some (at_client c (C_Lock call) s) | _ \<Rightarrow> None)"
| "tq_act (ClientRuns c) s = client_step c s"

inductive tq_step :: "'a task_queue \<Rightarrow> 'a task_queue \<Rightarrow> bool" where
  tq_act_step: "tq_act a s = Some t \<Longrightarrow> tq_step s t"

inductive_cases tq_stepE: "tq_step s t"

text \<open>A schedule; actions of threads that cannot move are skipped.\<close>

fun tq_schedule :: "'a tq_action list \<Rightarrow> 'a task_queue \<Rightarrow> 'a task_queue" where
  "tq_schedule [] s = s"
| "tq_schedule (a # as) s = tq_schedule as (case tq_act a s of Some t \<Rightarrow> t | None \<Rightarrow> s)"

lemma tq_schedule_reaches: "reaches tq_step r s \<Longrightarrow> reaches tq_step r (tq_schedule as s)"
proof (induction as arbitrary: s)
  case (Cons a as)
  have "reaches tq_step r (case tq_act a s of Some t \<Rightarrow> t | None \<Rightarrow> s)"
    using Cons.prems by (auto intro: reaches_step tq_act_step split: option.split)
  with Cons.IH show ?case by simp
qed simp

lemma tq_schedule_append: "tq_schedule (as @ bs) s = tq_schedule bs (tq_schedule as s)"
  by (induction as arbitrary: s) auto

section \<open>Invariant\<close>

definition worker_holds :: "'a worker_pc \<Rightarrow> bool" where
  "worker_holds pc \<longleftrightarrow> pc \<in> {W_Wait, W_Inner, W_TestHeld}"

fun client_holds :: "'a client_pc \<Rightarrow> bool" where
  "client_holds (C_Body call) = True"
| "client_holds (C_Unlock call r) = True"
| "client_holds _ = False"

text \<open>The client will still notify.\<close>

fun will_notify :: "'a client_pc \<Rightarrow> bool" where
  "will_notify (C_Unlock call r) = (call \<noteq> Size)"
| "will_notify (C_Notify call r) = True"
| "will_notify _ = False"

fun in_hand :: "'a worker_pc \<Rightarrow> 'a list" where
  "in_hand (W_Process task) = [task]"
| "in_hand _ = []"

definition draining :: "'a worker_pc \<Rightarrow> bool" where
  "draining pc \<longleftrightarrow> pc = W_Inner \<or> pc = W_Relock \<or> in_hand pc \<noteq> []"

definition waiting :: "'a worker_pc \<Rightarrow> bool" where
  "waiting pc \<longleftrightarrow> pc \<in> {W_Lock, W_Wait, W_Asleep, W_Woken}"

definition notifier :: "'a task_queue \<Rightarrow> bool" where
  "notifier s \<longleftrightarrow> (\<exists>c. will_notify (clients s c))"

text \<open>The mutex belongs to who is inside, so at most one thread is.\<close>

definition mutex_inv :: "'a task_queue \<Rightarrow> bool" where
  "mutex_inv s \<longleftrightarrow> (m_taskQueueMutex s = Some Worker \<longleftrightarrow> worker_holds (m_workerThread s))
     \<and> (\<forall>c. m_taskQueueMutex s = Some (Client c) \<longleftrightarrow> client_holds (clients s c))"

text \<open>The order of tasks, and where the worker is when there is work or a stop request.\<close>

definition work_inv :: "'a task_queue \<Rightarrow> bool" where
  "work_inv s \<longleftrightarrow>
     tasks_pushed s = tasks_processed s @ in_hand (m_workerThread s) @ m_taskQueue s
   \<and> (m_taskQueue s \<noteq> [] \<longrightarrow> m_taskPushed s \<or> draining (m_workerThread s) \<or> \<not> m_runWorkerThread s)
   \<and> (\<not> m_runWorkerThread s \<longrightarrow> waiting (m_workerThread s) \<longrightarrow> m_taskPushed s)
   \<and> (m_workerThread s = W_TestHeld \<or> m_workerThread s = W_Done \<longrightarrow> \<not> m_runWorkerThread s)
   \<and> m_workerThread s \<noteq> W_Crashed"

text \<open>A worker asleep with its flag set is about to be woken.\<close>

definition wake_inv :: "'a task_queue \<Rightarrow> bool" where
  "wake_inv s \<longleftrightarrow> (m_workerThread s = W_Asleep \<and> m_taskPushed s \<longrightarrow> notifier s)"

definition tq_inv :: "'a task_queue \<Rightarrow> bool" where
  "tq_inv s \<longleftrightarrow> mutex_inv s \<and> work_inv s \<and> wake_inv s"

lemmas tq_pc_defs = worker_holds_def draining_def waiting_def

lemmas tq_inv_defs = tq_inv_def mutex_inv_def work_inv_def wake_inv_def

lemma tq_inv_start: "tq_inv task_queue0"
  by (simp add: tq_inv_defs task_queue0_def tq_pc_defs)

lemma at_client_sel [simp]:
  "m_taskQueueMutex (at_client c pc s) = m_taskQueueMutex s"
  "m_taskQueue (at_client c pc s) = m_taskQueue s"
  "m_taskPushed (at_client c pc s) = m_taskPushed s"
  "m_runWorkerThread (at_client c pc s) = m_runWorkerThread s"
  "m_workerThread (at_client c pc s) = m_workerThread s"
  "tasks_pushed (at_client c pc s) = tasks_pushed s"
  "tasks_processed (at_client c pc s) = tasks_processed s"
  "clients (at_client c pc s) = (clients s)(c := pc)"
  by (simp_all add: at_client_def)

lemma notify_all_sel [simp]:
  "m_taskQueueMutex (notify_all s) = m_taskQueueMutex s"
  "m_taskQueue (notify_all s) = m_taskQueue s"
  "m_taskPushed (notify_all s) = m_taskPushed s"
  "m_runWorkerThread (notify_all s) = m_runWorkerThread s"
  "m_workerThread (notify_all s) = (if m_workerThread s = W_Asleep then W_Woken else m_workerThread s)"
  "tasks_pushed (notify_all s) = tasks_pushed s"
  "tasks_processed (notify_all s) = tasks_processed s"
  "clients (notify_all s) = clients s"
  by (simp_all add: notify_all_def)

lemma notifier_new: "will_notify pc \<Longrightarrow> clients t = (clients s)(c := pc) \<Longrightarrow> notifier t"
  by (auto simp: notifier_def)

lemma notifier_kept:
  "notifier s \<Longrightarrow> \<not> will_notify (clients s c) \<Longrightarrow> clients t = (clients s)(c := pc) \<Longrightarrow> notifier t"
  by (auto simp: notifier_def)

lemma mutex_inv_worker: "mutex_inv s \<Longrightarrow> work_inv s \<Longrightarrow> worker_step s = Some t \<Longrightarrow> mutex_inv t"
  by (auto simp: mutex_inv_def work_inv_def worker_step_def tq_pc_defs
      split: worker_pc.splits if_splits list.splits)

lemma work_inv_worker: "work_inv s \<Longrightarrow> worker_step s = Some t \<Longrightarrow> work_inv t"
  by (auto simp: work_inv_def worker_step_def tq_pc_defs split: worker_pc.splits if_splits list.splits)

lemma wake_inv_worker: "worker_step s = Some t \<Longrightarrow> wake_inv t"
  by (auto simp: wake_inv_def worker_step_def split: worker_pc.splits if_splits list.splits)

lemma tq_inv_spurious:
  "tq_inv s \<Longrightarrow> m_workerThread s = W_Asleep \<Longrightarrow> tq_inv (s\<lparr>m_workerThread := W_Woken\<rparr>)"
  by (simp add: tq_inv_defs tq_pc_defs)

lemma tq_inv_call:
  assumes "tq_inv s" and "clients s c = C_Outside r"
  shows "tq_inv (at_client c (C_Lock call) s)"
proof -
  have "wake_inv (at_client c (C_Lock call) s)"
    using assms notifier_kept [of s c "at_client c (C_Lock call) s"]
    by (simp add: tq_inv_def wake_inv_def)
  with assms show ?thesis by (simp add: tq_inv_def mutex_inv_def work_inv_def)
qed

lemma client_body_frame:
  "client_body call s = (r, t) \<Longrightarrow> m_workerThread t = m_workerThread s \<and> clients t = clients s
     \<and> m_taskQueueMutex t = m_taskQueueMutex s \<and> (call = Size \<longrightarrow> t = s)
     \<and> (call \<noteq> Size \<longrightarrow> m_taskPushed t)"
  by (cases call) auto

lemma work_inv_frame [simp]:
  "work_inv (at_client c pc s) = work_inv s" "work_inv (s\<lparr>m_taskQueueMutex := m\<rparr>) = work_inv s"
  by (simp_all add: work_inv_def)

lemma work_inv_notify: "work_inv s \<Longrightarrow> work_inv (notify_all s)"
  by (cases "m_workerThread s") (simp_all add: work_inv_def tq_pc_defs)

lemma client_body_work:
  assumes "work_inv s" shows "work_inv (snd (client_body call s))"
proof (cases call)
  case (PushToQueue task)
  with assms show ?thesis by (simp add: work_inv_def)
qed (use assms in \<open>simp_all add: work_inv_def\<close>)

lemma mutex_inv_held:
  assumes "mutex_inv s" and "client_holds (clients s c)"
  shows "m_taskQueueMutex s = Some (Client c)" and "\<not> worker_holds (m_workerThread s)"
    and "client_holds (clients s c') \<longleftrightarrow> c' = c"
proof -
  from assms show owner: "m_taskQueueMutex s = Some (Client c)" by (simp add: mutex_inv_def)
  with assms show "\<not> worker_holds (m_workerThread s)" by (simp add: mutex_inv_def)
  from assms(1) have "client_holds (clients s c') \<longleftrightarrow> m_taskQueueMutex s = Some (Client c')"
    by (simp add: mutex_inv_def)
  with owner show "client_holds (clients s c') \<longleftrightarrow> c' = c" by auto
qed

lemma mutex_inv_free:
  assumes "mutex_inv s" and "m_taskQueueMutex s = None"
  shows "\<not> worker_holds (m_workerThread s)" and "\<not> client_holds (clients s c)"
  using assms by (auto simp: mutex_inv_def)

lemma mutex_inv_client:
  assumes "mutex_inv s" and "client_step c s = Some t"
  shows "mutex_inv t"
proof (cases "clients s c")
  case (C_Body call)
  with assms(2) obtain r b where b: "client_body call s = (r, b)" "t = at_client c (C_Unlock call r) b"
    by (auto simp: client_step_def split: prod.splits)
  from assms(1) C_Body client_body_frame [OF b(1)] show ?thesis by (simp add: mutex_inv_def b(2))
next
  case (C_Lock call)
  with assms(2) have free: "m_taskQueueMutex s = None"
    and t: "t = at_client c (C_Body call) (s\<lparr>m_taskQueueMutex := Some (Client c)\<rparr>)"
    by (auto simp: client_step_def split: if_splits)
  from mutex_inv_free [OF assms(1) free] show ?thesis by (simp add: mutex_inv_def t)
next
  case (C_Unlock call r)
  then have "client_holds (clients s c)" by simp
  from mutex_inv_held [OF assms(1) this] C_Unlock assms(2) show ?thesis
    by (simp add: mutex_inv_def client_step_def) (auto split: if_splits)
qed (use assms in \<open>auto simp: mutex_inv_def client_step_def worker_holds_def split: if_splits\<close>)

lemma work_inv_client:
  assumes "work_inv s" and "client_step c s = Some t"
  shows "work_inv t"
proof (cases "clients s c")
  case (C_Body call)
  with assms(2) client_body_work [OF assms(1), of call] show ?thesis
    by (auto simp: client_step_def split: prod.splits)
qed (use assms work_inv_notify [OF assms(1)] in \<open>auto simp: client_step_def split: if_splits\<close>)

lemma wake_inv_client:
  assumes "wake_inv s" and "client_step c s = Some t"
  shows "wake_inv t"
proof (cases "clients s c")
  case (C_Body call)
  with assms(2) obtain r b where b: "client_body call s = (r, b)" "t = at_client c (C_Unlock call r) b"
    by (auto simp: client_step_def split: prod.splits)
  show ?thesis
  proof (cases "call = Size")
    case True
    with b C_Body assms(1) notifier_kept [of s c t "C_Unlock call r"] show ?thesis
      by (simp add: wake_inv_def)
  next
    case False
    with b client_body_frame [OF b(1)] notifier_new [of "C_Unlock call r" t s c] show ?thesis
      by (simp add: wake_inv_def)
  qed
next
  case (C_Unlock call r)
  with assms notifier_new [of "C_Notify call r" t s c] notifier_kept [of s c t "C_Outside (Some r)"]
  show ?thesis by (auto simp: client_step_def wake_inv_def split: if_splits)
qed (use assms notifier_kept [of s c t] in \<open>auto simp: client_step_def wake_inv_def split: if_splits\<close>)

lemma tq_inv_step: "tq_inv s \<Longrightarrow> tq_step s t \<Longrightarrow> tq_inv t"
proof (elim tq_stepE)
  fix a assume s: "tq_inv s" and t: "tq_act a s = Some t"
  show "tq_inv t"
  proof (cases a)
    case WorkerRuns
    with s t show ?thesis
      by (simp add: tq_inv_def) (blast intro: mutex_inv_worker work_inv_worker wake_inv_worker)
  next
    case SpuriousWakeup
    with s t show ?thesis by (auto split: if_splits intro: tq_inv_spurious)
  next
    case (ClientCalls c call)
    with s t show ?thesis by (auto split: client_pc.splits intro: tq_inv_call)
  next
    case (ClientRuns c)
    with s t show ?thesis
      by (simp add: tq_inv_def) (blast intro: mutex_inv_client work_inv_client wake_inv_client)
  qed
qed

interpretation tq: interleaving task_queue0 tq_step tq_inv
  by unfold_locales (simp_all add: tq_inv_start tq_inv_step)

section \<open>The queue and its consumer, without the threads\<close>

text \<open>
  What the class shows: a task enters the queue when \<^verbatim>\<open>pushToQueue\<close> pushes it, and leaves it
  when the worker calls the processing function with it.
\<close>

datatype 'a tq_event = Puts 'a | Takes 'a

fun tq_shows :: "'a tq_action \<Rightarrow> 'a task_queue \<Rightarrow> 'a tq_event list" where
  "tq_shows WorkerRuns s = (case m_workerThread s of W_Process task \<Rightarrow> [Takes task] | _ \<Rightarrow> [])"
| "tq_shows (ClientRuns c) s = (case clients s c of C_Body (PushToQueue task) \<Rightarrow> [Puts task] | _ \<Rightarrow> [])"
| "tq_shows _ s = []"

abbreviation tq_trace :: "'a tq_action list \<Rightarrow> 'a task_queue \<Rightarrow> 'a tq_event list" where
  "tq_trace \<equiv> run_events tq_act tq_shows"

text \<open>
  What the clients of the class rely on, a queue with one consumer: tasks wait in one line, in the
  order they were put, and only the task at the front can be taken.
\<close>

fun fifo_step :: "'a list \<Rightarrow> 'a tq_event \<Rightarrow> 'a list option" where
  "fifo_step line (Puts task) = Some (line @ [task])"
| "fifo_step (front # line) (Takes task) = (if task = front then Some line else None)"
| "fifo_step [] (Takes task) = None"

fun put_task :: "'a tq_event \<Rightarrow> 'a option" where
  "put_task (Puts task) = Some task"
| "put_task (Takes task) = None"

fun taken_task :: "'a tq_event \<Rightarrow> 'a option" where
  "taken_task (Takes task) = Some task"
| "taken_task (Puts task) = None"

text \<open>The line of the class: the task in the worker's hand is still waiting to be processed.\<close>

definition fifo_view :: "'a task_queue \<Rightarrow> 'a list" where
  "fifo_view s = in_hand (m_workerThread s) @ m_taskQueue s"

lemma fifo_view_frame [simp]:
  "fifo_view (at_client c pc s) = fifo_view s"
  "fifo_view (s\<lparr>m_taskQueueMutex := m\<rparr>) = fifo_view s"
  "fifo_view (notify_all s) = fifo_view s"
  by (simp_all add: fifo_view_def)

lemma worker_simulates:
  "worker_step s = Some t \<Longrightarrow> spec_run fifo_step (fifo_view s) (tq_shows WorkerRuns s) = Some (fifo_view t)"
  by (auto simp: worker_step_def fifo_view_def split: worker_pc.splits if_splits list.splits)

lemma client_simulates:
  "client_step c s = Some t \<Longrightarrow> spec_run fifo_step (fifo_view s) (tq_shows (ClientRuns c) s) = Some (fifo_view t)"
proof (cases "clients s c")
  case (C_Body call)
  moreover assume "client_step c s = Some t"
  ultimately show ?thesis by (cases call) (auto simp: client_step_def fifo_view_def)
qed (auto simp: client_step_def split: if_splits)

lemma tq_simulates:
  assumes "tq_act a s = Some t"
  shows "spec_run fifo_step (fifo_view s) (tq_shows a s) = Some (fifo_view t)"
proof (cases a)
  case WorkerRuns
  with assms worker_simulates show ?thesis by simp
next
  case SpuriousWakeup
  with assms show ?thesis by (auto simp: fifo_view_def split: if_splits)
next
  case (ClientCalls c call)
  with assms show ?thesis by (auto split: client_pc.splits)
next
  case (ClientRuns c)
  with assms client_simulates show ?thesis by simp
qed

interpretation tq_fifo: trace_refinement tq_act tq_shows fifo_view fifo_step
  by unfold_locales (rule tq_simulates)

lemma tq_schedule_runs: "tq_schedule as s = run_schedule tq_act as s"
  by (induction as arbitrary: s) (auto split: option.split)

text \<open>The records of the past in the state are what the trace shows.\<close>

lemma tq_act_records:
  assumes "tq_act a s = Some t"
  shows "tasks_pushed t = tasks_pushed s @ List.map_filter put_task (tq_shows a s)
    \<and> tasks_processed t = tasks_processed s @ List.map_filter taken_task (tq_shows a s)"
proof (cases a)
  case WorkerRuns
  with assms show ?thesis
    by (auto simp: worker_step_def split: worker_pc.splits if_splits list.splits)
next
  case SpuriousWakeup
  with assms show ?thesis by (auto split: if_splits)
next
  case (ClientCalls c call)
  with assms show ?thesis by (auto split: client_pc.splits)
next
  case (ClientRuns c)
  show ?thesis
  proof (cases "clients s c")
    case (C_Body call)
    with assms ClientRuns show ?thesis
      by (cases call) (auto simp: client_step_def)
  qed (use assms ClientRuns in \<open>auto simp: client_step_def split: if_splits\<close>)
qed

lemma tq_trace_records:
  "tasks_pushed (tq_schedule as s) = tasks_pushed s @ List.map_filter put_task (tq_trace as s)
   \<and> tasks_processed (tq_schedule as s) = tasks_processed s @ List.map_filter taken_task (tq_trace as s)"
  by (induction as arbitrary: s)
     (auto simp: tq_act_records split: option.split)

section \<open>The worker left alone\<close>

text \<open>
  How many steps the worker still has before it sleeps or ends, when no client interferes. The
  bound is what a queue of \<open>n\<close> tasks costs: three steps a task, and at most ten around them.
\<close>

fun worker_measure :: "'a worker_pc \<Rightarrow> nat \<Rightarrow> bool \<Rightarrow> nat" where
  "worker_measure W_Asleep n p = 0"
| "worker_measure W_Wait n p = (if p then 3 * n + 5 else 1)"
| "worker_measure W_Lock n p = (if p then 3 * n + 6 else 2)"
| "worker_measure W_Woken n p = (if p then 3 * n + 6 else 2)"
| "worker_measure W_Test n p = (if p then 3 * n + 7 else 3)"
| "worker_measure W_Inner n p = 3 * n + (if p then 8 else 4)"
| "worker_measure W_Relock n p = 3 * n + (if p then 9 else 5)"
| "worker_measure (W_Process task) n p = 3 * n + (if p then 10 else 6)"
| "worker_measure _ n p = 0"

abbreviation remaining :: "'a task_queue \<Rightarrow> nat" where
  "remaining s \<equiv> worker_measure (m_workerThread s) (length (m_taskQueue s)) (m_taskPushed s)"

definition undisturbed :: "'a task_queue \<Rightarrow> bool" where
  "undisturbed s \<longleftrightarrow> (\<forall>c. \<not> client_holds (clients s c)) \<and> \<not> notifier s"

lemma remaining_bound: "remaining s \<le> 3 * length (m_taskQueue s) + 10"
  by (cases "m_workerThread s") auto

lemma undisturbed_mutex:
  "mutex_inv s \<Longrightarrow> undisturbed s \<Longrightarrow> m_taskQueueMutex s = None \<or> worker_holds (m_workerThread s)"
  by (cases "m_taskQueueMutex s"; cases "the (m_taskQueueMutex s)")
     (auto simp: mutex_inv_def undisturbed_def)

lemma worker_step_frame:
  "worker_step s = Some t \<Longrightarrow> clients t = clients s \<and> m_runWorkerThread t = m_runWorkerThread s
     \<and> tasks_pushed t = tasks_pushed s"
  by (auto simp: worker_step_def split: worker_pc.splits if_splits list.splits)

lemma worker_progress:
  assumes "tq_inv s" and "undisturbed s" and "m_runWorkerThread s" and "m_workerThread s \<noteq> W_Asleep"
  shows "\<exists>t. worker_step s = Some t \<and> remaining t < remaining s"
proof -
  from assms(1) have inv: "mutex_inv s" "work_inv s" by (simp_all add: tq_inv_def)
  from undisturbed_mutex [OF inv(1) assms(2)] inv(2) assms(3,4) show ?thesis
    by (cases "m_workerThread s") (auto simp: worker_step_def work_inv_def worker_holds_def split: list.split)
qed

abbreviation worker_runs :: "nat \<Rightarrow> 'a task_queue \<Rightarrow> 'a task_queue" where
  "worker_runs n \<equiv> tq_schedule (replicate n WorkerRuns)"

lemma worker_runs_to_sleep:
  assumes "tq_inv s" and "undisturbed s" and "m_runWorkerThread s" and "remaining s \<le> n"
  shows "tq_inv (worker_runs n s) \<and> m_workerThread (worker_runs n s) = W_Asleep
    \<and> clients (worker_runs n s) = clients s \<and> tasks_pushed (worker_runs n s) = tasks_pushed s
    \<and> m_runWorkerThread (worker_runs n s)"
  using assms
proof (induction n arbitrary: s)
  case 0
  with worker_progress [of s] show ?case by auto
next
  case (Suc n)
  show ?case
  proof (cases "m_workerThread s = W_Asleep")
    case True
    then have "worker_step s = None" by (simp add: worker_step_def)
    with Suc True show ?thesis by simp
  next
    case False
    with worker_progress Suc.prems obtain t
      where t: "worker_step s = Some t" "remaining t < remaining s" by blast
    from t(1) have "tq_inv t" using Suc.prems(1) tq_inv_step tq_act_step [of WorkerRuns s t] by auto
    with Suc.IH [of t] worker_step_frame [OF t(1)] t Suc.prems show ?thesis
      by (simp add: undisturbed_def notifier_def)
  qed
qed

text \<open>After a stop at most four steps are left, and the worker is not asleep.\<close>

fun stop_measure :: "'a worker_pc \<Rightarrow> nat" where
  "stop_measure W_Test = 1"
| "stop_measure W_TestHeld = 1"
| "stop_measure W_Inner = 2"
| "stop_measure W_Relock = 3"
| "stop_measure W_Wait = 3"
| "stop_measure W_Lock = 4"
| "stop_measure W_Woken = 4"
| "stop_measure (W_Process task) = 4"
| "stop_measure _ = 0"

lemma stop_progress:
  assumes "tq_inv s" and "undisturbed s" and "\<not> m_runWorkerThread s" and "m_workerThread s \<noteq> W_Done"
  shows "\<exists>t. worker_step s = Some t \<and> stop_measure (m_workerThread t) < stop_measure (m_workerThread s)
    \<and> tasks_processed t @ in_hand (m_workerThread t) = tasks_processed s @ in_hand (m_workerThread s)"
proof -
  from assms(1) have inv: "mutex_inv s" "work_inv s" "wake_inv s" by (simp_all add: tq_inv_def)
  from undisturbed_mutex [OF inv(1) assms(2)] inv(2,3) assms(2-4) show ?thesis
    by (cases "m_workerThread s")
       (auto simp: worker_step_def work_inv_def wake_inv_def undisturbed_def tq_pc_defs)
qed

lemma worker_runs_to_end:
  assumes "tq_inv s" and "undisturbed s" and "\<not> m_runWorkerThread s"
    and "stop_measure (m_workerThread s) \<le> n"
  shows "m_workerThread (worker_runs n s) = W_Done
    \<and> tasks_processed (worker_runs n s) = tasks_processed s @ in_hand (m_workerThread s)"
  using assms
proof (induction n arbitrary: s)
  case 0
  with stop_progress [of s] have "m_workerThread s = W_Done" by auto
  then show ?case by simp
next
  case (Suc n)
  show ?case
  proof (cases "m_workerThread s = W_Done")
    case True
    then have "worker_step s = None" by (simp add: worker_step_def)
    with Suc True show ?thesis by simp
  next
    case False
    with stop_progress Suc.prems obtain t
      where t: "worker_step s = Some t" "stop_measure (m_workerThread t) < stop_measure (m_workerThread s)"
        "tasks_processed t @ in_hand (m_workerThread t) = tasks_processed s @ in_hand (m_workerThread s)"
      by blast
    from t(1) have "tq_inv t" using Suc.prems(1) tq_inv_step tq_act_step [of WorkerRuns s t] by auto
    with Suc.IH [of t] worker_step_frame [OF t(1)] t Suc.prems show ?thesis
      by (simp add: undisturbed_def notifier_def)
  qed
qed

section \<open>Properties\<close>

text \<open>
  The mutex works and the worker never locks it twice. In every reachable state at most one
  thread is inside a guarded section: no two clients are, and none is while the worker is; and
  the worker never runs into the second \<^verbatim>\<open>lock\<close> of a lock it holds, which would throw out of
  the thread.
\<close>

theorem task_queue_mutual_exclusion:
  assumes "reaches tq_step task_queue0 s"
  shows "(client_holds (clients s c) \<longrightarrow> client_holds (clients s c') \<longrightarrow> c = c')
    \<and> \<not> (worker_holds (m_workerThread s) \<and> client_holds (clients s c))
    \<and> m_workerThread s \<noteq> W_Crashed"
proof -
  have inv: "mutex_inv s" "work_inv s" using tq.inv_reaches [OF assms] by (simp_all add: tq_inv_def)
  from inv(2) have "m_workerThread s \<noteq> W_Crashed" by (simp add: work_inv_def)
  with mutex_inv_held [OF inv(1)] show ?thesis by metis
qed

definition two_clients :: "nat task_queue" where
  "two_clients = tq_schedule [ClientCalls 1 (PushToQueue 7), ClientCalls 2 (PushToQueue 8),
     ClientRuns 1, ClientRuns 1, ClientRuns 2, WorkerRuns, WorkerRuns] task_queue0"

lemmas tq_run_simps = worker_step_def client_step_def at_client_def notify_all_def task_queue0_def

theorem task_queue_mutual_exclusion_witness:
  "client_holds (clients two_clients 1) \<and> clients two_clients 2 = C_Lock (PushToQueue 8)
   \<and> m_workerThread two_clients = W_Lock \<and> \<not> worker_holds (m_workerThread two_clients)"
proof -
  have "reaches tq_step task_queue0 two_clients"
    unfolding two_clients_def by (rule tq_schedule_reaches) (rule reaches_start)
  moreover have "client_holds (clients two_clients 1)" "clients two_clients 2 = C_Lock (PushToQueue 8)"
    "m_workerThread two_clients = W_Lock"
    by (simp_all add: two_clients_def tq_run_simps)
  ultimately show ?thesis using task_queue_mutual_exclusion [of two_clients 1 1] by blast
qed

text \<open>
  C8: tasks are processed in the order they are pushed, none twice and none lost. In every
  reachable state the tasks pushed so far, in the order of their guarded sections, are the tasks
  handed to the processing function, then the one the worker holds, then the queue.
\<close>

theorem task_queue_fifo:
  assumes "reaches tq_step task_queue0 s"
  shows "tasks_pushed s = tasks_processed s @ in_hand (m_workerThread s) @ m_taskQueue s"
  using tq.inv_reaches [OF assms] by (simp add: tq_inv_def work_inv_def)

definition one_processed :: "nat task_queue" where
  "one_processed = tq_schedule (ClientCalls 1 (PushToQueue 7) # replicate 4 (ClientRuns 1)
     @ ClientCalls 2 (PushToQueue 8) # replicate 4 (ClientRuns 2)
     @ replicate 5 WorkerRuns) task_queue0"

theorem task_queue_fifo_witness:
  "tasks_pushed one_processed = [7] @ [] @ [8]"
proof -
  have "tasks_processed one_processed = [7]" "in_hand (m_workerThread one_processed) = []"
    "m_taskQueue one_processed = [8]"
    by (simp_all add: one_processed_def tq_run_simps numeral_eq_Suc)
  moreover have "reaches tq_step task_queue0 one_processed"
    unfolding one_processed_def by (rule tq_schedule_reaches) (rule reaches_start)
  ultimately show ?thesis using task_queue_fifo [of one_processed] by simp
qed

text \<open>
  C9: no wake-up is lost. Whenever the worker sleeps in the condition variable and no client is
  between its guarded section and its \<^verbatim>\<open>notify_all\<close>, every pushed task has been processed and
  no stop is pending.
\<close>

theorem task_queue_no_lost_wakeup:
  assumes "reaches tq_step task_queue0 s" and "m_workerThread s = W_Asleep" and "\<not> notifier s"
  shows "tasks_processed s = tasks_pushed s \<and> m_taskQueue s = [] \<and> m_runWorkerThread s"
  using tq.inv_reaches [OF assms(1)] assms(2,3)
  by (auto simp: tq_inv_def work_inv_def wake_inv_def tq_pc_defs)

theorem task_queue_no_lost_wakeup_witness:
  "tasks_processed (tq_schedule (replicate 12 WorkerRuns) one_processed)
     = tasks_pushed (tq_schedule (replicate 12 WorkerRuns) one_processed)"
proof -
  let ?s = "tq_schedule (replicate 12 WorkerRuns) one_processed"
  have "reaches tq_step task_queue0 ?s"
    unfolding one_processed_def by (intro tq_schedule_reaches) (rule reaches_start)
  moreover have "m_workerThread ?s = W_Asleep" "\<not> notifier ?s"
    by (simp_all add: one_processed_def tq_run_simps numeral_eq_Suc notifier_def)
  ultimately show ?thesis using task_queue_no_lost_wakeup [of ?s] by blast
qed

text \<open>
  C10: the queue is emptied. From any reachable state in which no client is inside an operation's
  guarded section or about to notify, and without a stop, the worker alone needs at most
  \<open>3 n + 10\<close> steps for a queue of \<open>n\<close> tasks to have processed everything that was
  pushed, and then it sleeps.
\<close>

theorem task_queue_drains:
  assumes "reaches tq_step task_queue0 s" and "undisturbed s" and "m_runWorkerThread s"
  shows "let t = worker_runs (3 * length (m_taskQueue s) + 10) s in
    tasks_processed t = tasks_pushed s \<and> m_taskQueue t = [] \<and> m_workerThread t = W_Asleep"
proof -
  let ?t = "worker_runs (3 * length (m_taskQueue s) + 10) s"
  from worker_runs_to_sleep [OF tq.inv_reaches [OF assms(1)] assms(2,3) remaining_bound]
  have t: "tq_inv ?t" "m_workerThread ?t = W_Asleep" "clients ?t = clients s"
    "tasks_pushed ?t = tasks_pushed s" "m_runWorkerThread ?t" by blast+
  from t(3) assms(2) have "\<not> notifier ?t" by (simp add: undisturbed_def notifier_def)
  with t have "\<not> m_taskPushed ?t" by (auto simp: tq_inv_def wake_inv_def)
  with t have "m_taskQueue ?t = []" by (auto simp: tq_inv_def work_inv_def tq_pc_defs)
  with t show ?thesis by (simp add: tq_inv_def work_inv_def Let_def)
qed

theorem task_queue_drains_witness:
  "tasks_processed (worker_runs 13 one_processed) = tasks_pushed one_processed"
proof -
  have "reaches tq_step task_queue0 one_processed"
    unfolding one_processed_def by (rule tq_schedule_reaches) (rule reaches_start)
  moreover have "undisturbed one_processed" "m_runWorkerThread one_processed"
    "m_taskQueue one_processed = [8]"
    by (simp_all add: one_processed_def tq_run_simps numeral_eq_Suc undisturbed_def notifier_def)
  ultimately show ?thesis using task_queue_drains [of one_processed] by (simp add: Let_def)
qed

text \<open>
  C12: a stop ends the worker, so the destructor's join returns. From any reachable state after
  a \<^verbatim>\<open>stopQueue\<close>, with no client holding the mutex or about to notify, at most four steps of the worker
  end the thread; the one task it had in hand is still processed, the tasks of the queue are not.
\<close>

theorem task_queue_stops:
  assumes "reaches tq_step task_queue0 s" and "undisturbed s" and "\<not> m_runWorkerThread s"
  shows "m_workerThread (worker_runs 4 s) = W_Done
    \<and> tasks_processed (worker_runs 4 s) = tasks_processed s @ in_hand (m_workerThread s)"
proof (rule worker_runs_to_end [OF tq.inv_reaches [OF assms(1)] assms(2,3)])
  show "stop_measure (m_workerThread s) \<le> 4" by (cases "m_workerThread s") auto
qed

theorem task_queue_stops_witness:
  "let s = tq_schedule (ClientCalls 3 StopQueue # replicate 4 (ClientRuns 3)) one_processed in
   m_workerThread (worker_runs 4 s) = W_Done \<and> tasks_processed (worker_runs 4 s) = [7]
   \<and> m_taskQueue s = [8]"
proof -
  define s where "s = tq_schedule (ClientCalls 3 StopQueue # replicate 4 (ClientRuns 3)) one_processed"
  have "reaches tq_step task_queue0 s"
    unfolding s_def one_processed_def by (intro tq_schedule_reaches) (rule reaches_start)
  moreover have "undisturbed s" "\<not> m_runWorkerThread s"
    and rest: "m_taskQueue s = [8]" "tasks_processed s @ in_hand (m_workerThread s) = [7]"
    by (simp_all add: s_def one_processed_def tq_run_simps numeral_eq_Suc undisturbed_def notifier_def)
  ultimately have "m_workerThread (worker_runs 4 s) = W_Done
    \<and> tasks_processed (worker_runs 4 s) = tasks_processed s @ in_hand (m_workerThread s)"
    by (intro task_queue_stops)
  with rest show ?thesis unfolding Let_def s_def [symmetric] by simp
qed

text \<open>
  C11: the class implements a plain queue with one consumer. For every schedule of the threads, the
  events it shows (each push and each call of the processing function, in the order they happen)
  are allowed one after the other by the plain queue \<open>fifo_step\<close>, which lets nothing be taken but
  the task at its front; the plain queue then holds the tasks that wait, the one in the worker's
  hand first; and the tasks put and taken are the ones recorded as pushed and as processed.
\<close>

theorem task_queue_refines_fifo:
  "let s = tq_schedule as task_queue0 in
     spec_run fifo_step [] (tq_trace as task_queue0) = Some (in_hand (m_workerThread s) @ m_taskQueue s)
   \<and> List.map_filter put_task (tq_trace as task_queue0) = tasks_pushed s
   \<and> List.map_filter taken_task (tq_trace as task_queue0) = tasks_processed s"
  using tq_fifo.run_refines [of task_queue0 as] tq_trace_records [of as task_queue0]
  by (simp add: fifo_view_def task_queue0_def tq_schedule_runs Let_def)

end
