(* ===== verification/Task_Queue_Retry.thy ===== *)
theory Task_Queue_Retry
  imports Step_Systems
begin

text \<open>
  \<^verbatim>\<open>TaskQueue\<close> of \<^verbatim>\<open>src/include/TaskQueue2.h\<close>: the queue whose processing function reports
  whether it succeeded, and which keeps a task at the front until it does. A step is one
  guarded section of a thread (every access to \<^verbatim>\<open>m_taskQueue\<close> is in one) or one call of the
  processing function; \<^verbatim>\<open>wait_for\<close> returns at the latest after a second whether it is notified
  or not, so the worker is never blocked in it.
\<close>

section \<open>State\<close>

text \<open>
  Program points of \<^verbatim>\<open>worker\<close>: the loop condition, the guarded section that looks at the
  front, the call of the processing function, the guarded section after it, and the end. The
  last one is undefined behaviour: \<^verbatim>\<open>front\<close> or \<^verbatim>\<open>pop\<close> of an empty \<^verbatim>\<open>std::queue\<close>.
\<close>

datatype 'a retry_pc = R_Test | R_Look | R_Process 'a | R_Finish bool | R_Done | R_Undefined

record 'a retry_queue =
  rq_taskQueue :: "'a list"
  rq_runWorkerThread :: bool
  rq_workerThread :: "'a retry_pc"
  rq_pushed :: "'a list"
  rq_attempts :: "('a \<times> bool) list"
  rq_popped :: "'a list"

text \<open>
  The constructor. The last three fields record the past: the tasks pushed, the calls of the
  processing function with their results, and what \<^verbatim>\<open>pop\<close> returned to clients.
\<close>

definition retry_queue0 :: "'a retry_queue" where
  "retry_queue0 = \<lparr>rq_taskQueue = [], rq_runWorkerThread = True, rq_workerThread = R_Test,
     rq_pushed = [], rq_attempts = [], rq_popped = []\<rparr>"

section \<open>Operations\<close>

definition pushToQueue :: "'a \<Rightarrow> 'a retry_queue \<Rightarrow> nat \<times> 'a retry_queue" where
  "pushToQueue task s = (Suc (length (rq_taskQueue s)),
     s\<lparr>rq_taskQueue := rq_taskQueue s @ [task], rq_pushed := rq_pushed s @ [task]\<rparr>)"

text \<open>The flag; \<^verbatim>\<open>stopQueue\<close> then joins the worker, that is, returns in \<open>R_Done\<close>.\<close>

definition stopQueue :: "'a retry_queue \<Rightarrow> 'a retry_queue" where
  "stopQueue s = s\<lparr>rq_runWorkerThread := False\<rparr>"

definition queue_size :: "'a retry_queue \<Rightarrow> nat" where
  "queue_size s = length (rq_taskQueue s)"

text \<open>\<open>None\<close>: undefined behaviour.\<close>

definition queue_pop :: "'a retry_queue \<Rightarrow> ('a \<times> 'a retry_queue) option" where
  "queue_pop s = (case rq_taskQueue s of
       [] \<Rightarrow> None
     | task # rest \<Rightarrow> Some (task, s\<lparr>rq_taskQueue := rest, rq_popped := rq_popped s @ [task]\<rparr>))"

text \<open>One step of the worker; the argument is what the processing function returns.\<close>

definition retry_worker :: "bool \<Rightarrow> 'a retry_queue \<Rightarrow> 'a retry_queue option" where
  "retry_worker processed s = (case rq_workerThread s of
       R_Test \<Rightarrow> Some (s\<lparr>rq_workerThread := if rq_runWorkerThread s then R_Look else R_Done\<rparr>)
     | R_Look \<Rightarrow> Some (s\<lparr>rq_workerThread :=
         (case rq_taskQueue s of [] \<Rightarrow> R_Test | task # rest \<Rightarrow> R_Process task)\<rparr>)
     | R_Process task \<Rightarrow> Some (s\<lparr>rq_workerThread := R_Finish processed,
         rq_attempts := rq_attempts s @ [(task, processed)]\<rparr>)
     | R_Finish ok \<Rightarrow> Some (if ok then
           (case rq_taskQueue s of
              [] \<Rightarrow> s\<lparr>rq_workerThread := R_Undefined\<rparr>
            | task # rest \<Rightarrow> s\<lparr>rq_workerThread := R_Test, rq_taskQueue := rest\<rparr>)
         else s\<lparr>rq_workerThread := R_Test\<rparr>)
     | R_Done \<Rightarrow> None
     | R_Undefined \<Rightarrow> None)"

datatype 'a retry_action = RetryWorker bool | RetryPush 'a | RetryStop | RetrySize | RetryPop

fun retry_act :: "'a retry_action \<Rightarrow> 'a retry_queue \<Rightarrow> 'a retry_queue option" where
  "retry_act (RetryWorker processed) s = retry_worker processed s"
| "retry_act (RetryPush task) s = Some (snd (pushToQueue task s))"
| "retry_act RetryStop s = Some (stopQueue s)"
| "retry_act RetrySize s = Some s"
| "retry_act RetryPop s = (case queue_pop s of
     Some (task, t) \<Rightarrow> Some t | None \<Rightarrow> Some (s\<lparr>rq_workerThread := R_Undefined\<rparr>))"

text \<open>The steps when clients leave \<^verbatim>\<open>pop\<close> to the worker, and all of them.\<close>

inductive retry_step :: "'a retry_queue \<Rightarrow> 'a retry_queue \<Rightarrow> bool" where
  retry_act_step: "retry_act a s = Some t \<Longrightarrow> a \<noteq> RetryPop \<Longrightarrow> retry_step s t"

inductive_cases retry_stepE: "retry_step s t"

fun retry_schedule :: "'a retry_action list \<Rightarrow> 'a retry_queue \<Rightarrow> 'a retry_queue" where
  "retry_schedule [] s = s"
| "retry_schedule (a # as) s = retry_schedule as (case retry_act a s of Some t \<Rightarrow> t | None \<Rightarrow> s)"

lemma retry_schedule_reaches:
  "reaches retry_step r s \<Longrightarrow> RetryPop \<notin> set as \<Longrightarrow> reaches retry_step r (retry_schedule as s)"
proof (induction as arbitrary: s)
  case (Cons a as)
  have "reaches retry_step r (case retry_act a s of Some t \<Rightarrow> t | None \<Rightarrow> s)"
    using Cons.prems by (auto intro: reaches_step retry_act_step split: option.split)
  with Cons show ?case by simp
qed simp

section \<open>Invariant without \<open>pop\<close>\<close>

definition succeeded :: "'a retry_queue \<Rightarrow> 'a list" where
  "succeeded s = map fst (filter snd (rq_attempts s))"

text \<open>The tasks still to be processed: one that has just succeeded is still at the front.\<close>

definition outstanding :: "'a retry_queue \<Rightarrow> 'a list" where
  "outstanding s = (if rq_workerThread s = R_Finish True then tl (rq_taskQueue s) else rq_taskQueue s)"

definition retry_inv :: "'a retry_queue \<Rightarrow> bool" where
  "retry_inv s \<longleftrightarrow> rq_pushed s = succeeded s @ outstanding s
     \<and> (case rq_workerThread s of
          R_Process task \<Rightarrow> rq_taskQueue s \<noteq> [] \<and> hd (rq_taskQueue s) = task
        | R_Finish ok \<Rightarrow> rq_taskQueue s \<noteq> []
        | R_Undefined \<Rightarrow> False
        | R_Done \<Rightarrow> \<not> rq_runWorkerThread s
        | _ \<Rightarrow> True)"

lemma retry_inv_worker: "retry_inv s \<Longrightarrow> retry_worker processed s = Some t \<Longrightarrow> retry_inv t"
proof (cases "rq_workerThread s")
  case (R_Process task)
  then show "retry_inv s \<Longrightarrow> retry_worker processed s = Some t \<Longrightarrow> ?thesis"
    by (cases "rq_taskQueue s")
       (auto simp: retry_inv_def retry_worker_def succeeded_def outstanding_def)
qed (auto simp: retry_inv_def retry_worker_def succeeded_def outstanding_def
    split: if_splits list.splits)

lemma retry_inv_push: "retry_inv s \<Longrightarrow> retry_inv (snd (pushToQueue task s))"
  by (cases "rq_workerThread s")
     (auto simp: retry_inv_def pushToQueue_def succeeded_def outstanding_def)

lemma retry_inv_stop: "retry_inv s \<Longrightarrow> retry_inv (stopQueue s)"
  by (cases "rq_workerThread s")
     (auto simp: retry_inv_def stopQueue_def succeeded_def outstanding_def)

lemma retry_inv_step: "retry_inv s \<Longrightarrow> retry_step s t \<Longrightarrow> retry_inv t"
proof (elim retry_stepE)
  fix a assume "retry_inv s" "retry_act a s = Some t" "a \<noteq> RetryPop"
  then show "retry_inv t"
    by (cases a) (auto intro: retry_inv_worker retry_inv_push retry_inv_stop)
qed

interpretation retry: interleaving retry_queue0 retry_step retry_inv
  by unfold_locales
     (simp_all add: retry_inv_step, simp add: retry_inv_def retry_queue0_def succeeded_def outstanding_def)

section \<open>Properties\<close>

text \<open>
  C30: a task stays until it is processed. As long as no client calls \<^verbatim>\<open>pop\<close>, in every
  reachable state the pushed tasks are those whose processing succeeded, in that order and once
  each, followed by those that still wait; nothing is dropped for a failure, and no access to an
  empty queue happens.
\<close>

theorem retry_keeps_failed_tasks:
  assumes "reaches retry_step retry_queue0 s"
  shows "rq_pushed s = succeeded s @ outstanding s \<and> rq_workerThread s \<noteq> R_Undefined"
  using retry.inv_reaches [OF assms] by (auto simp: retry_inv_def)

theorem retry_keeps_failed_tasks_witness:
  "let s = retry_schedule ([RetryPush 5, RetryPush 6] @ replicate 4 (RetryWorker False)
      @ replicate 4 (RetryWorker True)) retry_queue0
   in rq_pushed s = [5, 6 :: nat] \<and> succeeded s = [5] \<and> rq_attempts s = [(5, False), (5, True)]
     \<and> outstanding s = [6]"
proof -
  define s where "s = retry_schedule ([RetryPush 5, RetryPush (6 :: nat)] @ replicate 4 (RetryWorker False)
      @ replicate 4 (RetryWorker True)) retry_queue0"
  have "reaches retry_step retry_queue0 s"
    unfolding s_def by (rule retry_schedule_reaches) (auto intro: reaches_start)
  from retry_keeps_failed_tasks [OF this]
  have "rq_pushed s = succeeded s @ outstanding s" by blast
  moreover have "succeeded s = [5]" "rq_attempts s = [(5, False), (5, True)]" "outstanding s = [6]"
    by (simp_all add: s_def succeeded_def outstanding_def retry_worker_def pushToQueue_def
        retry_queue0_def numeral_eq_Suc)
  ultimately show ?thesis unfolding Let_def s_def [symmetric] by simp
qed

text \<open>
  A client's \<^verbatim>\<open>pop\<close> during processing loses a task. When the worker processes the task at
  the front and a client pops it, the worker's own pop after a success removes the next task,
  which then was neither processed nor returned to anybody; if there is none, it pops an empty
  queue.
\<close>

theorem retry_pop_loses_task:
  assumes "rq_workerThread s = R_Process task" and "rq_taskQueue s = task # rest"
  shows "let t = retry_schedule [RetryPop, RetryWorker True, RetryWorker True] s in
    rq_popped t = rq_popped s @ [task] \<and> rq_attempts t = rq_attempts s @ [(task, True)]
    \<and> (rest \<noteq> [] \<longrightarrow> rq_taskQueue t = tl rest \<and> rq_workerThread t = R_Test)
    \<and> (rest = [] \<longrightarrow> rq_workerThread t = R_Undefined)"
  using assms by (cases rest) (simp_all add: queue_pop_def retry_worker_def Let_def)

theorem retry_pop_loses_task_witness:
  "let s = retry_schedule [RetryPush 5, RetryPush 6, RetryWorker True, RetryWorker True] retry_queue0;
       t = retry_schedule [RetryPop, RetryWorker True, RetryWorker True] s
   in rq_popped t = [5] \<and> rq_attempts t = [(5, True)] \<and> rq_taskQueue t = ([] :: nat list)"
proof -
  define s where "s = retry_schedule [RetryPush 5, RetryPush (6 :: nat), RetryWorker True, RetryWorker True] retry_queue0"
  have "rq_workerThread s = R_Process 5" "rq_taskQueue s = 5 # [6]" "rq_popped s = []" "rq_attempts s = []"
    by (simp_all add: s_def retry_worker_def pushToQueue_def retry_queue0_def)
  with retry_pop_loses_task [of s 5 "[6]"] show ?thesis
    unfolding Let_def s_def [symmetric] by simp
qed

end
