(* ===== verification/Mq_Message.thy ===== *)
theory Mq_Message
  imports Task_Queue Std_String
begin

text \<open>
  \<^verbatim>\<open>src/MqMessageService/MqMessageService.cpp\<close>, in its build for POSIX message queues: the
  helpers over \<^verbatim>\<open>mq_open\<close> and its relatives, the listening thread and the sending side with
  its task queue. The answers of the operating system are arguments of the operations and the
  calls made to it are their outputs. The task queue is the line of waiting messages that
  \<open>Task_Queue\<close> shows its class to implement; a \<open>TaskRuns\<close> event is its worker taking one.
\<close>

section \<open>Message queues of the operating system\<close>

type_synonym descriptor = int

datatype 'h mq_out =
    MqOpenRead string nat nat
  | MqOpenWrite string
  | MqGetattr descriptor
  | MqUnlink string
  | MqClose descriptor
  | MqReceive descriptor nat
  | MqSend descriptor bytes
  | OnMqMessage 'h bytes
  | NoMqHandler

text \<open>
  What the calls of \<^verbatim>\<open>openMqRead\<close> answer: the descriptor of the first \<^verbatim>\<open>mq_open\<close>, the result
  and the two attributes of \<^verbatim>\<open>mq_getattr\<close>, the result of \<^verbatim>\<open>mq_unlink\<close> and whether
  \<^verbatim>\<open>errno\<close> is \<^verbatim>\<open>ENOENT\<close> after it, the descriptor of the second \<^verbatim>\<open>mq_open\<close>.
\<close>

record open_reply =
  or_open :: descriptor
  or_getattr :: int
  or_maxmsg :: nat
  or_msgsize :: nat
  or_unlink :: int
  or_enoent :: bool
  or_reopen :: descriptor

definition IQRF_MQ_BUFFER_SIZE :: nat where
  "IQRF_MQ_BUFFER_SIZE = 64 * 1024"

definition MAX_MESSAGES :: nat where
  "MAX_MESSAGES = 32"

definition MQ_PREFIX :: string where
  "MQ_PREFIX = ''/''"

abbreviation (input) INVALID_HANDLE_VALUE :: descriptor where
  "INVALID_HANDLE_VALUE \<equiv> -1"

definition openMqRead :: "string \<Rightarrow> nat \<Rightarrow> open_reply \<Rightarrow> descriptor \<times> 'h mq_out list" where
  "openMqRead name bufsize r = (let
       msgsize = bufsize div MAX_MESSAGES;
       create = MqOpenRead name MAX_MESSAGES msgsize
     in if 0 < or_open r then
          if or_getattr r = 0 then
            if or_maxmsg r \<noteq> MAX_MESSAGES \<or> or_msgsize r \<noteq> msgsize then
              if or_unlink r = 0 \<or> or_enoent r
              then (or_reopen r, [create, MqGetattr (or_open r), MqUnlink name, create])
              else (or_open r, [create, MqGetattr (or_open r), MqUnlink name])
            else (or_open r, [create, MqGetattr (or_open r)])
          else (or_open r, [create, MqGetattr (or_open r)])
        else (or_open r, [create]))"

definition openMqWrite :: "string \<Rightarrow> descriptor \<Rightarrow> descriptor \<times> 'h mq_out list" where
  "openMqWrite name desc = (desc, MqOpenWrite name # (if 0 < desc then [MqGetattr desc] else []))"

definition closeMq :: "descriptor \<Rightarrow> 'h mq_out list" where
  "closeMq desc = [MqClose desc]"

text \<open>
  What \<^verbatim>\<open>mq_receive\<close> answers: \<open>None\<close> for \<^verbatim>\<open>-1\<close>, else the message, which POSIX allows to
  be empty. The result is the flag and the number of bytes.
\<close>

definition readMq :: "bytes option \<Rightarrow> bool \<times> nat" where
  "readMq received = (case received of
       None \<Rightarrow> (False, 0)
     | Some msg \<Rightarrow> if length msg = 0 then (False, 0) else (True, length msg))"

text \<open>The flag and the number of bytes reported as written, which is always \<^verbatim>\<open>toWrite\<close>.\<close>

definition writeMq :: "nat \<Rightarrow> int \<Rightarrow> bool \<times> nat" where
  "writeMq toWrite res = (res = 0, toWrite)"

section \<open>State of the service\<close>

text \<open>The listening thread: none, at the outer loop, at the loop for reading, at its end.\<close>

datatype listen_pc = L_None | L_Open | L_Read | L_Finished

record 'h mq_service =
  m_toMqMessageQueue :: "bytes list option"
  m_localMqName :: string
  m_remoteMqName :: string
  m_messageHandlerFunc :: "'h option"
  m_connected :: bool
  m_runListenThread :: bool
  m_listenThread :: listen_pc
  m_localMqHandle :: descriptor
  m_remoteMqHandle :: descriptor
  m_bufsize :: nat
  m_server :: bool
  m_state :: bool

definition mq_service0 :: "'h mq_service" where
  "mq_service0 = \<lparr>m_toMqMessageQueue = None, m_localMqName = ''iqrf-daemon-100'',
     m_remoteMqName = ''iqrf-daemon-110'', m_messageHandlerFunc = None, m_connected = False,
     m_runListenThread = True, m_listenThread = L_None, m_localMqHandle = INVALID_HANDLE_VALUE,
     m_remoteMqHandle = INVALID_HANDLE_VALUE, m_bufsize = IQRF_MQ_BUFFER_SIZE, m_server = False,
     m_state = False\<rparr>"

text \<open>
  The one error a member function can end with: the task queue used before \<^verbatim>\<open>activate\<close>, when
  the pointer to it is null, or after \<^verbatim>\<open>deactivate\<close>, when it dangles.
\<close>

datatype mq_error = NoQueue

type_synonym 'h mq_outcome = "(mq_error, unit, 'h mq_out, 'h mq_service) outcome"

section \<open>The sending side\<close>

definition mq_connect :: "descriptor \<Rightarrow> 'h mq_service \<Rightarrow> 'h mq_outcome" where
  "mq_connect desc s = (if m_connected s then returns () s
     else let (h, outs) = openMqWrite (m_remoteMqName s) desc in
       emit_then (closeMq (m_remoteMqHandle s) @ outs)
         (returns () (s\<lparr>m_remoteMqHandle := h,
            m_connected := (if h = INVALID_HANDLE_VALUE then m_connected s else True)\<rparr>)))"

text \<open>\<^verbatim>\<open>sendTo\<close>, with the answers of \<^verbatim>\<open>mq_open\<close>, if it is called, and \<^verbatim>\<open>mq_send\<close>.\<close>

definition sendTo :: "bytes \<Rightarrow> descriptor \<Rightarrow> int \<Rightarrow> 'h mq_service \<Rightarrow> 'h mq_outcome" where
  "sendTo message desc res s =
     and_then (mq_connect desc s) (\<lambda>_ s1.
       let (fSuccess, written) = writeMq (length message) res in
       emit_then [MqSend (m_remoteMqHandle s1) message]
         (returns () (if \<not> fSuccess \<or> length message \<noteq> written then s1\<lparr>m_connected := False\<rparr> else s1)))"

definition sendMessage :: "bytes \<Rightarrow> 'h mq_service \<Rightarrow> 'h mq_outcome" where
  "sendMessage msg s = (case m_toMqMessageQueue s of
       None \<Rightarrow> throws NoQueue s
     | Some line \<Rightarrow> returns () (s\<lparr>m_toMqMessageQueue := Some (line @ [msg])\<rparr>))"

text \<open>The worker of the task queue takes the front task and calls \<^verbatim>\<open>sendTo\<close> with it.\<close>

definition task_runs :: "descriptor \<Rightarrow> int \<Rightarrow> 'h mq_service \<Rightarrow> 'h mq_outcome" where
  "task_runs desc res s = (case m_toMqMessageQueue s of
       Some (msg # line) \<Rightarrow> sendTo msg desc res (s\<lparr>m_toMqMessageQueue := Some line\<rparr>)
     | _ \<Rightarrow> returns () s)"

section \<open>The listening thread\<close>

text \<open>What both \<^verbatim>\<open>catch\<close> clauses and the end of the function do.\<close>

definition listen_caught :: "'h mq_service \<Rightarrow> 'h mq_service" where
  "listen_caught s = s\<lparr>m_runListenThread := False, m_state := False, m_listenThread := L_Finished\<rparr>"

text \<open>From the outer loop condition to the loop for reading.\<close>

definition listen_open :: "open_reply \<Rightarrow> 'h mq_service \<Rightarrow> 'h mq_outcome" where
  "listen_open r s = (if \<not> m_runListenThread s
     then returns () (s\<lparr>m_state := False, m_listenThread := L_Finished\<rparr>)
     else let (h, outs) = openMqRead (m_localMqName s) (m_bufsize s) r; s1 = s\<lparr>m_localMqHandle := h\<rparr>
       in emit_then outs (returns ()
            (if h = INVALID_HANDLE_VALUE then listen_caught s1 else s1\<lparr>m_listenThread := L_Read\<rparr>)))"

definition broken_msg :: bytes where
  "broken_msg = ''Remote broken''"

text \<open>
  One round of the loop for reading, with the answers of \<^verbatim>\<open>mq_receive\<close>, of the two calls
  behind \<^verbatim>\<open>sendTo\<close>, and of the handler (whether it throws a \<^verbatim>\<open>std::exception\<close>).
\<close>

definition listen_read ::
  "bytes option \<Rightarrow> descriptor \<Rightarrow> int \<Rightarrow> bool \<Rightarrow> 'h mq_service \<Rightarrow> 'h mq_outcome"
where
  "listen_read received desc res hndl_throws s = (if \<not> m_runListenThread s
     then returns () (s\<lparr>m_listenThread := L_Open\<rparr>)
     else let s1 = s\<lparr>m_state := True\<rparr>; (fSuccess, cbBytesRead) = readMq received in
       emit_then [MqReceive (m_localMqHandle s) (m_bufsize s)]
        (if \<not> fSuccess \<or> cbBytesRead = 0 then
           if m_server s1 then
             emit_then (closeMq (m_localMqHandle s1))
               (returns () (s1\<lparr>m_connected := False, m_listenThread := L_Open\<rparr>))
           else and_then (sendTo broken_msg desc res s1) (\<lambda>_ s2. returns () (listen_caught s2))
         else case m_messageHandlerFunc s1 of
             Some h \<Rightarrow> emit_then [OnMqMessage h (take cbBytesRead (the received))]
               (returns () (if hndl_throws then listen_caught s1 else s1))
           | None \<Rightarrow> emits [NoMqHandler] s1))"

section \<open>Life of the service\<close>

definition mq_activate :: "(string \<Rightarrow> string option) \<Rightarrow> 'h mq_service \<Rightarrow> 'h mq_outcome" where
  "mq_activate getMemberAsString s = (let
       local = (case getMemberAsString ''LocalMqName'' of Some n \<Rightarrow> n | None \<Rightarrow> m_localMqName s);
       remote = (case getMemberAsString ''RemoteMqName'' of Some n \<Rightarrow> n | None \<Rightarrow> m_remoteMqName s)
     in returns () (s\<lparr>m_connected := False, m_localMqName := MQ_PREFIX @ local,
          m_remoteMqName := MQ_PREFIX @ remote, m_listenThread := L_Open, m_toMqMessageQueue := Some []\<rparr>))"

text \<open>
  The thread is cancelled where it waits, in \<^verbatim>\<open>mq_receive\<close>, and does not reach the end of
  \<^verbatim>\<open>listen\<close>. The worker of the task queue goes on until the destructor of the queue has joined it,
  so a task in its hand, and those it still takes while the listening thread is joined, are sent on
  the closed descriptor: \<open>rounds\<close> are the answers of the operating system to them. The messages
  that wait then go with the queue; the pointer to it is not cleared.
\<close>

fun worker_rounds :: "(descriptor \<times> int) list \<Rightarrow> 'h mq_service \<Rightarrow> 'h mq_outcome" where
  "worker_rounds [] s = returns () s"
| "worker_rounds ((desc, res) # rounds) s =
     and_then (task_runs desc res s) (\<lambda>_ s1. worker_rounds rounds s1)"

definition mq_deactivate :: "(descriptor \<times> int) list \<Rightarrow> 'h mq_service \<Rightarrow> 'h mq_outcome" where
  "mq_deactivate rounds s =
     emit_then (closeMq (m_remoteMqHandle s) @ closeMq (m_localMqHandle s))
       (and_then (worker_rounds rounds (s\<lparr>m_runListenThread := False, m_listenThread := L_None\<rparr>))
         (\<lambda>_ s1. returns () (s1\<lparr>m_toMqMessageQueue := None\<rparr>)))"

definition mq_modify :: "(string \<Rightarrow> string option) \<Rightarrow> 'h mq_service \<Rightarrow> 'h mq_outcome" where
  "mq_modify getMemberAsString s = returns () s"

definition registerMessageHandler :: "'h \<Rightarrow> 'h mq_service \<Rightarrow> 'h mq_outcome" where
  "registerMessageHandler h s = returns () (s\<lparr>m_messageHandlerFunc := Some h\<rparr>)"

definition unregisterMessageHandler :: "'h mq_service \<Rightarrow> 'h mq_outcome" where
  "unregisterMessageHandler s = returns () (s\<lparr>m_messageHandlerFunc := None\<rparr>)"

definition mq_isReady :: "'h mq_service \<Rightarrow> bool" where
  "mq_isReady s = m_state s"

text \<open>The calls of clients and the steps of the two threads.\<close>

datatype 'h mq_call =
    Activate "string \<Rightarrow> string option"
  | Deactivate "(descriptor \<times> int) list"
  | Register 'h
  | Unregister
  | Send bytes
  | TaskRuns descriptor int
  | ListenOpens open_reply
  | ListenReads "bytes option" descriptor int bool

fun mq_step :: "'h mq_service \<Rightarrow> 'h mq_call \<Rightarrow> 'h mq_outcome" where
  "mq_step s (Activate props) = mq_activate props s"
| "mq_step s (Deactivate rounds) = mq_deactivate rounds s"
| "mq_step s (Register h) = registerMessageHandler h s"
| "mq_step s Unregister = unregisterMessageHandler s"
| "mq_step s (Send msg) = sendMessage msg s"
| "mq_step s (TaskRuns desc res) = task_runs desc res s"
| "mq_step s (ListenOpens r) = (if m_listenThread s = L_Open then listen_open r s else returns () s)"
| "mq_step s (ListenReads received desc res hndl_throws) =
     (if m_listenThread s = L_Read then listen_read received desc res hndl_throws s else returns () s)"

lemmas mq_defs = mq_activate_def mq_deactivate_def registerMessageHandler_def
  unregisterMessageHandler_def sendMessage_def task_runs_def listen_open_def listen_read_def
  listen_caught_def sendTo_def mq_connect_def openMqWrite_def openMqRead_def closeMq_def readMq_def writeMq_def
  outcome_simps Let_def

section \<open>The order of messages\<close>

fun sent_payload :: "'h mq_out \<Rightarrow> bytes option" where
  "sent_payload (MqSend desc msg) = (if msg = broken_msg then None else Some msg)"
| "sent_payload _ = None"

fun accepted_message :: "'h mq_call \<Rightarrow> bytes option" where
  "accepted_message (Send msg) = (if msg = broken_msg then None else Some msg)"
| "accepted_message _ = None"

abbreviation sent_messages :: "'h mq_out list \<Rightarrow> bytes list" where
  "sent_messages outs \<equiv> List.map_filter sent_payload outs"

abbreviation accepted_messages :: "'h mq_call list \<Rightarrow> bytes list" where
  "accepted_messages cs \<equiv> List.map_filter accepted_message cs"

fun lifecycle_call :: "'h mq_call \<Rightarrow> bool" where
  "lifecycle_call (Activate props) = True"
| "lifecycle_call (Deactivate rounds) = True"
| "lifecycle_call _ = False"

definition waiting_messages :: "'h mq_service \<Rightarrow> bytes list" where
  "waiting_messages s = (case m_toMqMessageQueue s of
     None \<Rightarrow> [] | Some line \<Rightarrow> filter (\<lambda>m. m \<noteq> broken_msg) line)"

lemma sendTo_sends:
  "sent_messages (outs_of (sendTo msg desc res s)) = (if msg = broken_msg then [] else [msg])"
  "m_toMqMessageQueue (state_of (sendTo msg desc res s)) = m_toMqMessageQueue s"
  by (simp_all add: mq_defs)

lemma sendTo_Inr: "result_of (sendTo msg desc res s) = Inr ()"
  by (simp add: mq_defs)

lemma listen_open_frame:
  "m_toMqMessageQueue (state_of (listen_open r s)) = m_toMqMessageQueue s"
  "sent_messages (outs_of (listen_open r s)) = []"
  by (simp_all add: mq_defs)

lemma listen_read_frame:
  "m_toMqMessageQueue (state_of (listen_read received desc res thr s)) = m_toMqMessageQueue s"
  "sent_messages (outs_of (listen_read received desc res thr s)) = []"
proof -
  let ?s = "s\<lparr>m_state := True\<rparr>"
  note send = sendTo_sends [of broken_msg desc res ?s] sendTo_Inr [of broken_msg desc res ?s]
  show "m_toMqMessageQueue (state_of (listen_read received desc res thr s)) = m_toMqMessageQueue s"
    using send by (auto simp: listen_read_def listen_caught_def outcome_simps Let_def
        split: option.split prod.split)
  show "sent_messages (outs_of (listen_read received desc res thr s)) = []"
    using send by (auto simp: listen_read_def listen_caught_def closeMq_def outcome_simps Let_def
        split: option.split prod.split)
qed

lemma step_order:
  assumes "m_toMqMessageQueue s \<noteq> None" and "\<not> lifecycle_call c"
  shows "m_toMqMessageQueue (state_of (mq_step s c)) \<noteq> None
    \<and> sent_messages (outs_of (mq_step s c)) @ waiting_messages (state_of (mq_step s c))
        = waiting_messages s @ accepted_messages [c]"
proof (cases c)
  case (Send msg)
  with assms show ?thesis by (auto simp: sendMessage_def waiting_messages_def outcome_simps)
next
  case (TaskRuns desc res)
  from assms obtain line where line: "m_toMqMessageQueue s = Some line" by auto
  with TaskRuns show ?thesis
    by (cases line) (simp_all add: task_runs_def waiting_messages_def sendTo_sends outcome_simps)
next
  case (ListenOpens r)
  with assms show ?thesis by (simp add: listen_open_frame waiting_messages_def outcome_simps)
next
  case (ListenReads received desc res thr)
  with assms show ?thesis by (simp add: listen_read_frame waiting_messages_def outcome_simps)
qed (use assms in \<open>simp_all add: registerMessageHandler_def unregisterMessageHandler_def
    waiting_messages_def outcome_simps\<close>)

lemma run_order:
  "m_toMqMessageQueue s \<noteq> None \<Longrightarrow> list_all (\<lambda>c. \<not> lifecycle_call c) cs \<Longrightarrow>
   sent_messages (run_outs mq_step s cs) @ waiting_messages (run_calls mq_step s cs)
     = waiting_messages s @ accepted_messages cs"
proof (induction cs arbitrary: s)
  case (Cons c cs)
  with step_order [of s c] show ?case by (simp split: option.splits)
qed simp

section \<open>When nobody listens\<close>

fun activates :: "'h mq_call \<Rightarrow> bool" where
  "activates (Activate props) = True"
| "activates _ = False"

text \<open>Calls only a listening thread makes.\<close>

fun not_listening_call :: "'h mq_out \<Rightarrow> bool" where
  "not_listening_call (MqOpenRead name n m) = False"
| "not_listening_call (MqReceive desc n) = False"
| "not_listening_call (OnMqMessage h msg) = False"
| "not_listening_call _ = True"

definition deaf :: "'h mq_service \<Rightarrow> bool" where
  "deaf s \<longleftrightarrow> m_listenThread s \<in> {L_None, L_Finished} \<and> \<not> m_state s"


lemma sendTo_frame:
  "list_all not_listening_call (outs_of (sendTo msg desc res s))"
  "m_listenThread (state_of (sendTo msg desc res s)) = m_listenThread s"
  "m_state (state_of (sendTo msg desc res s)) = m_state s"
  "m_runListenThread (state_of (sendTo msg desc res s)) = m_runListenThread s"
  by (simp_all add: mq_defs)

lemma task_runs_frame:
  "list_all not_listening_call (outs_of (task_runs desc res s))"
  "m_listenThread (state_of (task_runs desc res s)) = m_listenThread s"
  "m_state (state_of (task_runs desc res s)) = m_state s"
  "m_runListenThread (state_of (task_runs desc res s)) = m_runListenThread s"
  by (simp_all add: task_runs_def outcome_simps sendTo_frame split: option.split list.split)

lemma task_runs_Inr: "result_of (task_runs desc res s) = Inr ()"
  by (simp add: task_runs_def sendTo_Inr outcome_simps split: option.split list.split)

lemma worker_rounds_frame:
  "list_all not_listening_call (outs_of (worker_rounds rounds s))"
  "m_listenThread (state_of (worker_rounds rounds s)) = m_listenThread s"
  "m_state (state_of (worker_rounds rounds s)) = m_state s"
  "m_runListenThread (state_of (worker_rounds rounds s)) = m_runListenThread s"
  "result_of (worker_rounds rounds s) = Inr ()"
  by (induction rounds s rule: worker_rounds.induct)
     (simp_all add: outcome_simps task_runs_frame task_runs_Inr)

lemmas mq_frame_simps = task_runs_frame worker_rounds_frame mq_activate_def mq_deactivate_def sendMessage_def closeMq_def
  registerMessageHandler_def unregisterMessageHandler_def outcome_simps Let_def

interpretation deaf: observed_sequence mq_step "\<lambda>c. \<not> activates c" deaf not_listening_call
proof unfold_locales
  fix s :: "'a mq_service" and c :: "'a mq_call"
  assume "deaf s" and "\<not> activates c"
  then show "deaf (state_of (mq_step s c))"
    by (cases c) (auto simp: deaf_def mq_frame_simps split: option.split)
next
  fix s :: "'a mq_service" and c :: "'a mq_call"
  assume "deaf s" and "\<not> activates c"
  then show "list_all not_listening_call (outs_of (mq_step s c))"
    by (cases c) (auto simp: deaf_def mq_frame_simps split: option.split)
qed


section \<open>Properties\<close>

text \<open>
  Messages go out in the order they are accepted, each once. Over any run of calls and
  thread steps between \<^verbatim>\<open>activate\<close> and \<^verbatim>\<open>deactivate\<close>, the messages handed to
  \<^verbatim>\<open>mq_send\<close> followed by those still waiting are those that waited at the start followed by
  those accepted since; a message whose \<^verbatim>\<open>mq_send\<close> fails is not tried again. (The text
  \<^verbatim>\<open>Remote broken\<close> is left out of the count: the listening thread sends it as well.)
\<close>

theorem mq_messages_in_order:
  assumes "m_toMqMessageQueue s \<noteq> None" and "list_all (\<lambda>c. \<not> lifecycle_call c) cs"
  shows "sent_messages (run_outs mq_step s cs) @ waiting_messages (run_calls mq_step s cs)
    = waiting_messages s @ accepted_messages cs"
  using assms by (rule run_order)

definition mq_active :: "nat mq_service" where
  "mq_active = state_of (mq_activate (\<lambda>_. None) (mq_service0\<lparr>m_messageHandlerFunc := Some 1\<rparr>))"

theorem mq_messages_in_order_witness:
  "sent_messages (run_outs mq_step mq_active [Send ''a'', Send ''b'', TaskRuns 5 (-1), TaskRuns 6 0])
    = [''a'', ''b'']"
proof -
  let ?cs = "[Send ''a'', Send ''b'', TaskRuns 5 (-1), TaskRuns 6 0] :: nat mq_call list"
  have "m_toMqMessageQueue mq_active \<noteq> None" "waiting_messages mq_active = []"
    by (simp_all add: mq_active_def mq_activate_def waiting_messages_def outcome_simps Let_def)
  moreover have "waiting_messages (run_calls mq_step mq_active ?cs) = []"
    by (simp add: mq_active_def waiting_messages_def mq_defs mq_service0_def)
  ultimately show ?thesis using mq_messages_in_order [of mq_active ?cs] by (simp add: broken_msg_def)
qed

text \<open>
  A failed write reconnects, once per message. After a \<^verbatim>\<open>sendTo\<close> the next one writes to
  the same descriptor without opening anything when the first connected and its write succeeded;
  otherwise it closes the old descriptor, opens the remote queue anew and writes to what that
  gave, the invalid descriptor included.
\<close>

theorem mq_send_reconnects:
  "let s1 = state_of (sendTo m desc res s) in
    outs_of (sendTo m' desc' res' s1) =
     (if res = 0 \<and> (if desc = INVALID_HANDLE_VALUE then m_connected s else True)
      then [MqSend (m_remoteMqHandle s1) m']
      else [MqClose (m_remoteMqHandle s1), MqOpenWrite (m_remoteMqName s)]
             @ (if 0 < desc' then [MqGetattr desc'] else []) @ [MqSend desc' m'])
    \<and> m_remoteMqHandle s1 = (if m_connected s then m_remoteMqHandle s else desc)"
  by (simp add: mq_defs)

text \<open>
  One failed read ends the listening for good. When \<^verbatim>\<open>mq_receive\<close> fails, or delivers an
  empty message, which POSIX queues allow, the thread sends \<^verbatim>\<open>Remote broken\<close> and ends; from
  then on no call other than a new \<^verbatim>\<open>activate\<close> lets the service open its queue, receive or
  call the handler, and it is not ready. (\<^verbatim>\<open>m_server\<close>, which would make it listen again, is
  never set.)
\<close>

theorem mq_failed_read_ends_listening:
  assumes "m_listenThread s = L_Read" and "m_runListenThread s" and "\<not> m_server s"
    and "received = None \<or> received = Some []" and "list_all (\<lambda>c. \<not> activates c) cs"
  shows "let r = mq_step s (ListenReads received desc res thr) in
    MqSend (m_remoteMqHandle (state_of r)) broken_msg \<in> set (outs_of r)
    \<and> list_all not_listening_call (run_outs mq_step (state_of r) cs)
    \<and> \<not> mq_isReady (run_calls mq_step (state_of r) cs)"
proof -
  let ?r = "mq_step s (ListenReads received desc res thr)"
  have "deaf (state_of ?r)" and sent: "MqSend (m_remoteMqHandle (state_of ?r)) broken_msg \<in> set (outs_of ?r)"
    using assms(1-4) by (auto simp: deaf_def mq_defs)
  from deaf.run_keeps [OF this(1) assms(5)] deaf.run_visible [OF this(1) assms(5)] sent
  show ?thesis by (simp add: Let_def deaf_def mq_isReady_def del: mq_step.simps)
qed

definition mq_reading :: "nat mq_service" where
  "mq_reading = run_calls mq_step mq_active [ListenOpens \<lparr>or_open = 3, or_getattr = 0, or_maxmsg = 32,
     or_msgsize = 2048, or_unlink = 0, or_enoent = False, or_reopen = 0\<rparr>]"

lemma mq_reading_sel:
  "m_listenThread mq_reading = L_Read" "m_runListenThread mq_reading" "\<not> m_server mq_reading"
  by (simp_all add: mq_reading_def mq_active_def mq_defs mq_service0_def)

theorem mq_failed_read_ends_listening_witness:
  "let s = state_of (mq_step mq_reading (ListenReads (Some []) 7 0 False)) in
   list_all not_listening_call (run_outs mq_step s [ListenReads (Some ''x'') 7 0 False])
   \<and> \<not> mq_isReady (run_calls mq_step s [ListenReads (Some ''x'') 7 0 False])"
  using mq_failed_read_ends_listening [of mq_reading "Some []" "[ListenReads (Some ''x'') 7 0 False]" 7 0 False]
  by (simp add: mq_reading_sel Let_def del: mq_step.simps)



end
