(* ===== verification/Command_Service.thy ===== *)
theory Command_Service
  imports Std_Map Std_String
begin

text \<open>
  \<^verbatim>\<open>src/CommandService/CommandService.cpp\<close>, the registry of commands with the two it
  registers itself, and \<^verbatim>\<open>src/CommandLineService/CommandLineService.cpp\<close>, the thread that
  reads lines and runs them. Commands of other components are of the type \<open>'c\<close> and known by
  two functions: the text of \<^verbatim>\<open>getHelp\<close>, and \<^verbatim>\<open>doCmd\<close>, which returns the text to print or
  throws an exception with a text, and makes calls of its own.
\<close>

section \<open>The registry\<close>

datatype 'c command = HelpCommand | QuitCommand | Registered 'c

record 'c command_service =
  m_commands :: "(string, 'c command) std_map"
  m_defaultCmd :: "'c command option"
  m_quitFlg :: bool

definition command_service0 :: "'c command_service" where
  "command_service0 = \<lparr>m_commands = [], m_defaultCmd = None, m_quitFlg = False\<rparr>"

datatype 'o cmd_out =
    Print string
  | RaiseSigint
  | CommandCalls 'o

record ('c, 'o) command_env =
  env_getHelp :: "'c \<Rightarrow> string"
  env_doCmd :: "'c \<Rightarrow> string \<Rightarrow> (string + string) \<times> 'o list"

type_synonym ('a, 'c, 'o) cmd_outcome = "(string, 'a, 'o cmd_out, 'c command_service) outcome"

text \<open>
  Registering and removing; the flag is false when the function only writes a warning to the
  trace, for a name that is taken, or not there.
\<close>

definition addCommand :: "string \<Rightarrow> 'c command \<Rightarrow> 'c command_service \<Rightarrow> bool \<times> 'c command_service" where
  "addCommand cmdStr cmd s = (let (inserted, cmds) = sm_insert cmdStr cmd (m_commands s) in
     (inserted, s\<lparr>m_commands := cmds\<rparr>))"

definition removeCommand :: "string \<Rightarrow> 'c command_service \<Rightarrow> bool \<times> 'c command_service" where
  "removeCommand cmdStr s =
     (sm_find (m_commands s) cmdStr \<noteq> None, s\<lparr>m_commands := sm_erase cmdStr (m_commands s)\<rparr>)"

definition findCommand :: "string \<Rightarrow> 'c command_service \<Rightarrow> 'c command option" where
  "findCommand cmdStr s = sm_find (m_commands s) cmdStr"

definition getDefaultCommand :: "'c command_service \<Rightarrow> 'c command option" where
  "getDefaultCommand s = m_defaultCmd s"

definition isQuiting :: "'c command_service \<Rightarrow> bool" where
  "isQuiting s = m_quitFlg s"

definition setQuit :: "'c command_service \<Rightarrow> 'c command_service" where
  "setQuit s = s\<lparr>m_quitFlg := True\<rparr>"

definition command_activate :: "'c command_service \<Rightarrow> 'c command_service" where
  "command_activate s = (let
       s1 = s\<lparr>m_defaultCmd := Some HelpCommand\<rparr>;
       s2 = snd (addCommand ''h'' HelpCommand s1)
     in snd (addCommand ''q'' QuitCommand s2))"

fun command_help :: "('c, 'o) command_env \<Rightarrow> 'c command \<Rightarrow> string" where
  "command_help env HelpCommand = ''for help''"
| "command_help env QuitCommand = ''for quit''"
| "command_help env (Registered c) = env_getHelp env c"

text \<open>The line of a command in the help: the name in ten columns, and its text.\<close>

definition help_line :: "('c, 'o) command_env \<Rightarrow> string \<times> 'c command \<Rightarrow> string" where
  "help_line env cmd = pad_right 10 (fst cmd) @ command_help env (snd cmd) @ newline"

fun command_do ::
  "('c, 'o) command_env \<Rightarrow> 'c command \<Rightarrow> string \<Rightarrow> 'c command_service \<Rightarrow> (string, 'c, 'o) cmd_outcome"
where
  "command_do env HelpCommand params s = returns (concat (map (help_line env) (m_commands s))) s"
| "command_do env QuitCommand params s =
     emit_then [RaiseSigint] (returns ''quit command invoked'' (setQuit s))"
| "command_do env (Registered c) params s =
     (let (result, calls) = env_doCmd env c params in (result, map CommandCalls calls, s))"

section \<open>The command line\<close>

text \<open>
  One line that is not empty. An exception of a registered command is caught and printed, one
  of the default command is not caught and ends the process.
\<close>

definition run_line ::
  "('c, 'o) command_env \<Rightarrow> string \<Rightarrow> 'c command_service \<Rightarrow> (unit, 'c, 'o) cmd_outcome"
where
  "run_line env cmdLine s = (let cmdStr = fst (extract_word cmdLine) in
     case findCommand cmdStr s of
       Some cmd \<Rightarrow> (let r = command_do env cmd cmdLine s in
         (case result_of r of
            Inr text \<Rightarrow> (Inr (), outs_of r @ [Print (text @ newline)], state_of r)
          | Inl what \<Rightarrow> (Inr (), outs_of r @
              [Print (''Command failure with an exception: '' @ what @ newline)], state_of r)))
     | None \<Rightarrow> emit_then [Print (''Unknown command: '' @ cmdStr @ newline)]
         (case getDefaultCommand s of
            Some cmd \<Rightarrow> and_then (command_do env cmd cmdLine s)
              (\<lambda>text s1. emits [Print (text @ newline)] s1)
          | None \<Rightarrow> returns () s))"

text \<open>
  \<^verbatim>\<open>runThd\<close> on the text that is left on the standard input. The first number is how often the
  loop condition still finds \<^verbatim>\<open>m_runThdFlg\<close> set, which another thread clears.
\<close>

fun runThd ::
  "('c, 'o) command_env \<Rightarrow> nat \<Rightarrow> string \<Rightarrow> 'c command_service \<Rightarrow> (unit, 'c, 'o) cmd_outcome"
where
  "runThd env 0 input s = emits [Print newline] s"
| "runThd env (Suc n) input s =
     (if isQuiting s then emits [Print newline] s
      else emit_then [Print ''cmd> '']
        (let (cmdLine, rdstate, input') = get_line CHR 0x0A input in
         if rdstate then emits [Print newline] s
         else if cmdLine = [] then runThd env n input' s
         else and_then (run_line env cmdLine s) (\<lambda>_ s1. runThd env n input' s1)))"

section \<open>The interface of the registry\<close>

locale command_registry =
  fixes add :: "string \<Rightarrow> 'c \<Rightarrow> 's \<Rightarrow> 's"
    and remove :: "string \<Rightarrow> 's \<Rightarrow> 's"
    and lookup :: "string \<Rightarrow> 's \<Rightarrow> 'c option"
    and wf :: "'s \<Rightarrow> bool"
  assumes wf_add: "wf s \<Longrightarrow> wf (add n c s)"
    and wf_remove: "wf s \<Longrightarrow> wf (remove n s)"
    and lookup_add: "wf s \<Longrightarrow>
      lookup n' (add n c s) = (if n' = n \<and> lookup n s = None then Some c else lookup n' s)"
    and lookup_remove: "wf s \<Longrightarrow> lookup n' (remove n s) = (if n' = n then None else lookup n' s)"
begin

lemma first_wins: "wf s \<Longrightarrow> lookup n s = None \<Longrightarrow> lookup n (add n c' (add n c s)) = Some c"
  by (simp add: lookup_add wf_add)

lemma removed_replaced: "wf s \<Longrightarrow> lookup n (add n c (remove n s)) = Some c"
  by (simp add: lookup_add lookup_remove wf_remove)

text \<open>A command stays as it is, however many registrations of any name follow.\<close>

lemma keeps_registered:
  "wf s \<Longrightarrow> lookup n s = Some c \<Longrightarrow> lookup n (fold (\<lambda>(m, d). add m d) ps s) = Some c"
proof (induction ps arbitrary: s)
  case (Cons p ps)
  obtain m d where p: "p = (m, d)" by (cases p)
  from Cons.prems have "lookup n (add m d s) = Some c" by (auto simp: lookup_add)
  with Cons.IH [OF wf_add [OF Cons.prems(1)]] show ?case by (simp add: p)
qed simp

lemma add_remove_other: "wf s \<Longrightarrow> n' \<noteq> n \<Longrightarrow> lookup n' (remove n (add n c s)) = lookup n' s"
  by (simp add: lookup_remove lookup_add wf_add)

end

definition registry_inv :: "'c command_service \<Rightarrow> bool" where
  "registry_inv s \<longleftrightarrow> sm_inv (m_commands s)"

interpretation registry: command_registry
    "\<lambda>n c s. snd (addCommand n c s)" "\<lambda>n s. snd (removeCommand n s)" findCommand registry_inv
  by unfold_locales
     (simp_all add: addCommand_def removeCommand_def findCommand_def registry_inv_def outcome_simps
       sm_inv_erase sm_insert_inv sm_find_insert sm_find_erase case_prod_unfold Let_def)

section \<open>The lines of the input\<close>

text \<open>What the thread is meant to do with the lines: run them in order until a quit.\<close>

fun exec_lines ::
  "('c, 'o) command_env \<Rightarrow> string list \<Rightarrow> 'c command_service \<Rightarrow> (unit, 'c, 'o) cmd_outcome"
where
  "exec_lines env [] s = emits (if isQuiting s then [Print newline] else [Print ''cmd> '', Print newline]) s"
| "exec_lines env (l # ls) s =
     (if isQuiting s then emits [Print newline] s
      else emit_then [Print ''cmd> '']
        (if l = [] then exec_lines env ls s
         else and_then (run_line env l s) (\<lambda>_ s1. exec_lines env ls s1)))"

abbreviation unlines :: "string list \<Rightarrow> string" where
  "unlines ls \<equiv> concat (map (\<lambda>l. l @ newline) ls)"

lemma runThd_lines:
  assumes "\<forall>l \<in> set ls. CHR 0x0A \<notin> set l" and "CHR 0x0A \<notin> set rest" and "length ls < n"
  shows "runThd env n (unlines ls @ rest) s = exec_lines env ls s"
  using assms(1,3)
proof (induction ls arbitrary: n s)
  case Nil
  then obtain m where "n = Suc m" by (cases n) auto
  with assms(2) show ?case by (simp add: get_line_last emits_def emit_then_def)
next
  case (Cons l ls)
  then obtain m where n: "n = Suc m" "length ls < m" by (cases n) auto
  from Cons.prems have "get_line CHR 0x0A (l @ CHR 0x0A # unlines ls @ rest) = (l, False, unlines ls @ rest)"
    by (intro get_line_terminated) simp
  moreover have "runThd env m (unlines ls @ rest) = exec_lines env ls"
    using Cons.IH [of m] Cons.prems n by (intro ext) simp
  ultimately show ?case by (simp add: n)
qed

lemma exec_lines_quitting: "isQuiting s \<Longrightarrow> exec_lines env ls s = emits [Print newline] s"
  by (cases ls) simp_all

section \<open>Properties\<close>

text \<open>
  The first registration of a name stands. Once a name is registered, no later registration,
  of it or of other names, changes the command it finds; after a removal it finds nothing and can
  be registered anew.
\<close>

theorem command_first_registration_stands:
  assumes "registry_inv s" and "findCommand n s = None"
  shows "findCommand n (fold (\<lambda>(m, d) t. snd (addCommand m d t)) ps (snd (addCommand n c s))) = Some c
    \<and> findCommand n (snd (removeCommand n s)) = None
    \<and> findCommand n (snd (addCommand n d (snd (removeCommand n (snd (addCommand n c s)))))) = Some d"
proof -
  note wf = registry.wf_add [OF assms(1), of n c]
  have "findCommand n (snd (addCommand n c s)) = Some c"
    using assms by (simp add: registry.lookup_add)
  from registry.keeps_registered [OF wf this, of ps] registry.removed_replaced [OF wf, of n d]
    registry.lookup_remove [OF assms(1)]
  show ?thesis by simp
qed

theorem command_first_registration_stands_witness:
  "findCommand ''x'' (fold (\<lambda>(m, d) t. snd (addCommand m d t)) [(''x'', Registered 2), (''y'', QuitCommand)]
     (snd (addCommand ''x'' (Registered 1) command_service0))) = Some (Registered (1 :: nat))"
  by (rule command_first_registration_stands [THEN conjunct1])
     (simp_all add: registry_inv_def command_service0_def findCommand_def)

text \<open>
  The command line runs the lines it is given. For an input of lines that end in a newline,
  and a thread that is not stopped from outside meanwhile, the thread runs the lines in order,
  skipping empty ones, until one has set the quit flag. What follows the last newline is never
  run, whatever it is.
\<close>

theorem command_line_runs_lines:
  assumes "\<forall>l \<in> set ls. CHR 0x0A \<notin> set l" and "CHR 0x0A \<notin> set rest" and "length ls < n"
  shows "runThd env n (unlines ls @ rest) s = exec_lines env ls s"
  using assms by (rule runThd_lines)

definition no_commands :: "(nat, nat) command_env" where
  "no_commands = \<lparr>env_getHelp = (\<lambda>_. []), env_doCmd = (\<lambda>_ _. (Inl ''no'', []))\<rparr>"

theorem command_line_runs_lines_witness:
  "runThd no_commands 5 (''q'' @ newline @ ''q'') (command_activate command_service0)
     = exec_lines no_commands [''q''] (command_activate command_service0)"
  using command_line_runs_lines [of "[''q'']" "''q''" 5 no_commands] by simp

text \<open>
  \<^verbatim>\<open>q\<close> is the last line. When the name of a line is the registered quit command, the
  flag is set, the signal is raised, and of all that is left of the input nothing is run, however
  long the thread is left running.
\<close>

theorem command_line_quit_is_last:
  assumes "findCommand (fst (extract_word l)) s = Some QuitCommand" and "l \<noteq> []"
    and "CHR 0x0A \<notin> set l" and "\<not> isQuiting s"
  shows "runThd env (Suc n) (l @ newline @ rest) s =
    (Inr (), [Print ''cmd> '', RaiseSigint, Print (''quit command invoked'' @ newline), Print newline],
     s\<lparr>m_quitFlg := True\<rparr>)"
proof -
  note get = get_line_terminated [OF assms(3), of rest]
  have quit: "runThd env n rest (s\<lparr>m_quitFlg := True\<rparr>) = emits [Print newline] (s\<lparr>m_quitFlg := True\<rparr>)"
    by (cases n) (simp_all add: isQuiting_def)
  have line: "run_line env l s = (Inr (), [RaiseSigint, Print (''quit command invoked'' @ newline)],
      s\<lparr>m_quitFlg := True\<rparr>)"
    using assms(1) by (simp add: run_line_def setQuit_def outcome_simps Let_def)
  show ?thesis
    using assms(2,4) by (simp add: get line quit outcome_simps emit_then_def emits_def)
qed

theorem command_line_quit_is_last_witness:
  "outs_of (runThd no_commands 9 (''q'' @ newline @ ''h'' @ newline) (command_activate command_service0))
     = [Print ''cmd> '', RaiseSigint, Print (''quit command invoked'' @ newline), Print newline]"
proof -
  let ?s = "command_activate command_service0 :: nat command_service"
  have "findCommand (fst (extract_word ''q'')) ?s = Some QuitCommand" "\<not> isQuiting ?s"
    by (simp_all add: command_activate_def command_service0_def addCommand_def findCommand_def
        sm_insert_def isQuiting_def extract_word_def is_space_def outcome_simps)
  from command_line_quit_is_last [OF this(1) _ _ this(2), of no_commands 8 "''h'' @ newline"]
  show ?thesis by simp
qed

end
