(* ===== verification/Msg_Cmd.thy ===== *)
theory Msg_Cmd
  imports Command_Service Mq_Message
begin

text \<open>
  The two examples that use a message service: \<^verbatim>\<open>src/examples/MsgCmd/MsgCmd.cpp\<close>, a command
  of the command line that sends what the user gives it, and
  \<^verbatim>\<open>src/examples/MsgCmdEcho/MsgCmdEcho.cpp\<close>, a handler that sends back what it receives,
  here on the service of \<open>Mq_Message\<close>.
\<close>

section \<open>The command\<close>

definition msgcmd_usage :: string where
  "msgcmd_usage = pad_right 15 ''c h'' @ ''show help'' @ newline
     @ pad_right 15 ''c f file'' @ ''send content of file'' @ newline
     @ pad_right 15 (''c t '' @ [CHR 0x22] @ ''text'' @ [CHR 0x22]) @ ''send text'' @ newline
     @ newline"

text \<open>
  What the command meets: the content of a file, if it can be opened, the text the tracing macro
  \<^verbatim>\<open>PAR\<close> makes of a variable, and the exception of \<^verbatim>\<open>sendMessage\<close>, if it throws one.
\<close>

record msgcmd_env =
  mc_file :: "string \<Rightarrow> string option"
  mc_PAR :: "string \<Rightarrow> string \<Rightarrow> string"
  mc_sendMessage :: "bytes \<Rightarrow> string option"

definition msgcmd_send :: "msgcmd_env \<Rightarrow> bytes \<Rightarrow> (string + string) \<times> bytes list" where
  "msgcmd_send env msg = (case mc_sendMessage env msg of
     None \<Rightarrow> (Inr [], [msg]) | Some what \<Rightarrow> (Inl what, [msg]))"

definition msgcmd_doCmd :: "msgcmd_env \<Rightarrow> string \<Rightarrow> (string + string) \<times> bytes list" where
  "msgcmd_doCmd env params = (let
       (cmd, istr) = extract_word params;
       (subcmd, istr) = extract_word istr
     in if subcmd = ''h'' then (Inr msgcmd_usage, [])
        else if subcmd = ''f'' then
          (let (fname, istr) = extract_word istr in
           case mc_file env fname of
             Some fileContent \<Rightarrow>
               if fileContent \<noteq> [] then msgcmd_send env fileContent
               else (Inr (''Empty file: '' @ mc_PAR env ''fname'' fname), [])
           | None \<Rightarrow> (Inr (''Cannot open: '' @ mc_PAR env ''fname'' fname), []))
        else if subcmd = ''t'' then
          (let (text, istr) = extract_word istr in
           if text \<noteq> [] then msgcmd_send env text else (Inr ''Add text to send'', []))
        else (Inr (''usage: '' @ newline @ msgcmd_usage), []))"

definition msgcmd_getHelp :: string where
  "msgcmd_getHelp = ''to communicate with msg. Type c h for help''"

text \<open>The command line with this command registered under \<^verbatim>\<open>c\<close>.\<close>

definition msgcmd_command_env :: "msgcmd_env \<Rightarrow> (unit, bytes) command_env" where
  "msgcmd_command_env env =
     \<lparr>env_getHelp = (\<lambda>_. msgcmd_getHelp), env_doCmd = (\<lambda>_. msgcmd_doCmd env)\<rparr>"

definition msgcmd_activate :: "unit command_service \<Rightarrow> unit command_service" where
  "msgcmd_activate s = snd (addCommand ''c'' (Registered ()) s)"

definition msgcmd_deactivate :: "unit command_service \<Rightarrow> unit command_service" where
  "msgcmd_deactivate s = snd (removeCommand ''c'' s)"

section \<open>The echo\<close>

text \<open>The messages a step hands to the handler, and the handler: it sends each of them.\<close>

fun received_message :: "'h mq_out \<Rightarrow> bytes option" where
  "received_message (OnMqMessage h msg) = Some msg"
| "received_message _ = None"

fun echo_all :: "bytes list \<Rightarrow> 'h mq_service \<Rightarrow> 'h mq_outcome" where
  "echo_all [] s = returns () s"
| "echo_all (msg # msgs) s = and_then (sendMessage msg s) (\<lambda>_ s1. echo_all msgs s1)"

definition echo_step :: "'h mq_service \<Rightarrow> 'h mq_call \<Rightarrow> 'h mq_outcome" where
  "echo_step s c = (let r = mq_step s c in
     and_then r (\<lambda>_ s1. echo_all (List.map_filter received_message (outs_of r)) s1))"

lemma echo_all_sends:
  assumes "m_toMqMessageQueue s = Some line"
  shows "echo_all msgs s = (Inr (), [], s\<lparr>m_toMqMessageQueue := Some (line @ msgs)\<rparr>)"
  using assms
proof (induction msgs arbitrary: s line)
  case Nil
  then show ?case by (simp add: returns_def)
next
  case (Cons msg msgs)
  from Cons.prems have "sendMessage msg s = (Inr (), [], s\<lparr>m_toMqMessageQueue := Some (line @ [msg])\<rparr>)"
    by (simp add: sendMessage_def returns_def)
  with Cons.IH [of "s\<lparr>m_toMqMessageQueue := Some (line @ [msg])\<rparr>"] show ?case
    by (simp add: and_then_def)
qed

text \<open>The calls the echo is alone with: no one else sends.\<close>

fun foreign_call :: "'h mq_call \<Rightarrow> bool" where
  "foreign_call (Send msg) = True"
| "foreign_call c = lifecycle_call c"

abbreviation answerable :: "'h mq_out list \<Rightarrow> bytes list" where
  "answerable outs \<equiv> filter (\<lambda>m. m \<noteq> broken_msg) (List.map_filter received_message outs)"

lemma mq_step_Inr: "m_toMqMessageQueue s \<noteq> None \<Longrightarrow> result_of (mq_step s c) = Inr ()"
  by (cases c) (auto simp: mq_defs worker_rounds_frame split: option.split list.split)

lemma echo_step_order:
  assumes "m_toMqMessageQueue s \<noteq> None" and "\<not> foreign_call c"
  shows "m_toMqMessageQueue (state_of (echo_step s c)) \<noteq> None
    \<and> sent_messages (outs_of (echo_step s c)) @ waiting_messages (state_of (echo_step s c))
        = waiting_messages s @ answerable (outs_of (echo_step s c))"
proof -
  let ?r = "mq_step s c" and ?msgs = "List.map_filter received_message (outs_of (mq_step s c))"
  from assms(2) have "\<not> lifecycle_call c" and quiet: "accepted_message c = None" by (cases c, simp_all)+
  from step_order [OF assms(1) this(1)] obtain line
    where line: "m_toMqMessageQueue (state_of ?r) = Some line"
      and order: "sent_messages (outs_of ?r) @ waiting_messages (state_of ?r) = waiting_messages s"
    by (auto simp: quiet)
  have "echo_step s c = (Inr (), outs_of ?r, (state_of ?r)\<lparr>m_toMqMessageQueue := Some (line @ ?msgs)\<rparr>)"
    using mq_step_Inr [OF assms(1), of c] by (simp add: echo_step_def echo_all_sends [OF line] and_then_def Let_def)
  with line order show ?thesis by (simp add: waiting_messages_def flip: append_assoc)
qed

section \<open>Properties\<close>

text \<open>
  \<^verbatim>\<open>c t\<close> sends one word. Of the text after \<^verbatim>\<open>c t\<close> the command sends what stands before
  the first white space, a quotation mark included, and nothing of what follows; the help
  promises \<^verbatim>\<open>c t "text"\<close>.
\<close>

theorem msgcmd_sends_one_word:
  assumes "\<forall>c \<in> set w. \<not> is_space c" and "w \<noteq> []" and "mc_sendMessage env w = None"
  shows "msgcmd_doCmd env (''c t '' @ w @ '' '' @ rest) = (Inr [], [w])"
proof -
  have sp: "is_space CHR '' ''" by (simp add: is_space_def)
  have "extract_word (''c'' @ CHR '' '' # ''t '' @ w @ '' '' @ rest) = (''c'', CHR '' '' # ''t '' @ w @ '' '' @ rest)"
    by (rule extract_word_append) (simp_all add: is_space_def)
  moreover have "extract_word (CHR '' '' # ''t'' @ CHR '' '' # w @ '' '' @ rest) = (''t'', CHR '' '' # w @ '' '' @ rest)"
    unfolding extract_word_skip [OF sp] by (rule extract_word_append) (simp_all add: is_space_def)
  moreover have "extract_word (CHR '' '' # w @ CHR '' '' # rest) = (w, CHR '' '' # rest)"
    unfolding extract_word_skip [OF sp] by (rule extract_word_append [OF assms(1,2) sp])
  ultimately show ?thesis using assms(2,3) by (simp add: msgcmd_doCmd_def msgcmd_send_def)
qed

definition msgcmd_env0 :: msgcmd_env where
  "msgcmd_env0 = \<lparr>mc_file = (\<lambda>_. None), mc_PAR = (\<lambda>n v. n @ ''='' @ v), mc_sendMessage = (\<lambda>_. None)\<rparr>"

theorem msgcmd_sends_one_word_witness:
  "msgcmd_doCmd msgcmd_env0 (''c t '' @ (CHR 0x22 # ''hello'') @ '' '' @ ''world'' @ [CHR 0x22])
     = (Inr [], [CHR 0x22 # ''hello''])"
  using msgcmd_sends_one_word [of "CHR 0x22 # ''hello''" msgcmd_env0 "''world'' @ [CHR 0x22]"]
  by (simp add: is_space_def msgcmd_env0_def)

text \<open>
  The echo answers every message once and in order. Over any run of a message service whose
  handler is the echo and that nobody else sends to, the messages handed to \<^verbatim>\<open>mq_send\<close> and
  those still waiting are the ones that waited at the start and then the ones received.
\<close>

theorem echo_answers_in_order:
  assumes "m_toMqMessageQueue s \<noteq> None" and "list_all (\<lambda>c. \<not> foreign_call c) cs"
  shows "sent_messages (run_outs echo_step s cs) @ waiting_messages (run_calls echo_step s cs)
    = waiting_messages s @ answerable (run_outs echo_step s cs)"
  using assms
proof (induction cs arbitrary: s)
  case (Cons c cs)
  with echo_step_order [of s c] Cons.IH [of "state_of (echo_step s c)"] show ?case
    by simp
qed simp

theorem echo_answers_in_order_witness:
  "sent_messages (run_outs echo_step mq_reading [ListenReads (Some ''ab'') 0 0 False, TaskRuns 5 0])
    = [''ab'']"
proof -
  let ?cs = "[ListenReads (Some ''ab'') 0 0 False, TaskRuns 5 0] :: nat mq_call list"
  have "m_toMqMessageQueue mq_reading \<noteq> None" "waiting_messages mq_reading = []"
    by (simp_all add: mq_reading_def mq_active_def mq_defs mq_service0_def waiting_messages_def)
  moreover have "waiting_messages (run_calls echo_step mq_reading ?cs) = []"
      "answerable (run_outs echo_step mq_reading ?cs) = [''ab'']"
    by (simp_all add: echo_step_def mq_reading_def mq_active_def mq_defs mq_service0_def
        waiting_messages_def broken_msg_def)
  ultimately show ?thesis using echo_answers_in_order [of mq_reading ?cs] by simp
qed

end
