(* ===== verification/Ws_Server.thy ===== *)
theory Ws_Server
  imports Shape_Prelude Std_String Topic
begin

text \<open>
  The server endpoint under \<^verbatim>\<open>src/WebsocketCppService\<close>: the handlers \<^verbatim>\<open>WsServer.h\<close> puts
  between the websocketpp library and the service, and the TLS settings of
  \<^verbatim>\<open>WsServerTls.cpp\<close>. A connection handle is a number, ordered as \<^verbatim>\<open>std::owner_less\<close>
  orders handles. What the library reports is an argument, the functions of the service are
  events passed on to it.
\<close>

section \<open>Handlers of the endpoint\<close>

type_synonym connection_hdl = nat

text \<open>The parameters of a connection \<^verbatim>\<open>getConnParams\<close> and the URI give.\<close>

record conn_params =
  cp_connId :: string
  cp_host :: string
  cp_query :: string

datatype ws_event =
    EvValidate connection_hdl string string
  | EvOpen connection_hdl string string string
  | EvFail connection_hdl string
  | EvClose connection_hdl
  | EvMessage connection_hdl string

datatype ws_report =
    Validating connection_hdl conn_params
  | Opened connection_hdl conn_params
  | Failed connection_hdl string
  | Closed connection_hdl
  | Received connection_hdl string

text \<open>
  The payload the message handler passes on: a \<^verbatim>\<open>std::string\<close> made from the
  \<^verbatim>\<open>const char*\<close> of the payload.
\<close>

definition msgPayload :: "string \<Rightarrow> string" where
  "msgPayload payload = of_c_str payload"

text \<open>
  The handlers set in the constructor, with the functions set (\<^verbatim>\<open>true\<close>) or not; without its
  function a handler only warns. Validation without a function refuses.
\<close>

fun ws_handler :: "bool \<Rightarrow> ws_report \<Rightarrow> ws_event option" where
  "ws_handler functions_set (Validating hdl p) =
     (if functions_set then Some (EvValidate hdl (cp_connId p) (cp_host p)) else None)"
| "ws_handler functions_set (Opened hdl p) =
     (if functions_set then Some (EvOpen hdl (cp_connId p) (cp_host p) (cp_query p)) else None)"
| "ws_handler functions_set (Failed hdl estr) = (if functions_set then Some (EvFail hdl estr) else None)"
| "ws_handler functions_set (Closed hdl) = (if functions_set then Some (EvClose hdl) else None)"
| "ws_handler functions_set (Received hdl payload) =
     (if functions_set then Some (EvMessage hdl (msgPayload payload)) else None)"

section \<open>Members that call the library\<close>

text \<open>
  The answer of the library to a \<^verbatim>\<open>send\<close>: it works, or sets an error code, with or without a
  connection behind the handle. The state of a connection is only looked up to trace an error,
  and that throws when there is none.
\<close>

datatype send_reply = SendWorks | SendFails | SendNoConnection

datatype ws_lib =
    LibReuseAddr | LibListen int | LibStartAccept | LibStopListening
  | LibSend connection_hdl string | LibClose connection_hdl string

datatype endpoint_error = BadConnection

type_synonym endpoint_outcome = "(endpoint_error, unit, ws_lib, unit) outcome"

definition endpoint_listen :: "int \<Rightarrow> endpoint_outcome" where
  "endpoint_listen port = emits [LibReuseAddr, LibListen port] ()"

definition endpoint_start_accept :: endpoint_outcome where
  "endpoint_start_accept = emits [LibStartAccept] ()"

definition endpoint_stop_listening :: endpoint_outcome where
  "endpoint_stop_listening = emits [LibStopListening] ()"

definition endpoint_send :: "send_reply \<Rightarrow> connection_hdl \<Rightarrow> string \<Rightarrow> endpoint_outcome" where
  "endpoint_send reply chdl msg =
     emit_then [LibSend chdl msg] (if reply = SendNoConnection then throws BadConnection () else returns () ())"

definition endpoint_close :: "connection_hdl \<Rightarrow> string \<Rightarrow> string \<Rightarrow> endpoint_outcome" where
  "endpoint_close chndl descr data = emits [LibClose chndl data] ()"

section \<open>TLS\<close>

datatype tls_mode = MOZILLA_MODERN | MOZILLA_INTERMEDIATE | MOZILLA_OLD

text \<open>The modes by what they demand of the peer.\<close>

fun strength :: "tls_mode \<Rightarrow> nat" where
  "strength MOZILLA_OLD = 0"
| "strength MOZILLA_INTERMEDIATE = 1"
| "strength MOZILLA_MODERN = 2"

lemma strength_inject: "strength m = strength n \<Longrightarrow> m = n"
  by (cases m; cases n) simp_all

instantiation tls_mode :: linorder
begin

definition less_eq_tls_mode :: "tls_mode \<Rightarrow> tls_mode \<Rightarrow> bool" where
  "less_eq_tls_mode m n \<longleftrightarrow> strength m \<le> strength n"

definition less_tls_mode :: "tls_mode \<Rightarrow> tls_mode \<Rightarrow> bool" where
  "less_tls_mode m n \<longleftrightarrow> strength m < strength n"

instance
  by standard (auto simp: less_eq_tls_mode_def less_tls_mode_def dest: strength_inject)

end

text \<open>\<^verbatim>\<open>setTls\<close>: any other text is the intermediate mode.\<close>

definition setTls_mode :: "string \<Rightarrow> tls_mode" where
  "setTls_mode modeStr = (if modeStr = ''modern'' then MOZILLA_MODERN
     else if modeStr = ''old'' then MOZILLA_OLD else MOZILLA_INTERMEDIATE)"

datatype tls_option =
  default_workarounds | no_sslv2 | no_sslv3 | single_dh_use | no_tlsv1 | no_tlsv1_1 | no_tlsv1_2

definition getProtocols :: "tls_mode \<Rightarrow> tls_option set" where
  "getProtocols mode = {default_workarounds, no_sslv2, no_sslv3, single_dh_use} \<union>
     (case mode of
        MOZILLA_MODERN \<Rightarrow> {no_tlsv1, no_tlsv1_1, no_tlsv1_2}
      | MOZILLA_INTERMEDIATE \<Rightarrow> {no_tlsv1, no_tlsv1_1}
      | MOZILLA_OLD \<Rightarrow> {})"

definition intermediate_suites :: "string list" where
  "intermediate_suites = [
     ''ECDHE-ECDSA-AES128-GCM-SHA256'', ''ECDHE-RSA-AES128-GCM-SHA256'',
     ''ECDHE-ECDSA-AES256-GCM-SHA384'', ''ECDHE-RSA-AES256-GCM-SHA384'',
     ''ECDHE-ECDSA-CHACHA20-POLY1305'', ''ECDHE-RSA-CHACHA20-POLY1305'',
     ''DHE-RSA-AES128-GCM-SHA256'', ''DHE-RSA-AES256-GCM-SHA384'']"

definition old_only_suites :: "string list" where
  "old_only_suites = [
     ''DHE-RSA-CHACHA20-POLY1305'', ''ECDHE-ECDSA-AES128-SHA256'', ''ECDHE-RSA-AES128-SHA256'',
     ''ECDHE-ECDSA-AES128-SHA'', ''ECDHE-RSA-AES128-SHA'', ''ECDHE-ECDSA-AES256-SHA384'',
     ''ECDHE-RSA-AES256-SHA384'', ''ECDHE-ECDSA-AES256-SHA'', ''ECDHE-RSA-AES256-SHA'',
     ''DHE-RSA-AES128-SHA256'', ''DHE-RSA-AES256-SHA256'', ''AES128-GCM-SHA256'',
     ''AES256-GCM-SHA384'', ''AES128-SHA256'', ''AES256-SHA256'', ''AES128-SHA'', ''AES256-SHA'',
     ''DES-CBC3-SHA'']"

definition getCipherSuites :: "tls_mode \<Rightarrow> string" where
  "getCipherSuites mode = (case mode of
       MOZILLA_MODERN \<Rightarrow> []
     | MOZILLA_INTERMEDIATE \<Rightarrow> join CHR '':'' intermediate_suites
     | MOZILLA_OLD \<Rightarrow> join CHR '':'' (intermediate_suites @ old_only_suites))"

text \<open>
  \<^verbatim>\<open>on_tls_init\<close>: what is set on the context of a new connection, up to the first call that
  throws. The first argument says which of the three calls that can throw do; an exception is
  caught, and the context is used as it is then.
\<close>

datatype tls_setting =
  SetOptions "tls_option set" | CertificateChain string | PrivateKey string | CipherList string

fun settings_until_throw :: "(tls_setting \<times> bool) list \<Rightarrow> tls_setting list" where
  "settings_until_throw [] = []"
| "settings_until_throw ((setting, thrown) # rest) =
     (if thrown then [] else setting # settings_until_throw rest)"

definition on_tls_init :: "bool \<times> bool \<times> bool \<Rightarrow> tls_mode \<Rightarrow> string \<Rightarrow> string \<Rightarrow> tls_setting list" where
  "on_tls_init thrown mode cert key = (let (t1, t2, t3) = thrown; ciphers = getCipherSuites mode in
     settings_until_throw ([(SetOptions (getProtocols mode), t1), (CertificateChain cert, t2), (PrivateKey key, t3)]
       @ (if ciphers \<noteq> [] then [(CipherList ciphers, False)] else [])))"

section \<open>Properties\<close>

text \<open>
  A text message ends at its first zero byte. Whatever follows a zero byte in the payload of
  a message never reaches the service, and a payload without one arrives unchanged.
\<close>

theorem ws_payload_cut_at_zero:
  assumes "CHR 0x00 \<notin> set p"
  shows "ws_handler True (Received hdl (p @ CHR 0x00 # rest)) = Some (EvMessage hdl p)
    \<and> ws_handler True (Received hdl p) = Some (EvMessage hdl p)"
  using assms by (simp add: msgPayload_def of_c_str_cut of_c_str_no_zero)

theorem ws_payload_cut_at_zero_witness:
  "ws_handler True (Received 3 (''ab'' @ CHR 0x00 # ''cd'')) = Some (EvMessage 3 ''ab'')"
  using ws_payload_cut_at_zero [of "''ab''" 3 "''cd''"] by simp

text \<open>
  The modes are ordered. A stronger mode sets every protocol option of a weaker one and more, no
  mode allows SSL, a text that names no mode is not the weakest, the suites of the intermediate
  mode are the first of the old one, and each list is the one its text splits into.
\<close>

theorem tls_modes_ordered:
  "strict_mono getProtocols \<and> {no_sslv2, no_sslv3} \<subseteq> getProtocols mode
   \<and> (setTls_mode text = MOZILLA_OLD \<longleftrightarrow> text = ''old'')
   \<and> levels CHR '':'' (getCipherSuites MOZILLA_INTERMEDIATE) = intermediate_suites
   \<and> levels CHR '':'' (getCipherSuites MOZILLA_OLD) = intermediate_suites @ old_only_suites"
proof -
  have "getProtocols m \<subset> getProtocols n" if "m < n" for m n
    using that by (cases m; cases n) (auto simp: less_tls_mode_def getProtocols_def)
  then have "strict_mono getProtocols" by (simp add: strict_mono_def)
  moreover have "{no_sslv2, no_sslv3} \<subseteq> getProtocols mode" by (auto simp: getProtocols_def)
  moreover have "setTls_mode text = MOZILLA_OLD \<longleftrightarrow> text = ''old''" by (simp add: setTls_mode_def)
  moreover have "levels CHR '':'' (getCipherSuites MOZILLA_INTERMEDIATE) = intermediate_suites"
    "levels CHR '':'' (getCipherSuites MOZILLA_OLD) = intermediate_suites @ old_only_suites"
    unfolding getCipherSuites_def tls_mode.case
    by (rule levels_join, simp add: intermediate_suites_def,
        simp add: intermediate_suites_def old_only_suites_def)+
  ultimately show ?thesis by blast
qed

end
