(* ===== verification/Ws_Service.thy ===== *)
theory Ws_Service
  imports Ws_Server Std_Map Step_Systems
begin

text \<open>
  \<^verbatim>\<open>src/WebsocketCppService/WebsocketCppService.cpp\<close>: the table of connections, sending,
  starting and stopping, the configuration. The endpoint of \<open>Ws_Server\<close> hands its events to
  the service; the calls the service makes to the endpoint and to the handlers registered by
  clients are its outputs.
\<close>

section \<open>State\<close>

datatype ws_server = WsServerPlain | WsServerTls tls_mode string string

record 'h ws_service =
  m_iLaunchService :: "string option"
  m_server :: "ws_server option"
  m_port :: int
  m_connectionsStrMap :: "(connection_hdl, string) std_map"
  m_autoStart :: bool
  m_acceptOnlyLocalhost :: bool
  m_tlsEnabled :: bool
  m_tlsMode :: string
  m_cert :: string
  m_key :: string
  m_runThd :: bool
  m_messageHandlerFunc :: "'h option"
  m_messageStrHandlerFunc :: "'h option"
  m_openHandlerFunc :: "'h option"
  m_closeHandlerFunc :: "'h option"

text \<open>The launch service is known by its configuration directory.\<close>

definition ws_service0 :: "'h ws_service" where
  "ws_service0 = \<lparr>m_iLaunchService = None, m_server = None, m_port = 1338,
     m_connectionsStrMap = [], m_autoStart = True, m_acceptOnlyLocalhost = False,
     m_tlsEnabled = False, m_tlsMode = ''intermediate'', m_cert = [], m_key = [], m_runThd = False,
     m_messageHandlerFunc = None, m_messageStrHandlerFunc = None, m_openHandlerFunc = None,
     m_closeHandlerFunc = None\<rparr>"

datatype 'h ws_out =
    WsListen int
  | WsStartAccept
  | WsStopListening
  | WsRunThread
  | WsSend connection_hdl string
  | WsClose connection_hdl string string
  | WsMessage 'h bytes string
  | WsMessageStr 'h string string
  | WsOpened 'h string
  | WsClosed 'h string

datatype ws_error = NullServer | NullLaunchService

type_synonym 'h ws_outcome = "(ws_error, unit, 'h ws_out, 'h ws_service) outcome"

section \<open>Events of the endpoint\<close>

text \<open>\<^verbatim>\<open>getHndl\<close>: the first handle with the name, in the order of the map.\<close>

fun getHndl :: "string \<Rightarrow> (connection_hdl, string) std_map \<Rightarrow> connection_hdl option" where
  "getHndl connId [] = None"
| "getHndl connId (it # its) = (if snd it = connId then Some (fst it) else getHndl connId its)"

definition getConnId :: "connection_hdl \<Rightarrow> 'h ws_service \<Rightarrow> string option" where
  "getConnId hdl s = sm_find (m_connectionsStrMap s) hdl"

definition ws_on_message :: "connection_hdl \<Rightarrow> string \<Rightarrow> 'h ws_service \<Rightarrow> 'h ws_outcome" where
  "ws_on_message hdl msg s = (case getConnId hdl s of
       Some connId \<Rightarrow> emits
         ((case m_messageStrHandlerFunc s of Some h \<Rightarrow> [WsMessageStr h msg connId] | None \<Rightarrow> [])
          @ (case m_messageHandlerFunc s of Some h \<Rightarrow> [WsMessage h msg connId] | None \<Rightarrow> [])) s
     | None \<Rightarrow> returns () s)"

definition ws_on_fail :: "connection_hdl \<Rightarrow> string \<Rightarrow> 'h ws_service \<Rightarrow> 'h ws_outcome" where
  "ws_on_fail chdl errstr s = returns () s"

definition ws_on_validate :: "connection_hdl \<Rightarrow> string \<Rightarrow> string \<Rightarrow> 'h ws_service \<Rightarrow> bool" where
  "ws_on_validate chdl connId host s =
     (if m_acceptOnlyLocalhost s then host = ''localhost'' \<or> host = ''127.0.0.1'' \<or> host = ''[::1]''
      else True)"

definition ws_on_open ::
  "connection_hdl \<Rightarrow> string \<Rightarrow> string \<Rightarrow> string \<Rightarrow> 'h ws_service \<Rightarrow> 'h ws_outcome"
where
  "ws_on_open chdl connId host query s =
     emits (case m_openHandlerFunc s of Some h \<Rightarrow> [WsOpened h connId] | None \<Rightarrow> [])
       (s\<lparr>m_connectionsStrMap := snd (sm_insert chdl connId (m_connectionsStrMap s))\<rparr>)"

definition ws_on_close :: "connection_hdl \<Rightarrow> 'h ws_service \<Rightarrow> 'h ws_outcome" where
  "ws_on_close hdl s = (let s1 = s\<lparr>m_connectionsStrMap := sm_erase hdl (m_connectionsStrMap s)\<rparr> in
     case getConnId hdl s of
       Some connId \<Rightarrow>
         emits (case m_closeHandlerFunc s of Some h \<Rightarrow> [WsClosed h connId] | None \<Rightarrow> []) s1
     | None \<Rightarrow> returns () s1)"

fun ws_on :: "ws_event \<Rightarrow> 'h ws_service \<Rightarrow> 'h ws_outcome" where
  "ws_on (EvValidate hdl connId host) s = returns () s"
| "ws_on (EvOpen hdl connId host query) s = ws_on_open hdl connId host query s"
| "ws_on (EvFail hdl errstr) s = ws_on_fail hdl errstr s"
| "ws_on (EvClose hdl) s = ws_on_close hdl s"
| "ws_on (EvMessage hdl msg) s = ws_on_message hdl msg s"

section \<open>Sending\<close>

definition send_to :: "string \<Rightarrow> string \<Rightarrow> (connection_hdl, string) std_map \<Rightarrow> 'h ws_out list" where
  "send_to msg connId conns = (if connId = [] then map (\<lambda>it. WsSend (fst it) msg) conns
     else case getHndl connId conns of Some hdl \<Rightarrow> [WsSend hdl msg] | None \<Rightarrow> [])"

definition ws_sendMessage :: "string \<Rightarrow> string \<Rightarrow> 'h ws_service \<Rightarrow> 'h ws_outcome" where
  "ws_sendMessage msg connId s = (if m_runThd s then emits (send_to msg connId (m_connectionsStrMap s)) s
     else returns () s)"

text \<open>The overload for bytes copies them.\<close>

definition ws_sendMessage_bytes :: "bytes \<Rightarrow> string \<Rightarrow> 'h ws_service \<Rightarrow> 'h ws_outcome" where
  "ws_sendMessage_bytes msg connId s = ws_sendMessage msg connId s"

text \<open>The calls of the service, carried out by the endpoint up to the first that throws.\<close>

fun endpoint_runs :: "(connection_hdl \<Rightarrow> send_reply) \<Rightarrow> 'h ws_out list \<Rightarrow> endpoint_outcome" where
  "endpoint_runs reply [] = returns () ()"
| "endpoint_runs reply (WsSend hdl msg # outs) =
     and_then (endpoint_send (reply hdl) hdl msg) (\<lambda>_ _. endpoint_runs reply outs)"
| "endpoint_runs reply (WsClose hdl descr data # outs) =
     and_then (endpoint_close hdl descr data) (\<lambda>_ _. endpoint_runs reply outs)"
| "endpoint_runs reply (WsListen port # outs) =
     and_then (endpoint_listen port) (\<lambda>_ _. endpoint_runs reply outs)"
| "endpoint_runs reply (WsStartAccept # outs) =
     and_then endpoint_start_accept (\<lambda>_ _. endpoint_runs reply outs)"
| "endpoint_runs reply (WsStopListening # outs) =
     and_then endpoint_stop_listening (\<lambda>_ _. endpoint_runs reply outs)"
| "endpoint_runs reply (out # outs) = endpoint_runs reply outs"

section \<open>Starting and stopping\<close>

text \<open>What \<^verbatim>\<open>listen\<close> and \<^verbatim>\<open>start_accept\<close> do: an exception of either is only reported.\<close>

datatype listen_reply = ListenThrows | AcceptThrows | Listening

definition ws_start :: "listen_reply \<Rightarrow> 'h ws_service \<Rightarrow> 'h ws_outcome" where
  "ws_start reply s = (case m_server s of
       None \<Rightarrow> throws NullServer s
     | Some server \<Rightarrow> emit_then (WsListen (m_port s) # (if reply = ListenThrows then [] else [WsStartAccept]))
         (if m_runThd s then returns () s else emits [WsRunThread] (s\<lparr>m_runThd := True\<rparr>)))"

definition close_data :: string where
  "close_data = ''Terminating connection...''"

text \<open>With the answer of \<^verbatim>\<open>is_listening\<close>.\<close>

definition ws_stop :: "bool \<Rightarrow> 'h ws_service \<Rightarrow> 'h ws_outcome" where
  "ws_stop is_listening s = (if \<not> m_runThd s then returns () s
     else emits ((if is_listening then [WsStopListening] else [])
         @ map (\<lambda>con. WsClose (fst con) (snd con) close_data) (m_connectionsStrMap s))
       (s\<lparr>m_runThd := False, m_connectionsStrMap := []\<rparr>))"

definition isStarted :: "'h ws_service \<Rightarrow> bool" where
  "isStarted s = m_runThd s"

definition getPort :: "'h ws_service \<Rightarrow> int" where
  "getPort s = m_port s"

section \<open>Configuration\<close>

text \<open>The members of the JSON document by their pointers; \<open>None\<close> when missing or of another type.\<close>

record json_doc =
  doc_Int :: "string \<Rightarrow> int option"
  doc_Bool :: "string \<Rightarrow> bool option"
  doc_String :: "string \<Rightarrow> string option"

definition json_or :: "'a option \<Rightarrow> 'a \<Rightarrow> 'a" where
  "json_or v old = (case v of Some x \<Rightarrow> x | None \<Rightarrow> old)"

text \<open>A path stays if it is empty or absolute.\<close>

definition getPath :: "string \<Rightarrow> 'h ws_service \<Rightarrow> ws_error + string" where
  "getPath path s = (if path = [] then Inr []
     else if path ! 0 = CHR ''/'' then Inr path
     else case m_iLaunchService s of
         Some configDir \<Rightarrow> Inr (configDir @ ''/certs/'' @ path)
       | None \<Rightarrow> Inl NullLaunchService)"

text \<open>The assignments from the document, in the order of the source.\<close>

definition ws_configure :: "json_doc \<Rightarrow> 'h ws_service \<Rightarrow> 'h ws_service" where
  "ws_configure doc s = (let
       s1 = s\<lparr>m_port := json_or (doc_Int doc ''/WebsocketPort'') (m_port s)\<rparr>;
       s2 = s1\<lparr>m_port := json_or (map_option of_bool (doc_Bool doc ''/AutoStart'')) (m_port s1)\<rparr>;
       s3 = s2\<lparr>m_acceptOnlyLocalhost := json_or (doc_Bool doc ''/acceptOnlyLocalhost'') (m_acceptOnlyLocalhost s)\<rparr>;
       s4 = s3\<lparr>m_tlsEnabled := json_or (doc_Bool doc ''/tlsEnabled'') (m_tlsEnabled s)\<rparr>;
       s5 = s4\<lparr>m_tlsMode := json_or (doc_String doc ''/tlsMode'') (m_tlsMode s)\<rparr>;
       s6 = s5\<lparr>m_cert := json_or (doc_String doc ''/certificate'') (m_cert s)\<rparr>
     in s6\<lparr>m_key := json_or (doc_String doc ''/privateKey'') (m_key s)\<rparr>)"

definition ws_activate :: "json_doc \<Rightarrow> listen_reply \<Rightarrow> 'h ws_service \<Rightarrow> 'h ws_outcome" where
  "ws_activate doc reply s = (let s1 = ws_configure doc s in
     case getPath (m_cert s1) s1 of Inl e \<Rightarrow> throws e s1
     | Inr cert \<Rightarrow> (let s2 = s1\<lparr>m_cert := cert\<rparr> in
       case getPath (m_key s2) s2 of Inl e \<Rightarrow> throws e s2
       | Inr key \<Rightarrow> (let
           s3 = s2\<lparr>m_key := key, m_server := Some (if \<not> m_tlsEnabled s2 then WsServerPlain
                  else WsServerTls (setTls_mode (m_tlsMode s2)) cert key)\<rparr>
         in if m_autoStart s3 then ws_start reply s3 else returns () s3)))"

definition ws_deactivate :: "bool \<Rightarrow> 'h ws_service \<Rightarrow> 'h ws_outcome" where
  "ws_deactivate is_listening s = ws_stop is_listening s"

definition ws_attach :: "string \<Rightarrow> 'h ws_service \<Rightarrow> 'h ws_outcome" where
  "ws_attach configDir s = returns () (s\<lparr>m_iLaunchService := Some configDir\<rparr>)"

definition ws_detach :: "string \<Rightarrow> 'h ws_service \<Rightarrow> 'h ws_outcome" where
  "ws_detach configDir s = returns ()
     (if m_iLaunchService s = Some configDir then s\<lparr>m_iLaunchService := None\<rparr> else s)"

datatype ws_slot = MessageHandler | MessageStrHandler | OpenHandler | CloseHandler

fun ws_register :: "ws_slot \<Rightarrow> 'h option \<Rightarrow> 'h ws_service \<Rightarrow> 'h ws_service" where
  "ws_register MessageHandler hndl s = s\<lparr>m_messageHandlerFunc := hndl\<rparr>"
| "ws_register MessageStrHandler hndl s = s\<lparr>m_messageStrHandlerFunc := hndl\<rparr>"
| "ws_register OpenHandler hndl s = s\<lparr>m_openHandlerFunc := hndl\<rparr>"
| "ws_register CloseHandler hndl s = s\<lparr>m_closeHandlerFunc := hndl\<rparr>"

text \<open>The calls of clients and the events of the endpoint.\<close>

datatype 'h ws_call =
    WsReports ws_report
  | SendMessage string string
  | Start listen_reply
  | Stop bool
  | ActivateWs json_doc listen_reply
  | DeactivateWs bool
  | AttachWs string
  | DetachWs string
  | RegisterWs ws_slot "'h option"

fun ws_step :: "'h ws_service \<Rightarrow> 'h ws_call \<Rightarrow> 'h ws_outcome" where
  "ws_step s (WsReports report) = (case ws_handler (m_server s \<noteq> None) report of
     Some event \<Rightarrow> ws_on event s | None \<Rightarrow> returns () s)"
| "ws_step s (SendMessage msg connId) = ws_sendMessage msg connId s"
| "ws_step s (Start reply) = ws_start reply s"
| "ws_step s (Stop listening) = ws_stop listening s"
| "ws_step s (ActivateWs doc reply) = ws_activate doc reply s"
| "ws_step s (DeactivateWs listening) = ws_deactivate listening s"
| "ws_step s (AttachWs dir) = ws_attach dir s"
| "ws_step s (DetachWs dir) = ws_detach dir s"
| "ws_step s (RegisterWs slot hndl) = returns () (ws_register slot hndl s)"

lemmas ws_op_defs = ws_on_message_def ws_on_fail_def ws_on_open_def ws_on_close_def ws_sendMessage_def ws_start_def
  ws_stop_def ws_configure_def ws_activate_def ws_deactivate_def ws_attach_def ws_detach_def getConnId_def

section \<open>The table of connections\<close>

definition ws_inv :: "'h ws_service \<Rightarrow> bool" where
  "ws_inv s \<longleftrightarrow> sm_inv (m_connectionsStrMap s)"

fun is_WsClosed :: "'h ws_out \<Rightarrow> bool" where
  "is_WsClosed (WsClosed h connId) = True"
| "is_WsClosed _ = False"

fun opens_connection :: "'h ws_call \<Rightarrow> nat" where
  "opens_connection (WsReports (Opened hdl p)) = 1"
| "opens_connection _ = 0"

lemma ws_activate_frame:
  "m_connectionsStrMap (state_of (ws_activate doc reply s)) = m_connectionsStrMap s"
  "count_if is_WsClosed (outs_of (ws_activate doc reply s)) = 0"
  by (auto simp: ws_activate_def ws_start_def ws_configure_def Let_def outcome_simps
      split: sum.split option.split)

lemma ws_send_kinds: "count_if is_WsClosed (send_to msg connId conns) = 0"
  by (auto simp: send_to_def split: option.split)

lemma ws_on_balance:
  assumes "ws_inv s"
  shows "ws_inv (state_of (ws_on e s))"
    and "count_if is_WsClosed (outs_of (ws_on e s)) + length (m_connectionsStrMap (state_of (ws_on e s)))
      \<le> length (m_connectionsStrMap s) + (case e of EvOpen _ _ _ _ \<Rightarrow> 1 | _ \<Rightarrow> 0)"
proof -
  show "ws_inv (state_of (ws_on e s))"
    using assms by (cases e) (auto simp: ws_inv_def ws_op_defs outcome_simps Let_def sm_insert_inv
        sm_inv_erase split: option.split)
  show "count_if is_WsClosed (outs_of (ws_on e s)) + length (m_connectionsStrMap (state_of (ws_on e s)))
      \<le> length (m_connectionsStrMap s) + (case e of EvOpen _ _ _ _ \<Rightarrow> 1 | _ \<Rightarrow> 0)"
    using assms by (cases e) (auto simp: ws_inv_def ws_op_defs outcome_simps Let_def sm_insert_def
        length_sm_assign length_sm_erase dest: sm.count_found split: option.split)
qed

lemma ws_step_inv: "ws_inv s \<Longrightarrow> ws_inv (state_of (ws_step s c))"
proof (cases c)
  case (WsReports report)
  then show "ws_inv s \<Longrightarrow> ?thesis"
    by (auto simp: outcome_simps ws_on_balance(1) split: option.split)
next
  case (ActivateWs doc reply)
  then show "ws_inv s \<Longrightarrow> ?thesis" by (simp add: ws_inv_def ws_activate_frame)
next
  case (RegisterWs slot hndl)
  then show "ws_inv s \<Longrightarrow> ?thesis" by (cases slot) (simp_all add: ws_inv_def outcome_simps)
qed (auto simp: ws_inv_def ws_sendMessage_def ws_start_def ws_stop_def ws_deactivate_def ws_attach_def
    ws_detach_def outcome_simps split: option.split)

lemma ws_step_balance:
  assumes "ws_inv s"
  shows "count_if is_WsClosed (outs_of (ws_step s c)) + length (m_connectionsStrMap (state_of (ws_step s c)))
     \<le> length (m_connectionsStrMap s) + opens_connection c"
proof (cases c)
  case (WsReports report)
  show ?thesis
  proof (cases "ws_handler (m_server s \<noteq> None) report")
    case None
    with WsReports show ?thesis by (simp add: outcome_simps)
  next
    case (Some e)
    with WsReports ws_on_balance(2) [OF assms, of e] show ?thesis
      by (cases report) (auto split: if_splits)
  qed
next
  case (ActivateWs doc reply)
  then show ?thesis using ws_activate_frame [of doc reply s] by simp
next
  case (RegisterWs slot hndl)
  then show ?thesis by (cases slot) (simp_all add: outcome_simps)
next
  case (SendMessage msg connId)
  then show ?thesis by (simp add: ws_sendMessage_def outcome_simps ws_send_kinds del: filter_False)
qed (auto simp: ws_start_def ws_stop_def ws_deactivate_def ws_attach_def
    ws_detach_def outcome_simps split: option.split)

interpretation ws: ledger ws_step "\<lambda>_. True" ws_inv
    "\<lambda>s. length (m_connectionsStrMap s)" "\<lambda>_. opens_connection" is_WsClosed
  by unfold_locales (simp_all only: ws_step_inv ws_step_balance)

lemma getHndl_Some:
  "getHndl connId conns = Some hdl \<Longrightarrow> (hdl, connId) \<in> set conns"
  by (induction conns) (auto split: if_splits)

lemma getHndl_None: "getHndl connId conns = None \<longleftrightarrow> connId \<notin> snd ` set conns"
  by (induction conns) (auto split: if_splits)

lemma stopped_sends_nothing: "\<not> m_runThd s \<Longrightarrow> ws_sendMessage msg connId s = (Inr (), [], s)"
  by (simp add: ws_sendMessage_def returns_def)

section \<open>Properties\<close>

text \<open>
  A closed connection is reported once. Over any run of calls and events, the close handler
  is called at most once for each connection opened or open at the start: the calls made and the
  connections still in the table together do not exceed them.
\<close>

theorem ws_close_balance:
  assumes "ws_inv s"
  shows "count_if is_WsClosed (run_outs ws_step s cs) + length (m_connectionsStrMap (run_calls ws_step s cs))
    \<le> length (m_connectionsStrMap s) + sum_list (map opens_connection cs)"
  using ws.run_balance [OF assms, of cs] by (simp add: run_total_per_call list_all_def)

definition ws_running :: "nat ws_service" where
  "ws_running = ws_service0\<lparr>m_server := Some WsServerPlain, m_runThd := True, m_closeHandlerFunc := Some 9\<rparr>"

definition params_of :: "string \<Rightarrow> conn_params" where
  "params_of connId = \<lparr>cp_connId = connId, cp_host = ''h'', cp_query = []\<rparr>"

theorem ws_close_balance_witness:
  "count_if is_WsClosed (run_outs ws_step ws_running
      [WsReports (Opened 4 (params_of ''a'')), WsReports (Closed 4), WsReports (Closed 4)]) \<le> 1"
  using ws_close_balance [of ws_running
      "[WsReports (Opened 4 (params_of ''a'')), WsReports (Closed 4), WsReports (Closed 4)]"]
  by (simp add: ws_inv_def ws_running_def ws_service0_def)

text \<open>
  A message goes where it is meant to. On a started service a message without a connection
  name goes to every connection of the table once, in its order; with a name that one connection
  has, to this connection only; with a name nobody has, and on a service that is not started, to
  nobody.
\<close>

theorem ws_send_targets:
  assumes "ws_inv s" and "distinct (map snd (m_connectionsStrMap s))" and "m_runThd s"
  shows "outs_of (ws_sendMessage msg [] s) = map (\<lambda>h. WsSend h msg) (sm_keys (m_connectionsStrMap s))
    \<and> (connId \<noteq> [] \<longrightarrow> getConnId hdl s = Some connId \<longrightarrow> outs_of (ws_sendMessage msg connId s) = [WsSend hdl msg])
    \<and> (connId \<noteq> [] \<longrightarrow> (\<forall>h. getConnId h s \<noteq> Some connId) \<longrightarrow> outs_of (ws_sendMessage msg connId s) = [])
    \<and> ws_sendMessage msg connId (s\<lparr>m_runThd := False\<rparr>) = (Inr (), [], s\<lparr>m_runThd := False\<rparr>)"
proof (intro conjI impI)
  show "outs_of (ws_sendMessage msg [] s) = map (\<lambda>h. WsSend h msg) (sm_keys (m_connectionsStrMap s))"
    using assms(3) by (simp add: ws_sendMessage_def send_to_def sm_keys_def outcome_simps comp_def)
  have inv: "sm_inv (m_connectionsStrMap s)" using assms(1) by (simp add: ws_inv_def)
  note find = sm_find_Some [OF inv]
  { assume "connId \<noteq> []" and "getConnId hdl s = Some connId"
    then have "(hdl, connId) \<in> set (m_connectionsStrMap s)" by (simp add: getConnId_def find)
    moreover obtain h where h: "getHndl connId (m_connectionsStrMap s) = Some h"
      using calculation getHndl_None [of connId "m_connectionsStrMap s"] by force
    moreover have "(h, connId) \<in> set (m_connectionsStrMap s)" by (rule getHndl_Some [OF h])
    ultimately have "h = hdl" using assms(2) by (fastforce simp: distinct_map inj_on_def)
    with h \<open>connId \<noteq> []\<close> assms(3) show "outs_of (ws_sendMessage msg connId s) = [WsSend hdl msg]"
      by (simp add: ws_sendMessage_def send_to_def outcome_simps) }
  { assume "connId \<noteq> []" and "\<forall>h. getConnId h s \<noteq> Some connId"
    then have "getHndl connId (m_connectionsStrMap s) = None"
      by (auto simp: getHndl_None getConnId_def find)
    with \<open>connId \<noteq> []\<close> show "outs_of (ws_sendMessage msg connId s) = []"
      by (simp add: ws_sendMessage_def send_to_def outcome_simps) }
  show "ws_sendMessage msg connId (s\<lparr>m_runThd := False\<rparr>) = (Inr (), [], s\<lparr>m_runThd := False\<rparr>)"
    by (simp add: stopped_sends_nothing)
qed

theorem ws_send_targets_witness:
  "outs_of (ws_sendMessage ''x'' ''b'' (ws_running\<lparr>m_connectionsStrMap := [(4, ''a''), (7, ''b'')]\<rparr>))
     = [WsSend 7 ''x'']"
  using ws_send_targets [of "ws_running\<lparr>m_connectionsStrMap := [(4, ''a''), (7, ''b'')]\<rparr>" "''x''" "''b''" 7]
  by (simp add: ws_inv_def sm_inv_Cons ws_running_def getConnId_def)

text \<open>
  \<^verbatim>\<open>AutoStart\<close> changes the port instead of the start. For a document with a Boolean
  \<^verbatim>\<open>AutoStart\<close> the service is left with port 1 or 0 whatever \<^verbatim>\<open>WebsocketPort\<close> says, and
  it starts listening on that port at once, also when \<^verbatim>\<open>AutoStart\<close> is false.
\<close>

theorem ws_autostart_overwrites_port:
  assumes "doc_Bool doc ''/AutoStart'' = Some b" and "m_autoStart s"
    and "m_iLaunchService s = Some dir"
  shows "m_port (state_of (ws_activate doc reply s)) = (if b then 1 else 0)
    \<and> WsListen (if b then 1 else 0) \<in> set (outs_of (ws_activate doc reply s))
    \<and> isStarted (state_of (ws_activate doc reply s))"
proof -
  have path: "\<exists>p. getPath q t = Inr p" if "m_iLaunchService t = Some dir" for q and t :: "'a ws_service"
    using that by (simp add: getPath_def)
  let ?s = "ws_configure doc s"
  have conf: "m_iLaunchService ?s = Some dir" "m_port ?s = of_bool b" "m_autoStart ?s"
    using assms by (simp_all add: ws_configure_def json_or_def Let_def)
  obtain cert where cert: "getPath (m_cert ?s) ?s = Inr cert" using path conf(1) by blast
  obtain key where key: "getPath (m_key ?s) (?s\<lparr>m_cert := cert\<rparr>) = Inr key"
    using path [of "?s\<lparr>m_cert := cert\<rparr>"] conf(1) by auto
  from conf cert key show ?thesis
    by (auto simp: ws_activate_def ws_start_def isStarted_def Let_def outcome_simps)
qed

definition doc_no_autostart :: json_doc where
  "doc_no_autostart = \<lparr>doc_Int = (\<lambda>p. if p = ''/WebsocketPort'' then Some 1338 else None),
     doc_Bool = (\<lambda>p. if p = ''/AutoStart'' then Some False else None), doc_String = (\<lambda>p. None)\<rparr>"

definition ws_fresh :: "nat ws_service" where
  "ws_fresh = ws_service0\<lparr>m_iLaunchService := Some ''d''\<rparr>"

theorem ws_autostart_overwrites_port_witness:
  "m_port (state_of (ws_activate doc_no_autostart Listening ws_fresh)) = 0
   \<and> isStarted (state_of (ws_activate doc_no_autostart Listening ws_fresh))"
  using ws_autostart_overwrites_port [of doc_no_autostart False ws_fresh "''d''" Listening]
  by (simp add: doc_no_autostart_def ws_fresh_def ws_service0_def)

text \<open>
  A stop forgets the connections without reporting them. After a \<^verbatim>\<open>stop\<close> of a started
  service the endpoint has been told to close every connection, the table is empty, and when the
  endpoint then reports these connections closed no close handler is called.
\<close>

theorem ws_stop_reports_no_close:
  assumes "m_runThd s"
  shows "let s1 = state_of (ws_stop listening s) in
    outs_of (ws_stop listening s) = (if listening then [WsStopListening] else [])
      @ map (\<lambda>con. WsClose (fst con) (snd con) close_data) (m_connectionsStrMap s)
    \<and> m_connectionsStrMap s1 = [] \<and> \<not> isStarted s1
    \<and> run_outs ws_step s1 (map (\<lambda>hdl. WsReports (Closed hdl)) hdls) = []"
proof -
  have "run_outs ws_step t (map (\<lambda>hdl. WsReports (Closed hdl)) hdls) = []"
    if "m_connectionsStrMap t = []" for t :: "'a ws_service"
    using that by (induction hdls arbitrary: t)
      (auto simp: ws_on_close_def getConnId_def outcome_simps sm_erase_def split: option.split)
  with assms show ?thesis by (simp add: ws_stop_def isStarted_def outcome_simps Let_def)
qed

theorem ws_stop_reports_no_close_witness:
  "run_outs ws_step (state_of (ws_stop True (ws_running\<lparr>m_connectionsStrMap := [(4, ''a'')]\<rparr>)))
     [WsReports (Closed 4)] = []"
  using ws_stop_reports_no_close [of "ws_running\<lparr>m_connectionsStrMap := [(4, ''a'')]\<rparr>" True "[4]"]
  by (simp add: ws_running_def Let_def del: ws_step.simps)

lemma endpoint_runs_sends:
  "endpoint_runs reply (map (\<lambda>it. WsSend (fst it) msg) conns) =
     (if \<exists>it \<in> set conns. reply (fst it) = SendNoConnection then Inl BadConnection else Inr (),
      map (\<lambda>it. LibSend (fst it) msg) (takeWhile (\<lambda>it. reply (fst it) \<noteq> SendNoConnection) conns
        @ take 1 (dropWhile (\<lambda>it. reply (fst it) \<noteq> SendNoConnection) conns)), ())"
  by (induction conns) (auto simp: endpoint_send_def returns_def throws_def emit_then_def and_then_def)

text \<open>
  A broadcast ends at the first handle without a connection. The message goes to the
  connections in the order of the table up to and including that one; \<^verbatim>\<open>send\<close> throws for it, so
  the rest get nothing, and \<^verbatim>\<open>sendMessage\<close> throws exactly when there is one.
\<close>

theorem ws_broadcast_cut:
  assumes "m_runThd s"
  shows "endpoint_runs reply (outs_of (ws_sendMessage msg [] s)) =
     (if \<exists>it \<in> set (m_connectionsStrMap s). reply (fst it) = SendNoConnection then Inl BadConnection else Inr (),
      map (\<lambda>it. LibSend (fst it) msg) (takeWhile (\<lambda>it. reply (fst it) \<noteq> SendNoConnection) (m_connectionsStrMap s)
        @ take 1 (dropWhile (\<lambda>it. reply (fst it) \<noteq> SendNoConnection) (m_connectionsStrMap s))), ())"
  using assms by (simp add: ws_sendMessage_def send_to_def outcome_simps endpoint_runs_sends)

theorem ws_broadcast_cut_witness:
  "endpoint_runs (\<lambda>hdl. if hdl = 2 then SendNoConnection else SendWorks)
     (outs_of (ws_sendMessage ''m'' [] (ws_service0\<lparr>m_runThd := True, m_connectionsStrMap := [(1, ''a''), (2, ''b''), (3, ''c'')]\<rparr>)))
   = (Inl BadConnection, [LibSend 1 ''m'', LibSend 2 ''m''], ())"
  by (subst ws_broadcast_cut) simp_all

end
