(* ===== verification/Ws_Client.thy ===== *)
theory Ws_Client
  imports Ws_Server Step_Systems
begin

text \<open>
  \<^verbatim>\<open>src/WebsocketCppClientService/WebsocketCppClientService.cpp\<close>: a web socket client with one
  connection. The client of the websocketpp library and its thread are answers and events: the
  handlers it calls, the connection it makes for a URI, and which connections are still in the
  state \<^verbatim>\<open>connecting\<close> when a wait looks at its condition.
\<close>

section \<open>State\<close>

text \<open>
  \<open>waiting_connects\<close> are the connections whose \<^verbatim>\<open>connect\<close> sleeps in \<^verbatim>\<open>m_connectedCondition\<close>;
  the handle of no connection is the empty \<^verbatim>\<open>connection_hdl\<close>.
\<close>

record 'h ws_client =
  m_connection_hdl :: "connection_hdl option"
  m_uri :: string
  m_server :: string
  m_error_reason :: string
  m_connected :: bool
  waiting_connects :: "connection_hdl list"
  m_messageHandlerFunc :: "'h option"
  m_messageStrHandlerFunc :: "'h option"
  m_openHandlerFunc :: "'h option"
  m_closeHandlerFunc :: "'h option"

definition ws_client0 :: "'h ws_client" where
  "ws_client0 = \<lparr>m_connection_hdl = None, m_uri = [], m_server = [], m_error_reason = [],
     m_connected = False, waiting_connects = [], m_messageHandlerFunc = None,
     m_messageStrHandlerFunc = None, m_openHandlerFunc = None, m_closeHandlerFunc = None\<rparr>"

datatype 'h wsc_out =
    WscMessageStr 'h string | WscMessage 'h bytes | WscOpened 'h | WscClosed 'h
  | WscSend "connection_hdl option" string | WscPing "connection_hdl option" string
  | WscGetConnection string | WscConnect connection_hdl | WscConnectReturns connection_hdl
  | WscClose "connection_hdl option" | WscWarnConnected string string
  | WscInit | WscStartPerpetual | WscRunThread | WscStopPerpetual | WscJoin

type_synonym 'h wsc_outcome = "(unit, unit, 'h wsc_out, 'h ws_client) outcome"

section \<open>Events of the library\<close>

text \<open>
  \<^verbatim>\<open>notify_all\<close>: every sleeping \<^verbatim>\<open>connect\<close> looks at the state of its connection once the
  notifying member function has released the mutex, and returns unless it is still connecting.
\<close>

definition wsc_notify :: "(connection_hdl \<Rightarrow> bool) \<Rightarrow> 'h ws_client \<Rightarrow> 'h wsc_outcome" where
  "wsc_notify connecting s = emits (map WscConnectReturns (filter (\<lambda>con. \<not> connecting con) (waiting_connects s)))
     (s\<lparr>waiting_connects := filter connecting (waiting_connects s)\<rparr>)"

definition wsc_on_open ::
  "connection_hdl \<Rightarrow> string \<Rightarrow> (connection_hdl \<Rightarrow> bool) \<Rightarrow> 'h ws_client \<Rightarrow> 'h wsc_outcome"
where
  "wsc_on_open hdl server connecting s =
     emit_then (case m_openHandlerFunc s of Some h \<Rightarrow> [WscOpened h] | None \<Rightarrow> [])
       (wsc_notify connecting (s\<lparr>m_connection_hdl := Some hdl, m_connected := True, m_server := server\<rparr>))"

definition wsc_on_message :: "connection_hdl \<Rightarrow> string \<Rightarrow> 'h ws_client \<Rightarrow> 'h wsc_outcome" where
  "wsc_on_message hdl payload s =
     emits ((case m_messageStrHandlerFunc s of Some h \<Rightarrow> [WscMessageStr h payload] | None \<Rightarrow> [])
       @ (case m_messageHandlerFunc s of Some h \<Rightarrow> [WscMessage h payload] | None \<Rightarrow> [])) s"

definition wsc_on_fail ::
  "connection_hdl \<Rightarrow> string \<Rightarrow> string \<Rightarrow> (connection_hdl \<Rightarrow> bool) \<Rightarrow> 'h ws_client \<Rightarrow> 'h wsc_outcome"
where
  "wsc_on_fail hdl server reason connecting s =
     wsc_notify connecting (s\<lparr>m_connected := False, m_server := server, m_error_reason := reason\<rparr>)"

text \<open>The code of a close, its name in the library and the reason the peer gave.\<close>

definition close_reason :: "nat \<Rightarrow> string \<Rightarrow> string \<Rightarrow> string" where
  "close_reason code code_name reason =
     ''close code: '' @ dec_nat code @ '' ('' @ code_name @ ''), close reason: '' @ reason"

definition wsc_on_close ::
  "connection_hdl \<Rightarrow> nat \<Rightarrow> string \<Rightarrow> string \<Rightarrow> (connection_hdl \<Rightarrow> bool) \<Rightarrow> 'h ws_client \<Rightarrow> 'h wsc_outcome"
where
  "wsc_on_close hdl code code_name reason connecting s =
     emit_then (case m_closeHandlerFunc s of Some h \<Rightarrow> [WscClosed h] | None \<Rightarrow> [])
       (wsc_notify connecting (s\<lparr>m_connected := False, m_error_reason := close_reason code code_name reason\<rparr>))"

section \<open>Operations\<close>

text \<open>Both overloads of \<^verbatim>\<open>sendMessage\<close> and \<^verbatim>\<open>sendPing\<close>; an error of the library is only traced.\<close>

definition wsc_sendMessage :: "string \<Rightarrow> 'h ws_client \<Rightarrow> 'h wsc_outcome" where
  "wsc_sendMessage msg s = emits [WscSend (m_connection_hdl s) msg] s"

definition wsc_sendMessage_bytes :: "bytes \<Rightarrow> 'h ws_client \<Rightarrow> 'h wsc_outcome" where
  "wsc_sendMessage_bytes msg s = emits [WscSend (m_connection_hdl s) msg] s"

definition wsc_sendPing :: "'h ws_client \<Rightarrow> 'h wsc_outcome" where
  "wsc_sendPing s = emits [WscPing (m_connection_hdl s) ''ping''] s"

text \<open>
  \<^verbatim>\<open>connect\<close> up to its return or to the wait: the answer is the connection made for the URI,
  none on an error, with whether it is connecting when the condition is first looked at.
\<close>

definition wsc_connect :: "string \<Rightarrow> (connection_hdl \<times> bool) option \<Rightarrow> 'h ws_client \<Rightarrow> 'h wsc_outcome" where
  "wsc_connect uri answer s =
     (if \<not> m_connected s then emit_then [WscGetConnection uri] (case answer of
          None \<Rightarrow> returns () (s\<lparr>m_uri := uri\<rparr>)
        | Some (con, connecting) \<Rightarrow> emit_then [WscConnect con]
            (if connecting then returns () (s\<lparr>m_uri := uri, waiting_connects := waiting_connects s @ [con]\<rparr>)
             else emits [WscConnectReturns con] (s\<lparr>m_uri := uri\<rparr>)))
      else emits [WscWarnConnected (m_uri s) uri] s)"

definition wsc_close :: "(connection_hdl \<Rightarrow> bool) \<Rightarrow> 'h ws_client \<Rightarrow> 'h wsc_outcome" where
  "wsc_close connecting s = emit_then [WscClose (m_connection_hdl s)]
     (wsc_notify connecting (s\<lparr>m_connected := False\<rparr>))"

definition isConnected :: "'h ws_client \<Rightarrow> bool" where
  "isConnected s = m_connected s"

datatype wsc_slot = WscMessageSlot | WscMessageStrSlot | WscOpenSlot | WscCloseSlot

fun wsc_register :: "wsc_slot \<Rightarrow> 'h option \<Rightarrow> 'h ws_client \<Rightarrow> 'h ws_client" where
  "wsc_register WscMessageSlot hndl s = s\<lparr>m_messageHandlerFunc := hndl\<rparr>"
| "wsc_register WscMessageStrSlot hndl s = s\<lparr>m_messageStrHandlerFunc := hndl\<rparr>"
| "wsc_register WscOpenSlot hndl s = s\<lparr>m_openHandlerFunc := hndl\<rparr>"
| "wsc_register WscCloseSlot hndl s = s\<lparr>m_closeHandlerFunc := hndl\<rparr>"

definition wsc_activate :: "'h ws_client \<Rightarrow> 'h wsc_outcome" where
  "wsc_activate s = emits [WscInit, WscStartPerpetual, WscRunThread] s"

definition wsc_deactivate :: "(connection_hdl \<Rightarrow> bool) \<Rightarrow> 'h ws_client \<Rightarrow> 'h wsc_outcome" where
  "wsc_deactivate connecting s = emit_then [WscStopPerpetual]
     (and_then (wsc_close connecting s) (\<lambda>_ s. emits [WscJoin] s))"

datatype 'h wsc_call =
    OnOpen connection_hdl string "connection_hdl \<Rightarrow> bool"
  | OnMessage connection_hdl string
  | OnFail connection_hdl string string "connection_hdl \<Rightarrow> bool"
  | OnClose connection_hdl nat string string "connection_hdl \<Rightarrow> bool"
  | Send string | SendBytes bytes | Ping
  | Connect string "(connection_hdl \<times> bool) option"
  | Close "connection_hdl \<Rightarrow> bool"
  | Register wsc_slot "'h option"
  | Activate | Deactivate "connection_hdl \<Rightarrow> bool"

fun wsc_step :: "'h ws_client \<Rightarrow> 'h wsc_call \<Rightarrow> 'h wsc_outcome" where
  "wsc_step s (OnOpen hdl server connecting) = wsc_on_open hdl server connecting s"
| "wsc_step s (OnMessage hdl payload) = wsc_on_message hdl payload s"
| "wsc_step s (OnFail hdl server reason connecting) = wsc_on_fail hdl server reason connecting s"
| "wsc_step s (OnClose hdl code code_name reason connecting) = wsc_on_close hdl code code_name reason connecting s"
| "wsc_step s (Send msg) = wsc_sendMessage msg s"
| "wsc_step s (SendBytes msg) = wsc_sendMessage_bytes msg s"
| "wsc_step s Ping = wsc_sendPing s"
| "wsc_step s (Connect uri answer) = wsc_connect uri answer s"
| "wsc_step s (Close connecting) = wsc_close connecting s"
| "wsc_step s (Register slot hndl) = returns () (wsc_register slot hndl s)"
| "wsc_step s Activate = wsc_activate s"
| "wsc_step s (Deactivate connecting) = wsc_deactivate connecting s"

lemmas wsc_op_defs = wsc_notify_def wsc_on_open_def wsc_on_message_def wsc_on_fail_def wsc_on_close_def
  wsc_sendMessage_def wsc_sendMessage_bytes_def wsc_sendPing_def wsc_connect_def wsc_close_def
  wsc_activate_def wsc_deactivate_def

section \<open>The connection flag\<close>

text \<open>The calls and events that speak of the connection, and what they say.\<close>

fun wsc_says :: "'h wsc_call \<Rightarrow> bool list" where
  "wsc_says (OnOpen hdl server connecting) = [True]"
| "wsc_says (OnFail hdl server reason connecting) = [False]"
| "wsc_says (OnClose hdl code code_name reason connecting) = [False]"
| "wsc_says (Close connecting) = [False]"
| "wsc_says (Deactivate connecting) = [False]"
| "wsc_says c = []"

lemma wsc_step_connected:
  "m_connected (state_of (wsc_step s c)) = last (m_connected s # wsc_says c)"
proof (cases c)
  case (Register slot hndl)
  then show ?thesis by (cases slot) (simp_all add: outcome_simps)
qed (auto simp: wsc_op_defs outcome_simps split: option.split)

lemma wsc_run_connected:
  "m_connected (run_calls wsc_step s cs) = last (m_connected s # concat (map wsc_says cs))"
  by (induction cs arbitrary: s) (auto simp: wsc_step_connected)

section \<open>Waiting connects\<close>

lemma count_list_map_returns:
  "count_list (map WscConnectReturns cons) (WscConnectReturns con) = count_list cons con"
  "count_list (map WscConnectReturns cons) (WscConnect con) = 0"
  by (induction cons) simp_all

lemma count_list_split: "count_list (filter (\<lambda>x. \<not> P x) xs) x + count_list (filter P xs) x = count_list xs x"
  by (induction xs) auto

lemma wsc_step_exact:
  "count_list (outs_of (wsc_step s c)) (WscConnectReturns con) + count_list (waiting_connects (state_of (wsc_step s c))) con
    = count_list (waiting_connects s) con + count_list (outs_of (wsc_step s c)) (WscConnect con)"
proof (cases c)
  case (Register slot hndl)
  then show ?thesis by (cases slot) (simp_all add: outcome_simps)
qed (auto simp: wsc_op_defs outcome_simps count_list_map_returns count_list_split split: option.split)

interpretation wsc: balanced_sequence wsc_step "\<lambda>_. True" "\<lambda>_. True"
    "\<lambda>s. count_list (waiting_connects s) con" "WscConnect con" "WscConnectReturns con" for con
  by unfold_locales (simp_all only: wsc_step_exact)

section \<open>Properties\<close>

text \<open>
  \<^verbatim>\<open>isConnected\<close> is the last word. After any run of calls and events, in whatever order, the
  client is connected exactly when the last of them that speaks of the connection was an opened
  one: a failed, a closed or a locally closed connection, of whatever handle, says no.
\<close>

theorem ws_client_flag:
  "isConnected (run_calls wsc_step ws_client0 cs) = last (False # concat (map wsc_says cs))"
  by (simp add: isConnected_def wsc_run_connected ws_client0_def)

text \<open>
  A late close hides an open connection. When the client has closed its connection and opened
  another before the library reports the close of the first, the report makes the client
  disconnected although it is open and messages go to it; the next \<^verbatim>\<open>connect\<close> makes one more.
\<close>

theorem ws_client_late_close:
  "let t = run_calls wsc_step s [OnOpen old server c1, Close c2, Connect uri (Some (new, True)),
       OnOpen new server c3, OnClose old code code_name reason c4]
   in \<not> isConnected t \<and> outs_of (wsc_sendMessage msg t) = [WscSend (Some new) msg]
     \<and> WscGetConnection uri' \<in> set (outs_of (wsc_connect uri' answer t))"
  by (auto simp: isConnected_def wsc_op_defs outcome_simps split: option.split)

text \<open>
  A \<^verbatim>\<open>connect\<close> returns once. Over any run, for every connection the times a \<^verbatim>\<open>connect\<close>
  has returned and those that still wait are the times it was made; and after an event, or a
  close, only those wait whose connection the library still calls connecting.
\<close>

theorem ws_client_connects:
  "count_list (run_outs wsc_step ws_client0 cs) (WscConnectReturns con)
     + count_list (waiting_connects (run_calls wsc_step ws_client0 cs)) con
     = count_list (run_outs wsc_step ws_client0 cs) (WscConnect con)
   \<and> list_all connecting (waiting_connects (state_of (wsc_on_open hdl server connecting s)))
   \<and> list_all connecting (waiting_connects (state_of (wsc_on_fail hdl server reason connecting s)))
   \<and> list_all connecting (waiting_connects (state_of (wsc_on_close hdl code code_name reason connecting s)))
   \<and> list_all connecting (waiting_connects (state_of (wsc_close connecting s)))"
  using wsc.run_exact [where s = ws_client0 and cs = cs and con = con]
  by (auto simp: ws_client0_def list_all_iff wsc_op_defs outcome_simps)

end
