(* ===== verification/Log_Stream.thy ===== *)
theory Log_Stream
  imports Topic
begin

text \<open>
  \<^verbatim>\<open>LogStream\<close>, the stream buffer under \<^verbatim>\<open>src/WebsocketCppService/LogStream.cpp\<close> that turns
  what the websocketpp library logs into lines of the tracer. It has no put area, so every
  character of the output stream arrives through \<^verbatim>\<open>overflow\<close>.
\<close>

section \<open>The buffer\<close>

definition log_prefix :: string where
  "log_prefix = ''Websocketpp: ''"

text \<open>
  \<^verbatim>\<open>overflow\<close>: the value returned, the messages traced and the buffer. \<^verbatim>\<open>(char)ch\<close> takes the
  low byte, also of \<^verbatim>\<open>EOF\<close>; the first argument is the tracer's \<^verbatim>\<open>isValid\<close>.
\<close>

definition overflow :: "bool \<Rightarrow> int \<Rightarrow> string \<Rightarrow> int \<times> string list \<times> string" where
  "overflow valid ch buffer = (let buffer = buffer @ [char_of (ch mod 256)] in
     if ch = 10 then (ch, if valid then [log_prefix @ buffer @ newline] else [], [])
     else (ch, [], buffer))"

text \<open>A text written to the stream, character by character.\<close>

fun log_text :: "bool \<Rightarrow> string \<Rightarrow> string \<Rightarrow> string list \<times> string" where
  "log_text valid [] buffer = ([], buffer)"
| "log_text valid (c # cs) buffer =
     (let (r, lines, buffer) = overflow valid (of_char c) buffer; (lines', buffer) = log_text valid cs buffer
      in (lines @ lines', buffer))"

section \<open>Facts\<close>

text \<open>A character of the stream comes back from its code.\<close>

lemma overflow_char:
  "overflow valid (of_char c) buffer =
    (of_char c, if c = CHR 0x0A \<and> valid then [log_prefix @ buffer @ newline @ newline] else [],
     if c = CHR 0x0A then [] else buffer @ [c])"
proof -
  have "(of_char c :: int) mod 256 = of_char c" by simp
  then have "char_of ((of_char c :: int) mod 256) = c" by simp
  moreover have "(of_char c :: int) = of_char (CHR 0x0A) \<longleftrightarrow> c = CHR 0x0A"
    by (simp only: of_char_eq_iff)
  ultimately show ?thesis by (simp add: overflow_def Let_def)
qed

lemma log_text_append:
  "log_text valid (a @ b) buffer =
     (let (lines, buffer) = log_text valid a buffer; (lines', buffer) = log_text valid b buffer
      in (lines @ lines', buffer))"
  by (induction a arbitrary: buffer) (auto simp: Let_def split: prod.split)

definition log_line :: "string \<Rightarrow> string" where
  "log_line l = log_prefix @ l @ newline @ newline"

lemma log_text_levels:
  "log_text True input buffer =
     (map log_line (butlast ((buffer @ hd (levels CHR 0x0A input)) # tl (levels CHR 0x0A input))),
      last ((buffer @ hd (levels CHR 0x0A input)) # tl (levels CHR 0x0A input)))"
proof (induction input arbitrary: buffer)
  case (Cons c cs)
  have "levels CHR 0x0A cs = hd (levels CHR 0x0A cs) # tl (levels CHR 0x0A cs)" by simp
  with Cons.IH [of "[]"] Cons.IH [of "buffer @ [c]"] show ?case
    by (auto simp: overflow_char log_line_def Let_def)
qed simp

section \<open>Properties\<close>

text \<open>
  What is traced are the lines. Whatever pieces a text is written in, with the tracer on and
  an empty buffer at the start, the messages traced are its newline-terminated lines in order,
  each once, and what follows the last newline stays in the buffer until its own arrives.
\<close>

theorem log_stream_lines:
  "log_text True input [] = (map log_line (butlast (levels CHR 0x0A input)), last (levels CHR 0x0A input))"
  using log_text_levels [of input "[]"] by simp

end
