(* ===== verification/Zero_Mq.thy ===== *)
theory Zero_Mq
  imports Step_Systems "HOL-Library.Multiset" "HOL-Library.Sublist"
begin

text \<open>
  \<^verbatim>\<open>src/ZeroMqService/ZeroMqService.cpp\<close>: a request or reply socket of ZeroMQ owned by a worker
  thread, opened, closed and fed by clients on other threads. The statements of the two workers
  are program points; a step is one of the worker, of a client, or a spurious wake-up.

  A worker holds \<^verbatim>\<open>m_mux\<close> nearly all of the time, so its point of locking and of falling asleep
  are steps of their own. The guarded part of a client operation is one step: it touches nothing
  that another thread reads or writes without \<^verbatim>\<open>m_mux\<close>, but for \<^verbatim>\<open>m_socketOpened\<close>, whose
  tests under \<^verbatim>\<open>m_muxReady\<close> are one step each. \<^verbatim>\<open>deactivate\<close> takes no lock. The answers of the
  ZeroMQ library are arguments of the steps; what happens at the socket is logged.
\<close>

section \<open>State\<close>

datatype socket_type = ReqSocket | RepSocket

datatype socket_state = StateOpen | StateClose

text \<open>
  Points of both workers (\<open>Z_\<close>), of \<^verbatim>\<open>workerReq\<close> (\<open>Q_\<close>) and \<^verbatim>\<open>workerRep\<close> (\<open>P_\<close>). The
  argument of \<open>Q_IfEnd\<close> is \<^verbatim>\<open>resetSocket\<close>, of \<open>P_Lock\<close> and \<open>P_IfRequest\<close> what the poll found.
\<close>

datatype zmq_pc =
    Z_None | Z_Test | Z_Lock | Z_WaitOpen | Z_SleepOpen | Z_AsleepOpen | Z_WokenOpen | Z_IfRun
  | Z_Socket | Z_ReadyOpen | Z_ReadyClose | Z_Done
  | Q_Wait | Q_Sleep | Q_Asleep | Q_Woken | Q_IfSend | Q_Poll | Q_InHandler bool | Q_IfEnd bool
  | P_Unlock | P_Poll | P_Lock "string option" | P_IfRequest "string option" | P_InHandler | P_Clear
  | P_Wait | P_Sleep | P_Asleep | P_Woken | P_IfSend | P_IfEnd

datatype zmq_op = SendMessage string | OpenSocket | CloseSocket | IsOpen | DeactivateService

datatype zmq_result = Returned | Threw | Said bool

text \<open>
  Points of a client: outside (with its last result), before the lock, before and in the wait for
  \<^verbatim>\<open>m_socketOpened\<close> to have a value, and along \<^verbatim>\<open>deactivate\<close>.
\<close>

datatype zmq_client =
    ZC_Out "zmq_result option" | ZC_Enter zmq_op | ZC_Wait bool | ZC_Asleep bool
  | ZC_StopRun | ZC_StopNotify | ZC_Join

datatype 'h zmq_event =
    Accepted string | Overwritten string | Dropped string | SendFailed string | Sent string
  | Opened socket_type string | Received string | Closed
  | OnMessage 'h string | OnReqTimeout 'h

record 'h zmq_service =
  m_mux :: bool
  m_socketOpened :: bool
  m_socketAdr :: string
  m_socketTypeStr :: string
  m_socketType :: socket_type
  m_requireSocketState :: socket_state
  m_thd :: zmq_pc
  m_runThd :: bool
  m_sendMessage :: bool
  m_replyWaitMillis :: int
  m_messageToSend :: string
  m_onMessageFunc :: "'h option"
  m_onReqTimeoutFunc :: "'h option"
  worker_kind :: socket_type
  zmq_clients :: "nat \<Rightarrow> zmq_client"
  zmq_log :: "'h zmq_event list"

text \<open>
  A new object. \<^verbatim>\<open>m_socketType\<close> has no initial value. \<open>m_mux\<close> says whether the worker holds
  the mutex; \<open>worker_kind\<close> is the function the thread was started with.
\<close>

definition zmq0 :: "socket_type \<Rightarrow> 'h zmq_service" where
  "zmq0 ty = \<lparr>m_mux = False, m_socketOpened = False, m_socketAdr = [], m_socketTypeStr = [],
     m_socketType = ty, m_requireSocketState = StateClose, m_thd = Z_None, m_runThd = True,
     m_sendMessage = False, m_replyWaitMillis = 2000, m_messageToSend = [],
     m_onMessageFunc = None, m_onReqTimeoutFunc = None, worker_kind = ty,
     zmq_clients = (\<lambda>_. ZC_Out None), zmq_log = []\<rparr>"

section \<open>Waking\<close>

text \<open>\<^verbatim>\<open>m_cvar\<close> has the worker waiting, \<^verbatim>\<open>m_cvarReady\<close> the clients.\<close>

fun woken :: "zmq_pc \<Rightarrow> zmq_pc" where
  "woken Z_AsleepOpen = Z_WokenOpen"
| "woken Q_Asleep = Q_Woken"
| "woken P_Asleep = P_Woken"
| "woken pc = pc"

definition notify_worker :: "'h zmq_service \<Rightarrow> 'h zmq_service" where
  "notify_worker s = s\<lparr>m_thd := woken (m_thd s)\<rparr>"

fun woken_client :: "zmq_client \<Rightarrow> zmq_client" where
  "woken_client (ZC_Asleep b) = ZC_Wait b"
| "woken_client pc = pc"

definition notify_ready :: "'h zmq_service \<Rightarrow> 'h zmq_service" where
  "notify_ready s = s\<lparr>zmq_clients := (\<lambda>c. woken_client (zmq_clients s c))\<rparr>"

section \<open>Workers\<close>

text \<open>
  What the library answers: it throws \<^verbatim>\<open>zmq::error_t\<close>, or a call works (a poll finds nothing),
  or a message is there, or a \<^verbatim>\<open>recv\<close> has no value.
\<close>

datatype zmq_answer = Fails | Works | NoData | Arrives string

definition logs :: "'h zmq_event list \<Rightarrow> 'h zmq_service \<Rightarrow> 'h zmq_service" where
  "logs es s = s\<lparr>zmq_log := zmq_log s @ es\<rparr>"

abbreviation goes :: "zmq_pc \<Rightarrow> 'h zmq_service \<Rightarrow> 'h zmq_service" where
  "goes pc s \<equiv> s\<lparr>m_thd := pc\<rparr>"

text \<open>The \<^verbatim>\<open>catch\<close> clause, with the mutex released at the end of the block.\<close>

definition caught :: "'h zmq_service \<Rightarrow> 'h zmq_service" where
  "caught s = s\<lparr>m_thd := Z_Test, m_mux := False\<rparr>"

definition locks :: "zmq_pc \<Rightarrow> 'h zmq_service \<Rightarrow> 'h zmq_service option" where
  "locks pc s = (if m_mux s then None else Some (s\<lparr>m_thd := pc, m_mux := True\<rparr>))"

text \<open>Sending the message that waits; a failed send has taken it already.\<close>

definition send_waiting :: "zmq_answer \<Rightarrow> zmq_pc \<Rightarrow> 'h zmq_service \<Rightarrow> 'h zmq_service" where
  "send_waiting ans pc s = (let s' = s\<lparr>m_sendMessage := False\<rparr> in
     if ans = Fails then caught (logs [SendFailed (m_messageToSend s)] s')
     else goes pc (logs [Sent (m_messageToSend s)] s'))"

text \<open>The end of the inner loop: disconnect or unbind, and close.\<close>

definition end_socket :: "zmq_answer \<Rightarrow> 'h zmq_service \<Rightarrow> 'h zmq_service" where
  "end_socket ans s = (if ans = Fails then caught s else goes Z_ReadyClose (logs [Closed] s))"

fun workerCommon :: "zmq_pc \<Rightarrow> zmq_answer \<Rightarrow> 'h zmq_service \<Rightarrow> 'h zmq_service option" where
  "workerCommon Z_Test ans s = Some (goes (if m_runThd s then Z_Lock else Z_Done) s)"
| "workerCommon Z_Lock ans s = locks Z_WaitOpen s"
| "workerCommon Z_WaitOpen ans s =
     Some (goes (if m_requireSocketState s = StateOpen \<or> \<not> m_runThd s then Z_IfRun else Z_SleepOpen) s)"
| "workerCommon Z_SleepOpen ans s = Some (s\<lparr>m_thd := Z_AsleepOpen, m_mux := False\<rparr>)"
| "workerCommon Z_WokenOpen ans s = locks Z_WaitOpen s"
| "workerCommon Z_IfRun ans s =
     Some (if m_runThd s then goes Z_Socket s else s\<lparr>m_thd := Z_Done, m_mux := False\<rparr>)"
| "workerCommon Z_Socket ans s = Some (if ans = Fails then caught s
     else goes Z_ReadyOpen (logs [Opened (m_socketType s) (m_socketAdr s)] s))"
| "workerCommon Z_ReadyOpen ans s =
     Some (goes (if worker_kind s = ReqSocket then Q_Wait else P_Unlock)
       (notify_ready (s\<lparr>m_socketOpened := True\<rparr>)))"
| "workerCommon Z_ReadyClose ans s =
     Some ((notify_ready (s\<lparr>m_socketOpened := False\<rparr>))\<lparr>m_thd := Z_Test, m_mux := False\<rparr>)"
| "workerCommon pc ans s = None"

fun workerReq :: "zmq_pc \<Rightarrow> zmq_answer \<Rightarrow> 'h zmq_service \<Rightarrow> 'h zmq_service option" where
  "workerReq Q_Wait ans s =
     Some (goes (if m_sendMessage s \<or> m_requireSocketState s = StateClose \<or> \<not> m_runThd s
       then Q_IfSend else Q_Sleep) s)"
| "workerReq Q_Sleep ans s = Some (s\<lparr>m_thd := Q_Asleep, m_mux := False\<rparr>)"
| "workerReq Q_Woken ans s = locks Q_Wait s"
| "workerReq Q_IfSend ans s =
     Some (if m_sendMessage s then send_waiting ans Q_Poll s else goes (Q_IfEnd False) s)"
| "workerReq Q_Poll ans s = Some (case ans of
       Fails \<Rightarrow> caught s
     | NoData \<Rightarrow> goes (Q_IfEnd False) s
     | Arrives msg \<Rightarrow> (let s' = logs [Received msg] s in
         case m_onMessageFunc s of Some h \<Rightarrow> goes (Q_InHandler False) (logs [OnMessage h msg] s')
         | None \<Rightarrow> goes (Q_IfEnd False) s')
     | Works \<Rightarrow> (case m_onReqTimeoutFunc s of
           Some h \<Rightarrow> goes (Q_InHandler True) (logs [OnReqTimeout h] s)
         | None \<Rightarrow> goes (Q_IfEnd True) s))"
| "workerReq (Q_InHandler resetSocket) ans s = Some (goes (Q_IfEnd resetSocket) s)"
| "workerReq (Q_IfEnd resetSocket) ans s =
     Some (if resetSocket \<or> m_requireSocketState s = StateClose \<or> \<not> m_runThd s
       then end_socket ans s else goes Q_Wait s)"
| "workerReq pc ans s = workerCommon pc ans s"

fun workerRep :: "zmq_pc \<Rightarrow> zmq_answer \<Rightarrow> 'h zmq_service \<Rightarrow> 'h zmq_service option" where
  "workerRep P_Unlock ans s = Some (s\<lparr>m_thd := P_Poll, m_mux := False\<rparr>)"
| "workerRep P_Poll ans s = Some (case ans of
       Fails \<Rightarrow> goes Z_Test s
     | Arrives msg \<Rightarrow> goes (P_Lock (Some msg)) s
     | _ \<Rightarrow> goes (P_Lock None) s)"
| "workerRep (P_Lock found) ans s = locks (P_IfRequest found) s"
| "workerRep (P_IfRequest found) ans s = Some (case found of
       None \<Rightarrow> goes P_IfEnd s
     | Some msg \<Rightarrow> (case ans of
           Fails \<Rightarrow> caught s
         | NoData \<Rightarrow> goes P_Clear s
         | _ \<Rightarrow> (let s' = logs [Received msg] s in
             case m_onMessageFunc s of Some h \<Rightarrow> goes P_InHandler (logs [OnMessage h msg] s')
             | None \<Rightarrow> goes P_Clear s')))"
| "workerRep P_InHandler ans s = Some (goes P_Clear s)"
| "workerRep P_Clear ans s = Some (goes P_Wait
     (logs (if m_sendMessage s then [Dropped (m_messageToSend s)] else []) (s\<lparr>m_sendMessage := False\<rparr>)))"
| "workerRep P_Wait ans s =
     Some (goes (if m_sendMessage s \<or> m_requireSocketState s = StateClose \<or> \<not> m_runThd s
       then P_IfSend else P_Sleep) s)"
| "workerRep P_Sleep ans s = Some (s\<lparr>m_thd := P_Asleep, m_mux := False\<rparr>)"
| "workerRep P_Woken ans s = locks P_Wait s"
| "workerRep P_IfSend ans s =
     Some (if m_sendMessage s then send_waiting ans P_IfEnd s else goes P_IfEnd s)"
| "workerRep P_IfEnd ans s =
     Some (if m_requireSocketState s = StateClose \<or> \<not> m_runThd s then end_socket ans s else goes P_Unlock s)"
| "workerRep pc ans s = workerCommon pc ans s"

text \<open>\<open>None\<close>: the worker sleeps, is blocked, or there is none.\<close>

definition zmq_worker_runs :: "zmq_answer \<Rightarrow> 'h zmq_service \<Rightarrow> 'h zmq_service option" where
  "zmq_worker_runs ans s =
     (if worker_kind s = ReqSocket then workerReq (m_thd s) ans s else workerRep (m_thd s) ans s)"

section \<open>Clients\<close>

definition zmq_at :: "nat \<Rightarrow> zmq_client \<Rightarrow> 'h zmq_service \<Rightarrow> 'h zmq_service" where
  "zmq_at c pc s = s\<lparr>zmq_clients := (zmq_clients s)(c := pc)\<rparr>"

definition zmq_sendMessage :: "string \<Rightarrow> 'h zmq_service \<Rightarrow> zmq_client \<times> 'h zmq_service" where
  "zmq_sendMessage msg s = (if m_requireSocketState s = StateOpen
     then (ZC_Out (Some Returned),
       notify_worker (logs ((if m_sendMessage s then [Overwritten (m_messageToSend s)] else []) @ [Accepted msg])
         (s\<lparr>m_messageToSend := msg, m_sendMessage := True\<rparr>)))
     else (ZC_Out (Some Threw), s))"

definition open_socket :: "'h zmq_service \<Rightarrow> zmq_client \<times> 'h zmq_service" where
  "open_socket s = (if m_requireSocketState s \<noteq> StateOpen
     then (ZC_Wait True, notify_worker (s\<lparr>m_socketOpened := False, m_requireSocketState := StateOpen\<rparr>))
     else (ZC_Out (Some Returned), s))"

definition close_socket :: "'h zmq_service \<Rightarrow> zmq_client \<times> 'h zmq_service" where
  "close_socket s = (if m_requireSocketState s = StateOpen
     then (ZC_Wait False, notify_worker (s\<lparr>m_socketOpened := True, m_requireSocketState := StateClose\<rparr>))
     else (ZC_Out (Some Returned), s))"

definition zmq_isOpen :: "'h zmq_service \<Rightarrow> bool" where
  "zmq_isOpen s \<longleftrightarrow> m_requireSocketState s = StateOpen"

text \<open>The guarded part of an operation; \<^verbatim>\<open>deactivate\<close> has none.\<close>

fun zmq_guarded :: "zmq_op \<Rightarrow> 'h zmq_service \<Rightarrow> zmq_client \<times> 'h zmq_service" where
  "zmq_guarded (SendMessage msg) s = zmq_sendMessage msg s"
| "zmq_guarded OpenSocket s = open_socket s"
| "zmq_guarded CloseSocket s = close_socket s"
| "zmq_guarded IsOpen s = (ZC_Out (Some (Said (zmq_isOpen s))), s)"
| "zmq_guarded DeactivateService s = (ZC_StopRun, s)"

definition client_runs :: "nat \<Rightarrow> 'h zmq_service \<Rightarrow> 'h zmq_service option" where
  "client_runs c s = (case zmq_clients s c of
       ZC_Out r \<Rightarrow> None
     | ZC_Enter op \<Rightarrow> (if m_mux s \<and> op \<noteq> DeactivateService then None
         else let (pc, t) = zmq_guarded op s in Some (zmq_at c pc t))
     | ZC_Wait b \<Rightarrow> Some (zmq_at c (if m_socketOpened s = b then ZC_Out (Some Returned) else ZC_Asleep b) s)
     | ZC_Asleep b \<Rightarrow> None
     | ZC_StopRun \<Rightarrow> Some (zmq_at c ZC_StopNotify (s\<lparr>m_runThd := False\<rparr>))
     | ZC_StopNotify \<Rightarrow> Some (zmq_at c ZC_Join (notify_worker s))
     | ZC_Join \<Rightarrow> (if m_thd s = Z_Done \<or> m_thd s = Z_None
         then Some (zmq_at c (ZC_Out (Some Returned)) (s\<lparr>m_thd := Z_None\<rparr>)) else None))"

record zmq_props =
  zp_socketAdr :: "string option"
  zp_socketType :: "string option"
  zp_replyWaitMillis :: "int option"

text \<open>\<^verbatim>\<open>str2enum\<close> is the convertor of the framework, on the table of the two types.\<close>

definition zmq_modify :: "(string \<Rightarrow> socket_type) \<Rightarrow> zmq_props \<Rightarrow> 'h zmq_service \<Rightarrow> 'h zmq_service" where
  "zmq_modify str2enum props s = (let
       adr = (case zp_socketAdr props of Some v \<Rightarrow> v | None \<Rightarrow> m_socketAdr s);
       str = (case zp_socketType props of Some v \<Rightarrow> v | None \<Rightarrow> m_socketTypeStr s);
       wait = (case zp_replyWaitMillis props of Some v \<Rightarrow> v | None \<Rightarrow> m_replyWaitMillis s)
     in s\<lparr>m_socketAdr := adr, m_socketTypeStr := str, m_replyWaitMillis := wait, m_socketType := str2enum str\<rparr>)"

text \<open>
  \<^verbatim>\<open>activate\<close> starts the thread of the type. A thread that was not joined, running or at its end, is
  not replaced: assigning to it ends the process.
\<close>

definition zmq_activate ::
  "(string \<Rightarrow> socket_type) \<Rightarrow> zmq_props \<Rightarrow> 'h zmq_service \<Rightarrow> 'h zmq_service option"
where
  "zmq_activate str2enum props s = (let t = zmq_modify str2enum props s in
     if m_thd s = Z_None then Some (t\<lparr>m_thd := Z_Test, worker_kind := m_socketType t\<rparr>)
     else None)"

section \<open>The system\<close>

datatype 'h zmq_action =
    WorkerRuns zmq_answer | WorkerWakes | ClientWakes nat | ClientCalls nat zmq_op | ClientRuns nat
  | RegisterOnMessage "'h option" | RegisterOnReqTimeout "'h option"
  | Modifies "string \<Rightarrow> socket_type" zmq_props | Activates "string \<Rightarrow> socket_type" zmq_props

fun zmq_act :: "'h zmq_action \<Rightarrow> 'h zmq_service \<Rightarrow> 'h zmq_service option" where
  "zmq_act (WorkerRuns ans) s = zmq_worker_runs ans s"
| "zmq_act WorkerWakes s = Some (notify_worker s)"
| "zmq_act (ClientWakes c) s = Some (zmq_at c (woken_client (zmq_clients s c)) s)"
| "zmq_act (ClientCalls c op) s = (case zmq_clients s c of
       ZC_Out r \<Rightarrow> Some (zmq_at c (ZC_Enter op) s) | _ \<Rightarrow> None)"
| "zmq_act (ClientRuns c) s = client_runs c s"
| "zmq_act (RegisterOnMessage h) s = Some (s\<lparr>m_onMessageFunc := h\<rparr>)"
| "zmq_act (RegisterOnReqTimeout h) s = Some (s\<lparr>m_onReqTimeoutFunc := h\<rparr>)"
| "zmq_act (Modifies str2enum props) s = Some (zmq_modify str2enum props s)"
| "zmq_act (Activates str2enum props) s = zmq_activate str2enum props s"

text \<open>The steps of the actions that satisfy \<open>A\<close>.\<close>

inductive zmq_step :: "('h zmq_action \<Rightarrow> bool) \<Rightarrow> 'h zmq_service \<Rightarrow> 'h zmq_service \<Rightarrow> bool"
  for A :: "'h zmq_action \<Rightarrow> bool"
where
  zmq_act_step: "A a \<Longrightarrow> zmq_act a s = Some t \<Longrightarrow> zmq_step A s t"

inductive_cases zmq_stepE: "zmq_step A s t"

text \<open>A schedule; actions that are not possible are skipped.\<close>

fun zmq_schedule :: "'h zmq_action list \<Rightarrow> 'h zmq_service \<Rightarrow> 'h zmq_service" where
  "zmq_schedule [] s = s"
| "zmq_schedule (a # as) s = zmq_schedule as (case zmq_act a s of Some t \<Rightarrow> t | None \<Rightarrow> s)"

section \<open>Who holds the mutex\<close>

fun holds_mux :: "zmq_pc \<Rightarrow> bool" where
  "holds_mux (P_Lock found) = False"
| "holds_mux pc = (pc \<notin> {Z_None, Z_Test, Z_Lock, Z_AsleepOpen, Z_WokenOpen, Z_Done, Q_Asleep, Q_Woken,
     P_Poll, P_Asleep, P_Woken})"

lemmas zmq_worker_defs = zmq_worker_runs_def locks_def caught_def send_waiting_def end_socket_def Let_def

lemma logs_sel [simp]:
  "m_mux (logs es s) = m_mux s" "m_socketOpened (logs es s) = m_socketOpened s"
  "m_socketType (logs es s) = m_socketType s" "m_requireSocketState (logs es s) = m_requireSocketState s"
  "m_thd (logs es s) = m_thd s" "m_runThd (logs es s) = m_runThd s"
  "m_sendMessage (logs es s) = m_sendMessage s" "m_messageToSend (logs es s) = m_messageToSend s"
  "worker_kind (logs es s) = worker_kind s" "zmq_clients (logs es s) = zmq_clients s"
  "zmq_log (logs es s) = zmq_log s @ es"
  by (simp_all add: logs_def)

lemma notify_ready_sel [simp]:
  "m_mux (notify_ready s) = m_mux s" "m_socketOpened (notify_ready s) = m_socketOpened s"
  "m_socketType (notify_ready s) = m_socketType s"
  "m_requireSocketState (notify_ready s) = m_requireSocketState s"
  "m_thd (notify_ready s) = m_thd s" "m_runThd (notify_ready s) = m_runThd s"
  "m_sendMessage (notify_ready s) = m_sendMessage s" "m_messageToSend (notify_ready s) = m_messageToSend s"
  "worker_kind (notify_ready s) = worker_kind s" "zmq_log (notify_ready s) = zmq_log s"
  "zmq_clients (notify_ready s) = (\<lambda>c. woken_client (zmq_clients s c))"
  by (simp_all add: notify_ready_def)

lemma notify_worker_sel [simp]:
  "m_mux (notify_worker s) = m_mux s" "m_socketOpened (notify_worker s) = m_socketOpened s"
  "m_socketType (notify_worker s) = m_socketType s"
  "m_requireSocketState (notify_worker s) = m_requireSocketState s"
  "m_thd (notify_worker s) = woken (m_thd s)" "m_runThd (notify_worker s) = m_runThd s"
  "m_sendMessage (notify_worker s) = m_sendMessage s" "m_messageToSend (notify_worker s) = m_messageToSend s"
  "worker_kind (notify_worker s) = worker_kind s" "zmq_log (notify_worker s) = zmq_log s"
  "zmq_clients (notify_worker s) = zmq_clients s"
  by (simp_all add: notify_worker_def)

lemma zmq_at_sel [simp]:
  "m_mux (zmq_at c pc s) = m_mux s" "m_socketOpened (zmq_at c pc s) = m_socketOpened s"
  "m_socketType (zmq_at c pc s) = m_socketType s"
  "m_requireSocketState (zmq_at c pc s) = m_requireSocketState s"
  "m_thd (zmq_at c pc s) = m_thd s" "m_runThd (zmq_at c pc s) = m_runThd s"
  "m_sendMessage (zmq_at c pc s) = m_sendMessage s" "m_messageToSend (zmq_at c pc s) = m_messageToSend s"
  "worker_kind (zmq_at c pc s) = worker_kind s" "zmq_log (zmq_at c pc s) = zmq_log s"
  "zmq_clients (zmq_at c pc s) = (zmq_clients s)(c := pc)"
  by (simp_all add: zmq_at_def)

lemma zmq_modify_sel [simp]:
  "m_mux (zmq_modify f p s) = m_mux s" "m_socketOpened (zmq_modify f p s) = m_socketOpened s"
  "m_requireSocketState (zmq_modify f p s) = m_requireSocketState s"
  "m_thd (zmq_modify f p s) = m_thd s" "m_runThd (zmq_modify f p s) = m_runThd s"
  "m_sendMessage (zmq_modify f p s) = m_sendMessage s"
  "m_messageToSend (zmq_modify f p s) = m_messageToSend s"
  "worker_kind (zmq_modify f p s) = worker_kind s" "zmq_log (zmq_modify f p s) = zmq_log s"
  "zmq_clients (zmq_modify f p s) = zmq_clients s"
  by (simp_all add: zmq_modify_def Let_def)

lemma holds_woken [simp]: "holds_mux (woken pc) = holds_mux pc"
  by (cases pc) simp_all

lemma zmq_guarded_frame:
  "zmq_guarded op s = (pc, t) \<Longrightarrow> m_mux t = m_mux s \<and> (m_thd t = m_thd s \<or> m_thd t = woken (m_thd s))
     \<and> m_runThd t = m_runThd s \<and> m_socketType t = m_socketType s \<and> worker_kind t = worker_kind s
     \<and> zmq_clients t = zmq_clients s"
  by (cases op) (auto simp: zmq_sendMessage_def open_socket_def close_socket_def split: if_splits)

definition mux_inv :: "'h zmq_service \<Rightarrow> bool" where
  "mux_inv s \<longleftrightarrow> m_mux s = holds_mux (m_thd s)"

lemma mux_inv_worker: "mux_inv s \<Longrightarrow> zmq_worker_runs ans s = Some t \<Longrightarrow> mux_inv t"
  by (cases "m_thd s")
     (auto simp: mux_inv_def zmq_worker_defs split: if_splits zmq_answer.splits option.splits)

lemma mux_inv_client: "mux_inv s \<Longrightarrow> client_runs c s = Some t \<Longrightarrow> mux_inv t"
  by (auto simp: mux_inv_def client_runs_def split: zmq_client.splits if_splits prod.splits
      dest!: zmq_guarded_frame)

lemma zmq_activate_Some:
  "zmq_activate f p s = Some t \<longleftrightarrow> m_thd s = Z_None
     \<and> t = (zmq_modify f p s)\<lparr>m_thd := Z_Test, worker_kind := m_socketType (zmq_modify f p s)\<rparr>"
  by (auto simp: zmq_activate_def Let_def)

lemma zmq_act_cases:
  assumes "zmq_act a s = Some t"
  obtains (worker) ans where "a = WorkerRuns ans" "zmq_worker_runs ans s = Some t"
  | (client) c where "a = ClientRuns c" "client_runs c s = Some t"
  | (wake) "a = WorkerWakes" "t = notify_worker s"
  | (wake_client) c where "a = ClientWakes c" "t = zmq_at c (woken_client (zmq_clients s c)) s"
  | (call) c op r where "a = ClientCalls c op" "zmq_clients s c = ZC_Out r" "t = zmq_at c (ZC_Enter op) s"
  | (on_message) h where "a = RegisterOnMessage h" "t = s\<lparr>m_onMessageFunc := h\<rparr>"
  | (on_timeout) h where "a = RegisterOnReqTimeout h" "t = s\<lparr>m_onReqTimeoutFunc := h\<rparr>"
  | (modify) f p where "a = Modifies f p" "t = zmq_modify f p s"
  | (activate) f p where "a = Activates f p" "m_thd s = Z_None"
      "t = (zmq_modify f p s)\<lparr>m_thd := Z_Test, worker_kind := m_socketType (zmq_modify f p s)\<rparr>"
proof (cases a)
  case (ClientCalls c op)
  with assms obtain r where "zmq_clients s c = ZC_Out r" by (auto split: zmq_client.splits)
  with ClientCalls assms call show ?thesis by simp
next
  case (Activates f p)
  with assms activate show ?thesis by (simp add: zmq_activate_Some)
next
  case (WorkerRuns ans)
  with assms show ?thesis by (intro worker) simp_all
next
  case (ClientRuns c)
  with assms show ?thesis by (intro client) simp_all
next
  case WorkerWakes
  with assms show ?thesis by (intro wake) auto
next
  case (ClientWakes c)
  with assms show ?thesis by (intro wake_client) auto
next
  case (RegisterOnMessage h)
  with assms show ?thesis by (intro on_message) auto
next
  case (RegisterOnReqTimeout h)
  with assms show ?thesis by (intro on_timeout) auto
next
  case (Modifies f p)
  with assms show ?thesis by (intro modify) auto
qed

lemma mux_inv_act:
  assumes "zmq_act a s = Some t" and "mux_inv s"
  shows "mux_inv t"
  using assms(1)
proof (cases rule: zmq_act_cases)
  case worker
  with assms(2) show ?thesis by (blast intro: mux_inv_worker)
next
  case client
  with assms(2) show ?thesis by (blast intro: mux_inv_client)
next
  case activate
  with assms(2) show ?thesis by (auto simp: mux_inv_def)
qed (use assms(2) in \<open>simp_all add: mux_inv_def\<close>)

interpretation zmq_mux: interleaving "zmq0 ty" "zmq_step A" mux_inv
proof unfold_locales
  show "mux_inv (zmq0 ty)" by (simp add: mux_inv_def zmq0_def)
  show "mux_inv s \<Longrightarrow> zmq_step A s t \<Longrightarrow> mux_inv t" for s t :: "'a zmq_service"
    by (elim zmq_stepE) (rule mux_inv_act)
qed

section \<open>The fate of messages\<close>

fun accepted_of :: "'h zmq_event \<Rightarrow> string list" where
  "accepted_of (Accepted msg) = [msg]"
| "accepted_of _ = []"

fun sent_of :: "'h zmq_event \<Rightarrow> string list" where
  "sent_of (Sent msg) = [msg]"
| "sent_of _ = []"

fun lost_of :: "'h zmq_event \<Rightarrow> string list" where
  "lost_of (Overwritten msg) = [msg]"
| "lost_of (Dropped msg) = [msg]"
| "lost_of (SendFailed msg) = [msg]"
| "lost_of _ = []"

abbreviation in_log :: "('h zmq_event \<Rightarrow> string list) \<Rightarrow> 'h zmq_service \<Rightarrow> string list" where
  "in_log f s \<equiv> concat (map f (zmq_log s))"

definition waiting_message :: "'h zmq_service \<Rightarrow> string list" where
  "waiting_message s = (if m_sendMessage s then [m_messageToSend s] else [])"

definition fate_inv :: "'h zmq_service \<Rightarrow> bool" where
  "fate_inv s \<longleftrightarrow> subseq (in_log sent_of s @ waiting_message s) (in_log accepted_of s)
     \<and> mset (in_log accepted_of s) = mset (in_log sent_of s) + mset (in_log lost_of s) + mset (waiting_message s)"

lemma subseq_front: "subseq (xs @ ys) zs \<Longrightarrow> subseq xs zs"
  by (meson subseq_order.order_trans subseq_rev_drop_many subseq_order.order_refl)

text \<open>Steps that log nothing of messages and leave the slot keep the invariant.\<close>

lemma fate_inv_frame [simp]:
  "fate_inv (s\<lparr>m_thd := pc\<rparr>) = fate_inv s" "fate_inv (s\<lparr>m_mux := b\<rparr>) = fate_inv s"
  "fate_inv (s\<lparr>m_socketOpened := b\<rparr>) = fate_inv s" "fate_inv (s\<lparr>m_runThd := b\<rparr>) = fate_inv s"
  "fate_inv (s\<lparr>m_requireSocketState := st\<rparr>) = fate_inv s" "fate_inv (s\<lparr>worker_kind := ty\<rparr>) = fate_inv s"
  "fate_inv (s\<lparr>m_onMessageFunc := h\<rparr>) = fate_inv s" "fate_inv (s\<lparr>m_onReqTimeoutFunc := h\<rparr>) = fate_inv s"
  "fate_inv (caught s) = fate_inv s" "fate_inv (notify_ready s) = fate_inv s"
  "fate_inv (notify_worker s) = fate_inv s" "fate_inv (zmq_at c cpc s) = fate_inv s"
  "fate_inv (zmq_modify f p s) = fate_inv s"
  by (simp_all add: fate_inv_def waiting_message_def caught_def)

lemma fate_inv_logs [simp]:
  "fate_inv (logs [Opened ty adr] s) = fate_inv s" "fate_inv (logs [Received msg] s) = fate_inv s"
  "fate_inv (logs [Closed] s) = fate_inv s" "fate_inv (logs [OnMessage h msg] s) = fate_inv s"
  "fate_inv (logs [OnReqTimeout h] s) = fate_inv s"
  by (simp_all add: fate_inv_def waiting_message_def)

lemma fate_inv_send_waiting:
  assumes "fate_inv s" and "m_sendMessage s"
  shows "fate_inv (send_waiting ans pc s)"
  using assms subseq_front
  by (auto simp: fate_inv_def waiting_message_def send_waiting_def caught_def Let_def)

lemma fate_inv_clear:
  assumes "fate_inv s"
  shows "fate_inv (goes P_Wait
     (logs (if m_sendMessage s then [Dropped (m_messageToSend s)] else []) (s\<lparr>m_sendMessage := False\<rparr>)))"
  using assms subseq_front by (auto simp: fate_inv_def waiting_message_def)

lemma fate_inv_sendMessage:
  assumes "fate_inv s"
  shows "fate_inv (snd (zmq_sendMessage msg s))"
  using assms subseq_front
  by (auto simp: fate_inv_def waiting_message_def zmq_sendMessage_def)

lemma fate_inv_worker:
  assumes "zmq_worker_runs ans s = Some t" and "fate_inv s"
  shows "fate_inv t"
  using assms(1)
  by (cases "m_thd s")
     (use assms(2) fate_inv_send_waiting [OF assms(2)] fate_inv_clear [OF assms(2)] in
      \<open>auto simp: zmq_worker_runs_def locks_def end_socket_def Let_def
        split: if_splits zmq_answer.splits option.splits simp del: logs_sel\<close>)

lemma fate_inv_guarded: "fate_inv s \<Longrightarrow> fate_inv (snd (zmq_guarded op s))"
  using fate_inv_sendMessage [of s]
  by (cases op) (auto simp: open_socket_def close_socket_def)

lemma fate_inv_client:
  assumes "client_runs c s = Some t" and "fate_inv s"
  shows "fate_inv t"
proof (cases "zmq_clients s c")
  case (ZC_Enter op)
  with assms fate_inv_guarded [OF assms(2), of op] show ?thesis
    by (auto simp: client_runs_def split: if_splits prod.splits)
qed (use assms in \<open>auto simp: client_runs_def split: if_splits\<close>)

lemma fate_inv_act:
  assumes "zmq_act a s = Some t" and "fate_inv s"
  shows "fate_inv t"
  using assms(1)
proof (cases rule: zmq_act_cases)
  case worker
  with assms(2) show ?thesis by (blast intro: fate_inv_worker)
next
  case client
  with assms(2) show ?thesis by (blast intro: fate_inv_client)
qed (use assms(2) in simp_all)

interpretation zmq_fate: interleaving "zmq0 ty" "zmq_step A" fate_inv
proof unfold_locales
  show "fate_inv (zmq0 ty)" by (simp add: fate_inv_def zmq0_def waiting_message_def)
  show "fate_inv s \<Longrightarrow> zmq_step A s t \<Longrightarrow> fate_inv t" for s t :: "'a zmq_service"
    by (elim zmq_stepE) (rule fate_inv_act)
qed

section \<open>Lockstep of the socket\<close>

text \<open>
  The rule of ZeroMQ: a request socket sends first, a reply socket receives first, and both take
  turns; a new socket starts anew, a closed one is not used.
\<close>

datatype sock = NoSocket | MaySend | MayReceive | Misused

fun sock_step :: "sock \<Rightarrow> 'h zmq_event \<Rightarrow> sock" where
  "sock_step Misused e = Misused"
| "sock_step x (Opened ty adr) = (if ty = ReqSocket then MaySend else MayReceive)"
| "sock_step x (Sent msg) = (if x = MaySend then MayReceive else Misused)"
| "sock_step x (SendFailed msg) = (if x = MaySend then NoSocket else Misused)"
| "sock_step x (Received msg) = (if x = MayReceive then MaySend else Misused)"
| "sock_step x Closed = (if x = NoSocket then Misused else NoSocket)"
| "sock_step x e = x"

lemma sock_step_Opened [simp]:
  "x \<noteq> Misused \<Longrightarrow> sock_step x (Opened ty adr) = (if ty = ReqSocket then MaySend else MayReceive)"
  by (cases x) simp_all

lemma sock_step_silent [simp]:
  "sock_step x (Accepted msg) = x" "sock_step x (Overwritten msg) = x" "sock_step x (Dropped msg) = x"
  "sock_step x (OnMessage h msg) = x" "sock_step x (OnReqTimeout h) = x"
  by (cases x; simp)+

definition sock :: "'h zmq_service \<Rightarrow> sock" where
  "sock s = foldl sock_step NoSocket (zmq_log s)"

lemma sock_logs [simp]: "sock (logs es s) = foldl sock_step (sock s) es"
  by (simp add: sock_def)

lemma sock_frame [simp]:
  "sock (s\<lparr>m_thd := pc\<rparr>) = sock s" "sock (s\<lparr>m_mux := b\<rparr>) = sock s"
  "sock (s\<lparr>m_socketOpened := b\<rparr>) = sock s" "sock (s\<lparr>m_runThd := b\<rparr>) = sock s"
  "sock (s\<lparr>m_requireSocketState := st\<rparr>) = sock s" "sock (s\<lparr>worker_kind := ty\<rparr>) = sock s"
  "sock (s\<lparr>m_onMessageFunc := h\<rparr>) = sock s" "sock (s\<lparr>m_onReqTimeoutFunc := h\<rparr>) = sock s"
  "sock (s\<lparr>m_sendMessage := b\<rparr>) = sock s" "sock (s\<lparr>m_messageToSend := msg\<rparr>) = sock s"
  "sock (notify_ready s) = sock s" "sock (notify_worker s) = sock s" "sock (zmq_at c cpc s) = sock s"
  "sock (zmq_modify f p s) = sock s"
  by (simp_all add: sock_def)

definition leaving :: "'h zmq_service \<Rightarrow> bool" where
  "leaving s \<longleftrightarrow> m_requireSocketState s = StateClose \<or> \<not> m_runThd s"

text \<open>What the socket allows at the points of the workers.\<close>

fun sock_ok :: "zmq_pc \<Rightarrow> 'h zmq_service \<Rightarrow> bool" where
  "sock_ok Z_ReadyOpen s = (sock s = (if worker_kind s = ReqSocket then MaySend else MayReceive))"
| "sock_ok Q_Poll s = (sock s = MayReceive)"
| "sock_ok (Q_InHandler reset) s = (sock s = (if reset then MayReceive else MaySend))"
| "sock_ok (Q_IfEnd reset) s = (sock s = (if reset then MayReceive else MaySend))"
| "sock_ok P_Unlock s = (sock s = MayReceive)"
| "sock_ok P_Poll s = (sock s = MayReceive)"
| "sock_ok (P_Lock found) s = (sock s = MayReceive)"
| "sock_ok (P_IfRequest found) s = (sock s = MayReceive)"
| "sock_ok P_IfSend s = (sock s = MaySend \<and> (m_sendMessage s \<or> leaving s))"
| "sock_ok P_IfEnd s = (sock s = MayReceive \<or> sock s = MaySend \<and> leaving s)"
| "sock_ok pc s = (if pc \<in> {Q_Wait, Q_Sleep, Q_Asleep, Q_Woken, Q_IfSend, P_InHandler, P_Clear, P_Wait,
     P_Sleep, P_Asleep, P_Woken} then sock s = MaySend else sock s \<noteq> Misused)"

lemma sock_ok_used: "sock_ok pc s \<Longrightarrow> sock s \<noteq> Misused"
  by (cases pc) (auto split: if_splits)

definition lockstep_inv :: "'h zmq_service \<Rightarrow> bool" where
  "lockstep_inv s \<longleftrightarrow> mux_inv s \<and> worker_kind s = m_socketType s \<and> sock_ok (m_thd s) s"

text \<open>The library delivers what it has announced, and the configuration stays.\<close>

fun orderly :: "'h zmq_action \<Rightarrow> bool" where
  "orderly (WorkerRuns ans) = (ans \<noteq> NoData)"
| "orderly (Modifies f p) = False"
| "orderly a = True"

lemma sock_ok_caught: "sock s \<noteq> Misused \<Longrightarrow> sock_ok (m_thd (caught s)) (caught s)"
  by (simp add: caught_def)

lemma lockstep_worker:
  assumes "zmq_worker_runs ans s = Some t" and "lockstep_inv s" and "ans \<noteq> NoData"
  shows "sock_ok (m_thd t) t \<and> worker_kind t = worker_kind s \<and> m_socketType t = m_socketType s"
proof -
  from assms(2) have ok: "sock_ok (m_thd s) s" and ty: "worker_kind s = m_socketType s"
    by (simp_all add: lockstep_inv_def)
  show ?thesis
    by (cases "m_thd s")
       (use assms(1,3) ok ty in \<open>auto simp: zmq_worker_defs leaving_def
          split: if_splits zmq_answer.splits option.splits\<close>)
qed


text \<open>A client operation moves the worker only out of sleep, and not while it holds the mutex.\<close>

lemma sock_ok_woken: "sock_ok pc s \<Longrightarrow> sock_ok (woken pc) s"
  by (cases pc) simp_all

lemma sock_ok_frame:
  assumes "sock_ok pc s" and "sock t = sock s" and "worker_kind t = worker_kind s"
    and "holds_mux pc \<Longrightarrow> m_sendMessage t = m_sendMessage s \<and> (leaving s \<longrightarrow> leaving t)"
  shows "sock_ok pc t"
  using assms by (cases pc) auto

lemma sock_ok_at [simp]: "sock_ok pc (zmq_at c cpc s) = sock_ok pc s"
  by (cases pc) (auto simp: leaving_def)

lemma sock_guarded: "sock (snd (zmq_guarded op s)) = sock s"
  by (cases op) (auto simp: zmq_sendMessage_def open_socket_def close_socket_def)

lemma sock_ok_client:
  assumes "client_runs c s = Some t" and "mux_inv s" and "sock_ok (m_thd s) s"
  shows "sock_ok (m_thd t) t"
proof (cases "zmq_clients s c")
  case (ZC_Enter op)
  obtain pc u where u: "zmq_guarded op s = (pc, u)" by (cases "zmq_guarded op s")
  with ZC_Enter assms(1) have t: "t = zmq_at c pc u" and free: "op = DeactivateService \<or> \<not> m_mux s"
    by (auto simp: client_runs_def split: if_splits)
  note frame = zmq_guarded_frame [OF u]
  have "sock u = sock s" using sock_guarded [of op s] u by simp
  moreover have "op = DeactivateService \<Longrightarrow> u = s" using u by auto
  ultimately have "sock_ok (m_thd s) u"
    using free frame assms(2,3) by (auto intro: sock_ok_frame [OF assms(3)] simp: mux_inv_def)
  then have "sock_ok (m_thd u) u" using frame by (auto intro: sock_ok_woken)
  then show ?thesis by (simp add: t)
next
  case ZC_StopRun
  with assms(1) have "t = zmq_at c ZC_StopNotify (s\<lparr>m_runThd := False\<rparr>)"
    by (simp add: client_runs_def)
  with assms(3) show ?thesis by (auto intro: sock_ok_frame simp: leaving_def)
next
  case ZC_StopNotify
  with assms(1) have t: "t = zmq_at c ZC_Join (notify_worker s)" by (simp add: client_runs_def)
  have "sock_ok (woken (m_thd s)) s" by (rule sock_ok_woken [OF assms(3)])
  then show ?thesis unfolding t by (auto intro: sock_ok_frame simp: leaving_def)
qed (use assms(1,3) in \<open>auto simp: client_runs_def leaving_def intro: sock_ok_frame split: if_splits\<close>)

lemma lockstep_act:
  assumes "zmq_act a s = Some t" and "lockstep_inv s" and "orderly a"
  shows "lockstep_inv t"
proof -
  from assms(2) have inv: "mux_inv s" "worker_kind s = m_socketType s" "sock_ok (m_thd s) s"
    by (simp_all add: lockstep_inv_def)
  have "worker_kind t = m_socketType t \<and> sock_ok (m_thd t) t"
    using assms(1)
  proof (cases rule: zmq_act_cases)
    case (worker ans)
    with lockstep_worker [OF worker(2) assms(2)] assms(3) inv show ?thesis by simp
  next
    case (client c)
    have "worker_kind t = worker_kind s \<and> m_socketType t = m_socketType s"
      using client(2) by (auto simp: client_runs_def split: zmq_client.splits if_splits prod.splits
          dest!: zmq_guarded_frame)
    with sock_ok_client [OF client(2) inv(1,3)] inv show ?thesis by simp
  next
    case wake
    have "sock_ok (woken (m_thd s)) s" by (rule sock_ok_woken [OF inv(3)])
    with wake inv(2) show ?thesis by (auto intro: sock_ok_frame simp: leaving_def)
  next
    case activate
    then show ?thesis using sock_ok_used [OF inv(3)] by simp
  qed (use inv assms(3) in \<open>auto intro: sock_ok_frame simp: leaving_def\<close>)
  with mux_inv_act [OF assms(1) inv(1)] show ?thesis by (simp add: lockstep_inv_def)
qed

interpretation zmq_lockstep: interleaving "zmq0 ty" "zmq_step orderly" lockstep_inv
proof unfold_locales
  show "lockstep_inv (zmq0 ty)" by (simp add: lockstep_inv_def mux_inv_def zmq0_def sock_def)
  show "lockstep_inv s \<Longrightarrow> zmq_step orderly s t \<Longrightarrow> lockstep_inv t" for s t :: "'a zmq_service"
    by (elim zmq_stepE) (rule lockstep_act)
qed

section \<open>Properties\<close>

lemma zmq_schedule_reaches:
  assumes "list_all A as" and "reaches (zmq_step A) r s"
  shows "reaches (zmq_step A) r (zmq_schedule as s)"
  using assms
proof (induction as arbitrary: s)
  case (Cons a as)
  have "reaches (zmq_step A) r (case zmq_act a s of Some t \<Rightarrow> t | None \<Rightarrow> s)"
    using Cons.prems by (auto intro: reaches_step zmq_act_step split: option.split)
  with Cons show ?case by simp
qed simp

lemmas zmq_schedule_from = zmq_schedule_reaches [OF _ reaches_start]

text \<open>The evaluation of schedules.\<close>

lemmas zmq_run_simps = zmq0_def zmq_activate_def zmq_modify_def zmq_worker_runs_def locks_def caught_def
  send_waiting_def end_socket_def logs_def notify_ready_def notify_worker_def zmq_at_def client_runs_def
  zmq_sendMessage_def open_socket_def close_socket_def zmq_isOpen_def Let_def

definition req_props :: zmq_props where
  "req_props = \<lparr>zp_socketAdr = Some ''a'', zp_socketType = Some ''req'', zp_replyWaitMillis = None\<rparr>"

text \<open>Start of a request socket, opened by client 0; two messages; the worker sends one.\<close>

definition req_start :: "nat zmq_action list" where
  "req_start = Activates (\<lambda>_. ReqSocket) req_props # replicate 4 (WorkerRuns Works)
     @ [ClientCalls 0 OpenSocket, ClientRuns 0] @ replicate 7 (WorkerRuns Works)"

definition req_overwrite :: "nat zmq_action list" where
  "req_overwrite = req_start @ [ClientRuns 0, WorkerRuns Works, ClientCalls 0 (SendMessage ''m''), ClientRuns 0,
     ClientCalls 1 (SendMessage ''n''), ClientRuns 1] @ replicate 3 (WorkerRuns Works)"

text \<open>
  C13: every message accepted has one fate. In any interleaving of the worker with any number of
  clients, the messages passed to the socket and the one that waits are, in this order, among
  the messages accepted; and every accepted message has been sent, or was overwritten by a later
  one, dropped before a request, or lost in a failed send, or waits.
\<close>

theorem zmq_message_fates:
  assumes "reaches (zmq_step A) (zmq0 ty) s"
  shows "subseq (in_log sent_of s @ waiting_message s) (in_log accepted_of s)
    \<and> mset (in_log accepted_of s) = mset (in_log sent_of s) + mset (in_log lost_of s) + mset (waiting_message s)"
  using zmq_fate.inv_reaches [OF assms] by (simp_all add: fate_inv_def)

theorem zmq_message_fates_witness:
  "let s = zmq_schedule req_overwrite (zmq0 ReqSocket) in
     in_log accepted_of s = [''m'', ''n''] \<and> in_log sent_of s = [''n'']
     \<and> subseq (in_log sent_of s @ waiting_message s) (in_log accepted_of s)"
proof -
  let ?s = "zmq_schedule req_overwrite (zmq0 ReqSocket)"
  have "list_all (\<lambda>_. True) req_overwrite" by (simp add: list_all_iff)
  from conjunct1 [OF zmq_message_fates [OF zmq_schedule_from [OF this]]]
  have "subseq (in_log sent_of ?s @ waiting_message ?s) (in_log accepted_of ?s)" .
  moreover have "in_log accepted_of ?s = [''m'', ''n''] \<and> in_log sent_of ?s = [''n'']"
    by (simp add: req_overwrite_def req_start_def zmq_run_simps numeral_eq_Suc)
  ultimately show ?thesis by (simp add: Let_def)
qed

text \<open>
  C14: the sockets are used in turns. In any interleaving without a change of the configuration
  (\<^verbatim>\<open>modify\<close>, which could change the type of the socket under the worker) and with a library that
  delivers what it announced (a \<^verbatim>\<open>recv\<close> after a successful \<^verbatim>\<open>poll\<close> has a message), a request socket alternates sends and receives starting
  with a send, a reply socket starting with a receive, also across timeouts, failures, closing
  and opening, and no socket is used after it was closed.
\<close>

theorem zmq_socket_turns:
  assumes "reaches (zmq_step orderly) (zmq0 ty) s"
  shows "sock s \<noteq> Misused"
  using zmq_lockstep.inv_reaches [OF assms] sock_ok_used by (auto simp: lockstep_inv_def)

theorem zmq_socket_turns_witness:
  "let s = zmq_schedule (req_overwrite @ [WorkerRuns Works, WorkerRuns Works]) (zmq0 ReqSocket) in
     sock s = NoSocket \<and> Closed \<in> set (zmq_log s) \<and> sock s \<noteq> Misused"
proof -
  let ?as = "req_overwrite @ [WorkerRuns Works, WorkerRuns Works]"
  let ?s = "zmq_schedule ?as (zmq0 ReqSocket)"
  have "list_all orderly ?as" by (simp add: req_overwrite_def req_start_def numeral_eq_Suc)
  from zmq_socket_turns [OF zmq_schedule_from [OF this]] have "sock ?s \<noteq> Misused" .
  moreover have "sock ?s = NoSocket \<and> Closed \<in> set (zmq_log ?s)"
    by (simp add: req_overwrite_def req_start_def zmq_run_simps numeral_eq_Suc sock_def)
  ultimately show ?thesis by (simp add: Let_def)
qed

text \<open>In a handler of the user.\<close>

fun in_handler :: "zmq_pc \<Rightarrow> bool" where
  "in_handler (Q_InHandler r) = True"
| "in_handler P_InHandler = True"
| "in_handler _ = False"

fun not_worker :: "'h zmq_action \<Rightarrow> bool" where
  "not_worker (WorkerRuns ans) = False"
| "not_worker a = True"

lemma in_handler_holds: "in_handler pc \<Longrightarrow> holds_mux pc \<and> woken pc = pc \<and> pc \<noteq> Z_None \<and> pc \<noteq> Z_Done"
  by (cases pc) simp_all

lemma in_handler_kept:
  assumes "in_handler (m_thd s) \<and> m_mux s \<and> zmq_clients s c = ZC_Enter op"
    and "op \<noteq> DeactivateService" and "zmq_step not_worker s t"
  shows "in_handler (m_thd t) \<and> m_mux t \<and> zmq_clients t c = ZC_Enter op"
proof -
  from assms(3) obtain a where a: "not_worker a" "zmq_act a s = Some t" by (auto elim: zmq_stepE)
  from in_handler_holds [of "m_thd s"] assms(1)
  have pc: "woken (m_thd s) = m_thd s" "m_thd s \<noteq> Z_None" "m_thd s \<noteq> Z_Done" by simp_all
  from a(2) show ?thesis
  proof (cases rule: zmq_act_cases)
    case (client c')
    with assms(1,2) pc show ?thesis
      by (cases "zmq_clients s c'") (auto simp: client_runs_def split: if_splits)
  next
    case (wake_client c')
    with assms(1) show ?thesis by auto
  qed (use a(1) assms(1,2) pc in auto)
qed

text \<open>
  A handler runs under the lock of the service. While the worker is in a handler for messages
  or timeouts, a \<^verbatim>\<open>sendMessage\<close>, \<^verbatim>\<open>open\<close>, \<^verbatim>\<open>close\<close> or \<^verbatim>\<open>isOpen\<close> of any thread makes no
  progress until the handler returns; a handler that answers by such a call, or waits for a thread
  in one, never returns.
\<close>

theorem zmq_handler_blocks_calls:
  assumes "reaches (zmq_step A) (zmq0 ty) s" and "in_handler (m_thd s)"
    and "zmq_clients s c = ZC_Enter op" and "op \<noteq> DeactivateService"
    and "reaches (zmq_step not_worker) s t"
  shows "zmq_clients t c = ZC_Enter op"
proof -
  from zmq_mux.inv_reaches [OF assms(1)] in_handler_holds [OF assms(2)]
  have "in_handler (m_thd s) \<and> m_mux s \<and> zmq_clients s c = ZC_Enter op"
    using assms(2,3) by (simp add: mux_inv_def)
  with assms(5) have "in_handler (m_thd t) \<and> m_mux t \<and> zmq_clients t c = ZC_Enter op"
    by (rule reaches_keeps) (rule in_handler_kept [OF _ assms(4)])
  then show ?thesis by simp
qed

definition req_handler :: "nat zmq_action list" where
  "req_handler = RegisterOnMessage (Some 0) # req_start @ [ClientRuns 0, WorkerRuns Works,
     ClientCalls 0 (SendMessage ''m''), ClientRuns 0, WorkerRuns Works, WorkerRuns Works, WorkerRuns Works,
     WorkerRuns (Arrives ''r''), ClientCalls 0 (SendMessage ''n'')]"

theorem zmq_handler_blocks_calls_witness:
  "let s = zmq_schedule req_handler (zmq0 ReqSocket) in
     OnMessage 0 ''r'' \<in> set (zmq_log s)
     \<and> zmq_clients (zmq_schedule [ClientRuns 0, WorkerWakes, ClientRuns 0] s) 0 = ZC_Enter (SendMessage ''n'')"
proof -
  let ?s = "zmq_schedule req_handler (zmq0 ReqSocket)"
  let ?as = "[ClientRuns 0, WorkerWakes, ClientRuns 0]"
  have "list_all (\<lambda>_. True) req_handler" by (simp add: list_all_iff)
  note here = zmq_schedule_from [OF this]
  have at: "OnMessage 0 ''r'' \<in> set (zmq_log ?s) \<and> in_handler (m_thd ?s) \<and> zmq_clients ?s 0 = ZC_Enter (SendMessage ''n'')"
    by (simp add: req_handler_def req_start_def zmq_run_simps numeral_eq_Suc)
  have "list_all not_worker ?as" by simp
  from zmq_handler_blocks_calls [OF here, of ReqSocket 0 "SendMessage ''n''", OF _ _ _ zmq_schedule_from [OF this]] at
  show ?thesis by (simp add: Let_def)
qed

end
