(* ===== verification/Zero_Mq_Progress.thy ===== *)
theory Zero_Mq_Progress
  imports Zero_Mq
begin

text \<open>
  Which calls of \<open>Zero_Mq\<close> come back: two states from which a \<^verbatim>\<open>close\<close> and a \<^verbatim>\<open>deactivate\<close>
  never return, and the return of \<^verbatim>\<open>open\<close> for a client that has the service to itself.
\<close>

section \<open>A close that waits forever\<close>












section \<open>A lost wake-up\<close>

definition stop_missed :: "nat \<Rightarrow> 'h zmq_service \<Rightarrow> bool" where
  "stop_missed c s \<longleftrightarrow> \<not> m_runThd s \<and> m_thd s \<in> {Z_AsleepOpen, Q_Asleep, P_Asleep}
     \<and> zmq_clients s c = ZC_Join \<and> (\<forall>c'. c' \<noteq> c \<longrightarrow> (\<exists>r. zmq_clients s c' = ZC_Out r))"

fun no_wakeup :: "'h zmq_action \<Rightarrow> bool" where
  "no_wakeup (ClientCalls c op) = False"
| "no_wakeup WorkerWakes = False"
| "no_wakeup a = True"

lemma stop_missed_kept:
  assumes "stop_missed c s" and "zmq_step no_wakeup s t"
  shows "stop_missed c t"
proof -
  from assms(2) obtain a where a: "no_wakeup a" "zmq_act a s = Some t" by (auto elim: zmq_stepE)
  from assms(1) have asleep: "m_thd s = Z_AsleepOpen \<or> m_thd s = Q_Asleep \<or> m_thd s = P_Asleep"
    by (simp add: stop_missed_def)
  from a(2) show ?thesis
  proof (cases rule: zmq_act_cases)
    case (worker ans)
    with asleep show ?thesis by (auto simp: zmq_worker_runs_def split: if_splits)
  next
    case (client c')
    then show ?thesis
      using assms(1) asleep by (cases "c' = c") (auto simp: stop_missed_def client_runs_def)
  next
    case (wake_client c')
    with assms(1) show ?thesis by (cases "c' = c") (auto simp: stop_missed_def)
  qed (use a(1) assms(1) asleep in \<open>auto simp: stop_missed_def\<close>)
qed

text \<open>
  \<^verbatim>\<open>deactivate\<close> can wait forever. It resets \<^verbatim>\<open>m_runThd\<close> and notifies without the mutex;
  when the worker has tested its condition and not fallen asleep yet, the notification is lost.
  From then on, without a spurious wake-up or another call, the worker sleeps and the join does
  not return.
\<close>

theorem zmq_deactivate_hangs:
  assumes "stop_missed c s" and "reaches (zmq_step no_wakeup) s t"
  shows "zmq_clients t c = ZC_Join \<and> zmq_worker_runs ans t = None"
proof -
  from assms(2,1) have "stop_missed c t" by (rule reaches_keeps) (rule stop_missed_kept)
  then show ?thesis by (auto simp: stop_missed_def zmq_worker_runs_def)
qed

text \<open>The worker is between its test and its sleep when client 0 deactivates.\<close>

definition stop_between :: "nat zmq_action list" where
  "stop_between = Activates (\<lambda>_. ReqSocket) req_props # replicate 3 (WorkerRuns Works)
     @ ClientCalls 0 DeactivateService # replicate 3 (ClientRuns 0) @ [WorkerRuns Works]"

theorem zmq_deactivate_hangs_witness:
  "let s = zmq_schedule stop_between (zmq0 ReqSocket) in
     zmq_clients (zmq_schedule [ClientRuns 0, WorkerRuns Works] s) 0 = ZC_Join"
proof -
  let ?s = "zmq_schedule stop_between (zmq0 ReqSocket)"
  let ?as = "[ClientRuns 0, WorkerRuns Works] :: nat zmq_action list"
  have at: "stop_missed 0 ?s"
    by (simp add: stop_between_def zmq_run_simps numeral_eq_Suc stop_missed_def)
  have "list_all no_wakeup ?as" by simp
  from zmq_deactivate_hangs [OF at zmq_schedule_from [OF this]] show ?thesis by (simp add: Let_def)
qed

section \<open>An open that returns\<close>

text \<open>The worker has no socket and waits for \<^verbatim>\<open>open\<close>; it is on its way to a socket.\<close>

definition idle :: "zmq_pc \<Rightarrow> bool" where
  "idle pc \<longleftrightarrow> pc \<in> {Z_Test, Z_Lock, Z_WaitOpen, Z_SleepOpen, Z_AsleepOpen, Z_WokenOpen}"

definition opening_pc :: "zmq_pc \<Rightarrow> bool" where
  "opening_pc pc \<longleftrightarrow> pc \<in> {Z_Test, Z_Lock, Z_WaitOpen, Z_WokenOpen, Z_IfRun, Z_Socket, Z_ReadyOpen}"

text \<open>
  Where the worker is for a client that is alone, by the point of the client, whether the close
  is required, and \<^verbatim>\<open>m_socketOpened\<close>.
\<close>

fun sole_ok :: "zmq_client \<Rightarrow> bool \<Rightarrow> bool \<Rightarrow> zmq_pc \<Rightarrow> bool" where
  "sole_ok (ZC_Out r) closed opened pc = (closed \<longrightarrow> idle pc \<and> \<not> opened)"
| "sole_ok (ZC_Enter op) closed opened pc = (op \<noteq> DeactivateService \<and> (closed \<longrightarrow> idle pc \<and> \<not> opened))"
| "sole_ok (ZC_Wait b) closed opened pc =
     (closed \<noteq> b \<and> (\<not> opened \<longrightarrow> (if b then opening_pc pc else idle pc)))"
| "sole_ok (ZC_Asleep b) closed opened pc =
     (closed \<noteq> b \<and> (\<not> opened \<longrightarrow> (if b then opening_pc pc else idle pc)) \<and> (b \<longrightarrow> \<not> opened))"
| "sole_ok _ closed opened pc = False"

definition sole :: "nat \<Rightarrow> 'h zmq_service \<Rightarrow> bool" where
  "sole c s \<longleftrightarrow> mux_inv s \<and> m_runThd s \<and> m_thd s \<noteq> Z_None \<and> m_thd s \<noteq> Z_Done
     \<and> (\<forall>c'. c' \<noteq> c \<longrightarrow> (\<exists>r. zmq_clients s c' = ZC_Out r))
     \<and> sole_ok (zmq_clients s c) (m_requireSocketState s = StateClose) (m_socketOpened s) (m_thd s)"

fun only_client :: "nat \<Rightarrow> 'h zmq_action \<Rightarrow> bool" where
  "only_client c (ClientCalls c' op) = (c' = c \<and> op \<noteq> DeactivateService)"
| "only_client c a = True"

lemma sole_ok_moves:
  assumes "sole_ok cpc closed opened pc" and "closed \<Longrightarrow> idle pc \<Longrightarrow> idle pc'"
    and "\<not> closed \<Longrightarrow> opening_pc pc \<Longrightarrow> opening_pc pc'"
  shows "sole_ok cpc closed opened pc'"
  using assms by (cases cpc) auto

lemma sole_ok_woken: "sole_ok cpc closed opened pc \<Longrightarrow> sole_ok cpc closed opened (woken pc)"
  by (erule sole_ok_moves) (cases pc; simp add: idle_def opening_pc_def)+

lemma sole_ok_ready_open:
  "sole_ok cpc closed opened Z_ReadyOpen \<Longrightarrow> sole_ok (woken_client cpc) closed True pc"
  by (cases cpc) (auto simp: idle_def)

lemma sole_ok_ready_close:
  "sole_ok cpc closed opened Z_ReadyClose \<Longrightarrow> sole_ok (woken_client cpc) closed False Z_Test"
  by (cases cpc) (auto simp: idle_def opening_pc_def)

lemma sole_ok_wakes: "sole_ok cpc closed opened pc \<Longrightarrow> sole_ok (woken_client cpc) closed opened pc"
  by (cases cpc) auto

lemma socket_state_cases [simp]: "st \<noteq> StateOpen \<longleftrightarrow> st = StateClose"
  by (cases st) simp_all

text \<open>Only the two ready sections touch what clients wait for.\<close>

lemma worker_frame:
  assumes "zmq_worker_runs ans s = Some t" and "m_runThd s"
    and "m_thd s \<noteq> Z_ReadyOpen" and "m_thd s \<noteq> Z_ReadyClose"
  shows "zmq_clients t = zmq_clients s \<and> m_requireSocketState t = m_requireSocketState s
    \<and> m_socketOpened t = m_socketOpened s \<and> m_runThd t \<and> m_thd t \<noteq> Z_None \<and> m_thd t \<noteq> Z_Done"
  by (cases "m_thd s")
     (use assms in \<open>auto simp: zmq_worker_defs split: if_splits zmq_answer.splits option.splits\<close>)

lemma worker_idle:
  assumes "zmq_worker_runs ans s = Some t" and "idle (m_thd s)" and "m_runThd s"
    and "m_requireSocketState s = StateClose"
  shows "idle (m_thd t)"
  using assms by (auto simp: idle_def zmq_worker_runs_def locks_def split: if_splits)

lemma worker_opening:
  assumes "zmq_worker_runs ans s = Some t" and "opening_pc (m_thd s)" and "m_runThd s"
    and "m_requireSocketState s = StateOpen" and "m_thd s \<noteq> Z_ReadyOpen"
  shows "opening_pc (m_thd t)"
  using assms by (auto simp: opening_pc_def zmq_worker_runs_def locks_def caught_def split: if_splits)

lemma sole_ok_worker:
  assumes "zmq_worker_runs ans s = Some t" and "m_runThd s"
    and "sole_ok (zmq_clients s c) (m_requireSocketState s = StateClose) (m_socketOpened s) (m_thd s)"
  shows "sole_ok (zmq_clients t c) (m_requireSocketState t = StateClose) (m_socketOpened t) (m_thd t)
    \<and> m_runThd t \<and> m_thd t \<noteq> Z_None \<and> m_thd t \<noteq> Z_Done"
proof -
  consider (Z_ReadyOpen) "m_thd s = Z_ReadyOpen" | (Z_ReadyClose) "m_thd s = Z_ReadyClose"
    | (other) "m_thd s \<noteq> Z_ReadyOpen" "m_thd s \<noteq> Z_ReadyClose" by blast
  then show ?thesis
  proof cases
    case Z_ReadyOpen
    with assms(3) have "sole_ok (zmq_clients s c) (m_requireSocketState s = StateClose) (m_socketOpened s) Z_ReadyOpen"
      by simp
    note sole_ok_ready_open [OF this]
    with assms(1,2) Z_ReadyOpen show ?thesis by (auto simp: zmq_worker_runs_def split: if_splits)
  next
    case Z_ReadyClose
    with assms(3) have "sole_ok (zmq_clients s c) (m_requireSocketState s = StateClose) (m_socketOpened s) Z_ReadyClose"
      by simp
    note sole_ok_ready_close [OF this]
    with assms(1,2) Z_ReadyClose show ?thesis by (auto simp: zmq_worker_runs_def split: if_splits)
  next
    case other
    note frame = worker_frame [OF assms(1,2) other]
    have "sole_ok (zmq_clients s c) (m_requireSocketState s = StateClose) (m_socketOpened s) (m_thd t)"
      using assms(3)
    proof (rule sole_ok_moves)
      show "idle (m_thd t)" if "m_requireSocketState s = StateClose" "idle (m_thd s)"
        using worker_idle [OF assms(1) that(2) assms(2) that(1)] .
      show "opening_pc (m_thd t)" if "m_requireSocketState s \<noteq> StateClose" "opening_pc (m_thd s)"
        using worker_opening [OF assms(1) that(2) assms(2) _ other(1)] that(1)
        by (cases "m_requireSocketState s") simp_all
    qed
    with frame show ?thesis by simp
  qed
qed

lemma sole_at:
  assumes "sole c s" and "sole_ok pc (m_requireSocketState s = StateClose) (m_socketOpened s) (m_thd s)"
  shows "sole c (zmq_at c pc s)"
  using assms by (simp add: sole_def mux_inv_def)

lemma woken_alive [simp]: "woken pc = Z_None \<longleftrightarrow> pc = Z_None" "woken pc = Z_Done \<longleftrightarrow> pc = Z_Done"
  by (cases pc; simp)+

lemma sole_notify: "sole c s \<Longrightarrow> sole c (notify_worker s)"
  by (simp add: sole_def mux_inv_def sole_ok_woken)

lemma sole_slot: "sole c s \<Longrightarrow> sole c (logs es (s\<lparr>m_messageToSend := msg, m_sendMessage := b\<rparr>))"
  by (simp add: sole_def mux_inv_def)

lemma idle_free: "idle pc \<Longrightarrow> \<not> holds_mux pc \<Longrightarrow> opening_pc (woken pc) \<and> idle (woken pc)"
  by (auto simp: idle_def opening_pc_def)

lemma sole_client:
  assumes "client_runs c s = Some t" and "sole c s"
  shows "sole c t"
proof (cases "zmq_clients s c")
  case (ZC_Enter op)
  with assms(2) have ok: "op \<noteq> DeactivateService"
      "m_requireSocketState s = StateClose \<Longrightarrow> idle (m_thd s) \<and> \<not> m_socketOpened s"
    by (simp_all add: sole_def)
  from ok assms ZC_Enter have free: "\<not> holds_mux (m_thd s)"
    by (auto simp: client_runs_def sole_def mux_inv_def split: if_splits)
  obtain pc u where u: "zmq_guarded op s = (pc, u)" by (cases "zmq_guarded op s")
  with assms(1) ZC_Enter have t: "t = zmq_at c pc u" by (auto simp: client_runs_def split: if_splits)
  show ?thesis
  proof (cases op)
    case (SendMessage msg)
    with u ok assms(2) show ?thesis
      by (auto simp: t zmq_sendMessage_def intro!: sole_at sole_notify sole_slot split: if_splits)
  next
    case OpenSocket
    then show ?thesis
      using u ok assms(2) idle_free [OF _ free]
      by (auto simp: t open_socket_def sole_def mux_inv_def split: if_splits)
  next
    case CloseSocket
    then show ?thesis
      using u ok assms(2) by (auto simp: t close_socket_def sole_def mux_inv_def split: if_splits)
  next
    case IsOpen
    with u ok assms(2) show ?thesis by (auto simp: t intro: sole_at)
  qed (use ok in simp)
next
  case (ZC_Wait b)
  with assms show ?thesis
    by (auto simp: client_runs_def sole_def mux_inv_def split: if_splits)
qed (use assms in \<open>simp_all add: client_runs_def sole_def\<close>)

lemma sole_act:
  assumes "zmq_act a s = Some t" and "only_client c a" and "sole c s"
  shows "sole c t"
  using assms(1)
proof (cases rule: zmq_act_cases)
  case (worker ans)
  from assms(3) have "m_runThd s"
    and ok: "sole_ok (zmq_clients s c) (m_requireSocketState s = StateClose) (m_socketOpened s) (m_thd s)"
    by (simp_all add: sole_def)
  note step = sole_ok_worker [OF worker(2) this]
  have "mux_inv t" using mux_inv_worker [OF _ worker(2)] assms(3) by (simp add: sole_def)
  moreover have "\<exists>r. zmq_clients t c' = ZC_Out r" if "c' \<noteq> c" for c'
  proof -
    from assms(3) that obtain r where r: "zmq_clients s c' = ZC_Out r" by (auto simp: sole_def)
    have "zmq_clients t = zmq_clients s \<or> zmq_clients t = (\<lambda>c. woken_client (zmq_clients s c))"
      using worker(2) worker_frame [OF worker(2) \<open>m_runThd s\<close>]
      by (cases "m_thd s = Z_ReadyOpen \<or> m_thd s = Z_ReadyClose") (auto simp: zmq_worker_runs_def split: if_splits)
    with r show ?thesis by auto
  qed
  ultimately show ?thesis using step by (simp add: sole_def)
next
  case (client c')
  show ?thesis
  proof (cases "c' = c")
    case True
    with client assms(3) show ?thesis by (blast intro: sole_client)
  next
    case False
    with assms(3) obtain r where "zmq_clients s c' = ZC_Out r" by (auto simp: sole_def)
    with client(2) show ?thesis by (simp add: client_runs_def)
  qed
next
  case wake
  with assms(3) show ?thesis by (simp add: sole_notify)
next
  case (wake_client c')
  with assms(3) show ?thesis
    by (cases "c' = c") (auto simp: sole_def mux_inv_def intro: sole_ok_wakes)
next
  case (call c' op r)
  with assms(2,3) show ?thesis by (auto simp: sole_def mux_inv_def)
next
  case activate
  with assms(3) show ?thesis by (simp add: sole_def)
qed (use assms(3) in \<open>simp_all add: sole_def mux_inv_def\<close>)

text \<open>A service just activated.\<close>

definition activated :: "socket_type \<Rightarrow> 'h zmq_service" where
  "activated ty = (zmq0 ty)\<lparr>m_thd := Z_Test\<rparr>"

interpretation zmq_alone: interleaving "activated ty" "zmq_step (only_client c)" "sole c"
proof unfold_locales
  show "sole c (activated ty)" by (simp add: sole_def activated_def zmq0_def mux_inv_def idle_def)
  show "sole c s \<Longrightarrow> zmq_step (only_client c) s t \<Longrightarrow> sole c t" for s t :: "'a zmq_service"
    by (elim zmq_stepE) (rule sole_act)
qed

text \<open>A worker on its way, with a library that works, gets there in at most six steps.\<close>

definition opens_within :: "nat \<Rightarrow> nat \<Rightarrow> 'h zmq_service \<Rightarrow> bool" where
  "opens_within c n s \<longleftrightarrow> (\<exists>k \<le> n. let t = zmq_schedule (replicate k (WorkerRuns Works)) s in
     m_socketOpened t \<and> zmq_clients t c = woken_client (zmq_clients s c))"

lemma opens_within_step:
  assumes "zmq_worker_runs Works s = Some u" and "zmq_clients u c = zmq_clients s c" and "opens_within c n u"
  shows "opens_within c (Suc n) s"
proof -
  from assms(3) obtain k where "k \<le> n" and "let t = zmq_schedule (replicate k (WorkerRuns Works)) u in
      m_socketOpened t \<and> zmq_clients t c = woken_client (zmq_clients u c)"
    unfolding opens_within_def by blast
  with assms(1,2) show ?thesis
    unfolding opens_within_def by (intro exI [of _ "Suc k"]) (simp add: Let_def)
qed

lemma opens_within_mono: "opens_within c m s \<Longrightarrow> m \<le> n \<Longrightarrow> opens_within c n s"
  unfolding opens_within_def by (meson order_trans)

lemma worker_opens:
  assumes "opening_pc (m_thd s)" and "mux_inv s" and "m_runThd s" and "m_requireSocketState s = StateOpen"
  shows "opens_within c 6 s"
proof -
  have ready: "opens_within c 1 s" if "m_thd s = Z_ReadyOpen" for s :: "'a zmq_service"
    unfolding opens_within_def
    by (rule exI [of _ 1]) (simp add: that zmq_worker_runs_def Let_def)
  have socket: "opens_within c 2 s" if "m_thd s = Z_Socket" for s :: "'a zmq_service"
    using opens_within_step [of s "goes Z_ReadyOpen (logs [Opened (m_socketType s) (m_socketAdr s)] s)" c 1] that ready
    by (simp add: zmq_worker_runs_def numeral_2_eq_2)
  have if_run: "opens_within c 3 s" if "m_thd s = Z_IfRun" "m_runThd s" for s :: "'a zmq_service"
    using opens_within_step [of s "goes Z_Socket s" c 2] that socket by (simp add: zmq_worker_runs_def)
  have wait: "opens_within c 4 s" if "m_thd s = Z_WaitOpen" "m_runThd s" "m_requireSocketState s = StateOpen"
    for s :: "'a zmq_service"
    using opens_within_step [of s "goes Z_IfRun s" c 3] that if_run by (simp add: zmq_worker_runs_def)
  have lock: "opens_within c 5 s"
    if "m_thd s = Z_Lock \<or> m_thd s = Z_WokenOpen" "m_runThd s" "m_requireSocketState s = StateOpen" "\<not> m_mux s"
    for s :: "'a zmq_service"
    using opens_within_step [of s "s\<lparr>m_thd := Z_WaitOpen, m_mux := True\<rparr>" c 4] that wait
    by (auto simp: zmq_worker_runs_def locks_def)
  have test: "opens_within c 6 s"
    if "m_thd s = Z_Test" "m_runThd s" "m_requireSocketState s = StateOpen" "\<not> m_mux s" for s :: "'a zmq_service"
    using opens_within_step [of s "goes Z_Lock s" c 5] that lock by (simp add: zmq_worker_runs_def)
  from assms(1,2) show ?thesis
    using test [of s] lock [of s] wait [of s] if_run [of s] socket [of s] ready [of s] assms(3,4)
    by (auto simp: opening_pc_def mux_inv_def intro: opens_within_mono)
qed

text \<open>
  C15: \<^verbatim>\<open>open\<close> returns when the library works. For a client that has the activated service to itself,
  whatever it did before (timeouts, failures and reconnections included), an \<^verbatim>\<open>open\<close> that waits has
  returned after at most six steps of the worker in each of which the call of the library, if there is
  one, succeeds, and then one step of its own. Nothing is said of an \<^verbatim>\<open>open\<close> whose
  \<^verbatim>\<open>connect\<close> or \<^verbatim>\<open>bind\<close> keeps failing: it goes on waiting.
\<close>

theorem zmq_open_returns:
  assumes "reaches (zmq_step (only_client c)) (activated ty) s"
    and "zmq_clients s c = ZC_Wait True \<or> zmq_clients s c = ZC_Asleep True"
  shows "\<exists>k \<le> 6. zmq_clients (zmq_schedule (replicate k (WorkerRuns Works) @ [ClientRuns c]) s) c
    = ZC_Out (Some Returned)"
proof -
  from zmq_alone.inv_reaches [OF assms(1)] have inv: "sole c s" .
  have "opens_within c 6 s \<or> m_socketOpened s \<and> zmq_clients s c = ZC_Wait True"
  proof (cases "m_socketOpened s")
    case False
    with inv assms(2) have "opening_pc (m_thd s)" "m_requireSocketState s \<noteq> StateClose"
      by (auto simp: sole_def)
    moreover from this have "m_requireSocketState s = StateOpen" by (cases "m_requireSocketState s") simp_all
    ultimately show ?thesis using inv worker_opens by (auto simp: sole_def)
  qed (use inv assms(2) in \<open>auto simp: sole_def\<close>)
  then obtain k where k: "k \<le> 6" "m_socketOpened (zmq_schedule (replicate k (WorkerRuns Works)) s)"
    "zmq_clients (zmq_schedule (replicate k (WorkerRuns Works)) s) c = ZC_Wait True"
  proof
    assume "opens_within c 6 s"
    then show ?thesis using that assms(2) by (auto simp: opens_within_def Let_def)
  next
    assume "m_socketOpened s \<and> zmq_clients s c = ZC_Wait True"
    then show ?thesis using that [of 0] by simp
  qed
  have "zmq_schedule (as @ bs) s = zmq_schedule bs (zmq_schedule as s)" for as bs and s :: "'a zmq_service"
    by (induction as arbitrary: s) auto
  with k show ?thesis by (auto simp: client_runs_def intro!: exI [of _ k])
qed

theorem zmq_open_returns_witness:
  "\<exists>k \<le> 6. zmq_clients (zmq_schedule (replicate k (WorkerRuns Works) @ [ClientRuns 0])
     (zmq_schedule [ClientCalls 0 OpenSocket, ClientRuns 0, WorkerRuns Works, ClientRuns 0]
       (activated RepSocket :: nat zmq_service))) 0 = ZC_Out (Some Returned)"
proof -
  let ?as = "[ClientCalls 0 OpenSocket, ClientRuns 0, WorkerRuns Works, ClientRuns 0] :: nat zmq_action list"
  have "list_all (only_client 0) ?as" by simp
  note here = zmq_schedule_from [OF this, of "activated RepSocket"]
  have "zmq_clients (zmq_schedule ?as (activated RepSocket)) 0 = ZC_Asleep True"
    by (simp add: activated_def zmq_run_simps)
  then show ?thesis by (intro zmq_open_returns [OF here] disjI2)
qed

end
