(* ===== verification/Syslog_Logger.thy ===== *)
theory Syslog_Logger
  imports Std_Map Std_String
begin

text \<open>
  \<^verbatim>\<open>src/SyslogLogger/SyslogLogger.cpp\<close>: a trace service that writes to the system log. The
  enumerators of \<^verbatim>\<open>TraceLevel\<close> and its string convertor are of the framework and arguments.
\<close>

section \<open>State\<close>

text \<open>The priorities of \<^verbatim>\<open>syslog.h\<close>.\<close>

definition LOG_ERR :: int where "LOG_ERR = 3"
definition LOG_WARNING :: int where "LOG_WARNING = 4"
definition LOG_INFO :: int where "LOG_INFO = 6"
definition LOG_DEBUG :: int where "LOG_DEBUG = 7"

record trace_levels =
  tl_Error :: int
  tl_Warning :: int
  tl_Information :: int
  tl_Debug :: int

record syslog_logger =
  m_traceLevelMap :: "(int, int) std_map"
  m_traceSyslogLevelMap :: "(int, int) std_map"

definition syslog_logger0 :: "trace_levels \<Rightarrow> syslog_logger" where
  "syslog_logger0 lv = \<lparr>m_traceLevelMap = [],
     m_traceSyslogLevelMap = fold (\<lambda>(k, v) m. snd (sm_insert k v m))
       [(tl_Error lv, LOG_ERR), (tl_Warning lv, LOG_WARNING), (tl_Information lv, LOG_INFO), (tl_Debug lv, LOG_DEBUG)] []\<rparr>"

datatype syslog_out = Syslog int string | Openlog | Closelog | PrintWhat

section \<open>Writing\<close>

definition isValid :: "int \<Rightarrow> int \<Rightarrow> syslog_logger \<Rightarrow> bool" where
  "isValid level chan s = (case sm_find (m_traceLevelMap s) chan of Some l \<Rightarrow> l \<ge> level | None \<Rightarrow> False)"

definition base_name :: "string \<Rightarrow> string" where
  "base_name sourceFile = (case str_find_last_of {CHR ''/'', CHR 0x5C} sourceFile of
       Some idx \<Rightarrow> str_erase_front (idx + 1) sourceFile
     | None \<Rightarrow> sourceFile)"

text \<open>The text of a message. \<open>int2str\<close> is the convertor.\<close>

definition syslog_text ::
  "(int \<Rightarrow> string) \<Rightarrow> int \<Rightarrow> string \<Rightarrow> string \<Rightarrow> int \<Rightarrow> string \<Rightarrow> string \<Rightarrow> string"
where
  "syslog_text int2str level moduleName sourceFile sourceLine funcName msg =
     ''['' @ int2str level @ ''] '' @ (if moduleName \<noteq> [] then moduleName @ ''.'' else [])
     @ base_name sourceFile @ '':'' @ funcName @ ''():'' @ dec_int sourceLine @ '' '' @ msg"

text \<open>\<^verbatim>\<open>operator[]\<close>: a level that is not in the map enters it with priority 0.\<close>

definition syslog_priority :: "int \<Rightarrow> syslog_logger \<Rightarrow> int \<times> syslog_logger" where
  "syslog_priority level s = (case sm_find (m_traceSyslogLevelMap s) level of
       Some p \<Rightarrow> (p, s)
     | None \<Rightarrow> (0, s\<lparr>m_traceSyslogLevelMap := sm_assign level 0 (m_traceSyslogLevelMap s)\<rparr>))"

text \<open>\<^verbatim>\<open>syslog(p, "%s", text)\<close> takes the text up to its first zero byte.\<close>

definition writeMsg ::
  "(int \<Rightarrow> string) \<Rightarrow> int \<Rightarrow> int \<Rightarrow> string \<Rightarrow> string \<Rightarrow> int \<Rightarrow> string \<Rightarrow> string \<Rightarrow> syslog_logger
     \<Rightarrow> (unit, unit, syslog_out, syslog_logger) outcome"
where
  "writeMsg int2str level channel moduleName sourceFile sourceLine funcName msg s =
     (if isValid level channel s then
        let (p, t) = syslog_priority level s in
          emits [Syslog p (of_c_str (syslog_text int2str level moduleName sourceFile sourceLine funcName msg))] t
      else returns () s)"

section \<open>Configuration\<close>

text \<open>
  A verbosity level of the properties: its members, \<open>None\<close> when the macro that reads them throws.
\<close>

record verbosity =
  vl_channel :: "int option"
  vl_level :: "string option"

text \<open>The loop over the vector; the flag says whether it came to its end.\<close>

fun set_levels :: "(string \<Rightarrow> int) \<Rightarrow> verbosity list \<Rightarrow> (int, int) std_map \<Rightarrow> bool \<times> (int, int) std_map" where
  "set_levels str2enum [] m = (True, m)"
| "set_levels str2enum (vlv # vlvs) m = (case vl_channel vlv of
       None \<Rightarrow> (False, m)
     | Some channel \<Rightarrow> (case vl_level vlv of
           None \<Rightarrow> (False, m)
         | Some lvlStr \<Rightarrow> set_levels str2enum vlvs (sm_assign channel (str2enum lvlStr) m)))"

text \<open>
  \<^verbatim>\<open>modify\<close>, which \<^verbatim>\<open>activate\<close> is too: without properties nothing; the vector is \<open>None\<close> when
  reading it throws.
\<close>

definition syslog_modify ::
  "(string \<Rightarrow> int) \<Rightarrow> verbosity list option option \<Rightarrow> syslog_logger
     \<Rightarrow> (unit, unit, syslog_out, syslog_logger) outcome"
where
  "syslog_modify str2enum props s = (case props of
       None \<Rightarrow> returns () s
     | Some None \<Rightarrow> emits [PrintWhat] s
     | Some (Some vlvs) \<Rightarrow> (let (ok, m) = set_levels str2enum vlvs (m_traceLevelMap s) in
         emits [if ok then Openlog else PrintWhat] (s\<lparr>m_traceLevelMap := m\<rparr>)))"

definition syslog_destroy :: "syslog_logger \<Rightarrow> (unit, unit, syslog_out, syslog_logger) outcome" where
  "syslog_destroy s = emits [Closelog] s"

section \<open>Facts\<close>

lemma base_name_append:
  assumes "c \<in> {CHR ''/'', CHR 0x5C}" and "set b \<inter> {CHR ''/'', CHR 0x5C} = {}"
  shows "base_name (d @ c # b) = b"
  using str_find_last_of_append [OF assms] by (simp add: base_name_def str_erase_front_def)

text \<open>The entries up to the first that lacks a member.\<close>

fun complete_levels :: "(string \<Rightarrow> int) \<Rightarrow> verbosity list \<Rightarrow> (int \<times> int) list" where
  "complete_levels str2enum [] = []"
| "complete_levels str2enum (vlv # vlvs) = (case (vl_channel vlv, vl_level vlv) of
       (Some channel, Some lvlStr) \<Rightarrow> (channel, str2enum lvlStr) # complete_levels str2enum vlvs
     | _ \<Rightarrow> [])"

lemma set_levels_fold:
  "set_levels str2enum vlvs m =
     (length (complete_levels str2enum vlvs) = length vlvs, fold (\<lambda>(k, v). sm_assign k v) (complete_levels str2enum vlvs) m)"
  by (induction vlvs arbitrary: m) (auto split: option.splits)

lemma sm_inv_fold: "sm_inv m \<Longrightarrow> sm_inv (fold (\<lambda>(k, v). sm_assign k v) kvs m)"
  by (induction kvs arbitrary: m) (auto simp: sm_inv_assign)

lemma sm_find_fold:
  "sm_inv m \<Longrightarrow> sm_find (fold (\<lambda>(k, v). sm_assign k v) kvs m) c =
     (case map_of (rev kvs) c of Some l \<Rightarrow> Some l | None \<Rightarrow> sm_find m c)"
  by (induction kvs arbitrary: m)
     (auto simp: sm_inv_assign sm_find_assign map_add_def split: option.splits)

lemma isValid_iff: "isValid level chan s \<longleftrightarrow> (\<exists>l. sm_find (m_traceLevelMap s) chan = Some l \<and> level \<le> l)"
  by (simp add: isValid_def split: option.split)

section \<open>Properties\<close>

text \<open>
  The log is filtered by channel. A message is written, once, exactly when its channel is
  configured with at least its level; what is written has the name of the source file without
  its directories, and the levels configured stay as they are.
\<close>

theorem syslog_filter:
  assumes "c \<in> {CHR ''/'', CHR 0x5C}" and "set file \<inter> {CHR ''/'', CHR 0x5C} = {}"
  shows "outs_of (writeMsg int2str level chan mdl (dir @ c # file) line func msg s) =
     (if \<exists>l. sm_find (m_traceLevelMap s) chan = Some l \<and> level \<le> l
      then [Syslog (fst (syslog_priority level s)) (of_c_str (''['' @ int2str level @ ''] ''
        @ (if mdl = [] then [] else mdl @ ''.'') @ file @ '':'' @ func @ ''():'' @ dec_int line @ '' '' @ msg))]
      else [])
    \<and> m_traceLevelMap (state_of (writeMsg int2str level chan mdl (dir @ c # file) line func msg s)) = m_traceLevelMap s"
proof -
  have "m_traceLevelMap (snd (syslog_priority level s)) = m_traceLevelMap s"
    by (simp add: syslog_priority_def split: option.split)
  moreover have "syslog_text int2str level mdl (dir @ c # file) line func msg =
      ''['' @ int2str level @ ''] '' @ (if mdl = [] then [] else mdl @ ''.'') @ file @ '':'' @ func @ ''():''
        @ dec_int line @ '' '' @ msg"
    using base_name_append [OF assms, of dir] by (simp add: syslog_text_def)
  ultimately show ?thesis
    unfolding isValid_iff [symmetric] writeMsg_def
    by (cases "syslog_priority level s") (simp add: emits_def returns_def)
qed

definition levels0 :: trace_levels where
  "levels0 = \<lparr>tl_Error = 0, tl_Warning = 1, tl_Information = 2, tl_Debug = 3\<rparr>"

theorem syslog_filter_witness:
  "outs_of (writeMsg (\<lambda>_. ''W'') 1 0 ''M'' ''/src/a.cpp'' 42 ''f'' ''text'' ((syslog_logger0 levels0)\<lparr>m_traceLevelMap := [(0, 2)]\<rparr>))
    = [Syslog 4 ''[W] M.a.cpp:f():42 text'']"
proof -
  have "dec_int 42 = ''42''" by code_simp
  with syslog_filter [of "CHR ''/''" "''a.cpp''" "\<lambda>_. ''W''" 1 0 "''M''" "''/src''" 42 "''f''" "''text''"
      "(syslog_logger0 levels0)\<lparr>m_traceLevelMap := [(0, 2)]\<rparr>"]
  show ?thesis
    by (simp add: syslog_logger0_def levels0_def sm_insert_def syslog_priority_def of_c_str_def LOG_WARNING_def
        LOG_ERR_def LOG_INFO_def LOG_DEBUG_def)
qed

text \<open>
  A configuration counts up to its first incomplete entry. The level of a channel is then the
  one of the last complete entry for it before that, or the one it had, and no channel is ever
  removed; the log is opened exactly when all entries are complete.
\<close>

theorem syslog_modify_levels:
  assumes "sm_inv (m_traceLevelMap s)"
  shows "sm_find (m_traceLevelMap (state_of (syslog_modify str2enum (Some (Some vlvs)) s))) chan =
      (case map_of (rev (complete_levels str2enum vlvs)) chan of
         Some l \<Rightarrow> Some l | None \<Rightarrow> sm_find (m_traceLevelMap s) chan)
    \<and> sm_inv (m_traceLevelMap (state_of (syslog_modify str2enum (Some (Some vlvs)) s)))
    \<and> (outs_of (syslog_modify str2enum (Some (Some vlvs)) s) = [Openlog] \<longleftrightarrow>
        length (complete_levels str2enum vlvs) = length vlvs)"
  by (simp add: syslog_modify_def set_levels_fold outcome_simps sm_find_fold sm_inv_fold assms)

theorem syslog_modify_levels_witness:
  "let vlvs = [\<lparr>vl_channel = Some 7, vl_level = Some ''dbg''\<rparr>, \<lparr>vl_channel = Some 7, vl_level = Some ''err''\<rparr>,
       \<lparr>vl_channel = None, vl_level = Some ''dbg''\<rparr>, \<lparr>vl_channel = Some 8, vl_level = Some ''dbg''\<rparr>];
       s = state_of (syslog_modify (\<lambda>l. if l = ''dbg'' then 3 else 0) (Some (Some vlvs)) (syslog_logger0 levels0))
   in sm_find (m_traceLevelMap s) 7 = Some 0 \<and> sm_find (m_traceLevelMap s) 8 = None"
proof -
  have "sm_inv (m_traceLevelMap (syslog_logger0 levels0))" by (simp add: syslog_logger0_def)
  from conjunct1 [OF syslog_modify_levels [OF this]]
  show ?thesis by (simp add: Let_def syslog_logger0_def)
qed

end
