(* ===== verification/Rest_Api.thy ===== *)
theory Rest_Api
  imports Std_String Step_Systems
begin

text \<open>
  \<^verbatim>\<open>IRestApiService\<close> and its two providers, \<^verbatim>\<open>src/CurlRestApiService/CurlRestApiService.cpp\<close>
  and \<^verbatim>\<open>src/CppRestService/CppRestService.cpp\<close>: \<^verbatim>\<open>getFile(url, fname)\<close> downloads a file.
  The answers of libcurl, cpprestsdk and the file system are arguments.
\<close>

section \<open>The server\<close>

text \<open>
  What the server sends: a status and a body in pieces; with each piece whether the file takes it.
\<close>

record download =
  dl_status :: int
  dl_pieces :: "(bytes \<times> bool) list"

definition dl_body :: "download \<Rightarrow> bytes" where
  "dl_body d = concat (map fst (dl_pieces d))"

datatype rest_out =
    RCurlInit | RSetUrl string | RSetOption nat | RFOpen string | RFWrite bytes | RFClose
  | RCurlCleanup | RGlobalInit | RGlobalCleanup | RGet string

datatype rest_error =
    FailedInit | FailedSetUrl | CannotOpenFile | FailedOption nat | FailedPerform | CannotDownload
  | FailedGlobalInit

type_synonym rest_outcome = "(rest_error, unit, rest_out, unit) outcome"

text \<open>What has been written to the file.\<close>

fun written :: "rest_out list \<Rightarrow> bytes" where
  "written [] = []"
| "written (RFWrite b # os) = b @ written os"
| "written (o1 # os) = written os"

text \<open>The pieces as they arrive, up to the first the file does not take whole.\<close>

fun transfer :: "(bytes \<times> bool) list \<Rightarrow> bool \<times> rest_out list" where
  "transfer [] = (True, [])"
| "transfer ((b, takes) # rest) = (if takes then let (ok, os) = transfer rest in (ok, RFWrite b # os) else (False, []))"

section \<open>With libcurl\<close>

text \<open>
  Whether the handle is made, the URL and each of the four options set, the file opened, and
  whether a request that could write everything succeeds.
\<close>

record curl_env =
  ce_init :: bool
  ce_url :: bool
  ce_fopen :: bool
  ce_option :: "nat \<Rightarrow> bool"
  ce_perform :: bool

definition curl_demand :: "bool \<Rightarrow> rest_out list \<Rightarrow> rest_error \<Rightarrow> rest_outcome" where
  "curl_demand ok outs e = emit_then outs (if ok then returns () () else throws e ())"

text \<open>The options: follow redirections, write function, write data, no verification of the peer.\<close>

fun curl_options :: "curl_env \<Rightarrow> nat list \<Rightarrow> rest_outcome" where
  "curl_options env [] = returns () ()"
| "curl_options env (i # is) =
     and_then (curl_demand (ce_option env i) [RSetOption i] (FailedOption i)) (\<lambda>_ _. curl_options env is)"

definition curl_perform :: "curl_env \<Rightarrow> download \<Rightarrow> rest_outcome" where
  "curl_perform env d = (let (ok, os) = transfer (dl_pieces d) in curl_demand (ok \<and> ce_perform env) os FailedPerform)"

text \<open>The \<^verbatim>\<open>try\<close> block after the file is open, with the cleanup of the handle at its end.\<close>

definition curl_download :: "curl_env \<Rightarrow> download \<Rightarrow> rest_outcome" where
  "curl_download env d =
     and_then (curl_options env [0, 1, 2, 3]) (\<lambda>_ _.
     and_then (curl_perform env d) (\<lambda>_ _. emits [RCurlCleanup] ()))"

text \<open>The file is closed by the \<^verbatim>\<open>catch\<close> clause, which throws again, or after the block.\<close>

definition curl_getFile :: "curl_env \<Rightarrow> download \<Rightarrow> string \<Rightarrow> string \<Rightarrow> rest_outcome" where
  "curl_getFile env d url fname =
     and_then (curl_demand (ce_init env) [RCurlInit] FailedInit) (\<lambda>_ _.
     and_then (curl_demand (ce_url env) [RSetUrl url] FailedSetUrl) (\<lambda>_ _.
     if \<not> ce_fopen env then throws CannotOpenFile ()
     else let r = curl_download env d in
       (result_of r, RFOpen fname # outs_of r @ [RFClose], state_of r)))"

definition curl_activate :: "bool \<Rightarrow> rest_outcome" where
  "curl_activate ok = curl_demand ok [RGlobalInit] FailedGlobalInit"

definition curl_deactivate :: rest_outcome where
  "curl_deactivate = emits [RGlobalCleanup] ()"

section \<open>With cpprestsdk\<close>

text \<open>
  Which of the tasks end well: opening the file, the request, closing the file. The body is read
  into the file only for status 200.
\<close>

record cpprest_env =
  pe_open :: bool
  pe_request :: bool
  pe_close :: bool

definition cpprest_response :: "cpprest_env \<Rightarrow> download \<Rightarrow> bool \<times> rest_out list" where
  "cpprest_response env d = (if dl_status d \<noteq> 200 then (False, []) else transfer (dl_pieces d))"

text \<open>
  The chain of tasks: a task whose predecessor failed does not run. Any failure ends in the
  \<^verbatim>\<open>catch\<close> clause.
\<close>

definition cpprest_getFile :: "cpprest_env \<Rightarrow> download \<Rightarrow> string \<Rightarrow> string \<Rightarrow> rest_outcome" where
  "cpprest_getFile env d url fname =
     (if \<not> pe_open env then throws CannotDownload ()
      else emit_then [RFOpen fname, RGet url]
        (if \<not> pe_request env then throws CannotDownload ()
         else let (ok, os) = cpprest_response env d in
           emit_then os (if \<not> ok then throws CannotDownload ()
             else emit_then [RFClose] (if pe_close env then returns () () else throws CannotDownload ()))))"

text \<open>Activating and deactivating only trace.\<close>

definition cpprest_activate :: rest_outcome where
  "cpprest_activate = returns () ()"

definition cpprest_deactivate :: rest_outcome where
  "cpprest_deactivate = returns () ()"

section \<open>Calls\<close>

datatype 'e rest_call = GetFile 'e download string string | ActivateRest bool | DeactivateRest | ModifyRest

fun curl_step :: "unit \<Rightarrow> curl_env rest_call \<Rightarrow> rest_outcome" where
  "curl_step s (GetFile env d url fname) = curl_getFile env d url fname"
| "curl_step s (ActivateRest ok) = curl_activate ok"
| "curl_step s DeactivateRest = curl_deactivate"
| "curl_step s ModifyRest = returns () ()"

fun cpprest_step :: "unit \<Rightarrow> cpprest_env rest_call \<Rightarrow> rest_outcome" where
  "cpprest_step s (GetFile env d url fname) = cpprest_getFile env d url fname"
| "cpprest_step s (ActivateRest ok) = cpprest_activate"
| "cpprest_step s DeactivateRest = cpprest_deactivate"
| "cpprest_step s ModifyRest = returns () ()"

section \<open>What a client relies on\<close>

text \<open>
  The contract of \<^verbatim>\<open>IRestApiService\<close>: when \<^verbatim>\<open>getFile\<close> returns, the file was opened, holds
  the whole body and is closed.
\<close>

locale rest_api =
  fixes getFile :: "'e \<Rightarrow> download \<Rightarrow> string \<Rightarrow> string \<Rightarrow> rest_outcome"
  assumes returned: "result_of (getFile env d url fname) = Inr () \<Longrightarrow>
    RFOpen fname \<in> set (outs_of (getFile env d url fname))
    \<and> written (outs_of (getFile env d url fname)) = dl_body d
    \<and> RFClose \<in> set (outs_of (getFile env d url fname))"
begin

text \<open>A client that parses what it downloaded parses the body.\<close>

lemma parse_downloaded:
  "result_of (getFile env d url fname) = Inr () \<Longrightarrow> parse (written (outs_of (getFile env d url fname))) = parse (dl_body d)"
  by (simp add: returned)

end

lemma written_append [simp]: "written (a @ b) = written a @ written b"
  by (induction a rule: written.induct) simp_all

lemma transfer_whole: "fst (transfer ps) \<Longrightarrow> written (snd (transfer ps)) = concat (map fst ps)"
  by (induction ps rule: transfer.induct) (auto split: prod.splits if_splits)

lemma transfer_kinds: "o1 \<in> set (snd (transfer ps)) \<Longrightarrow> \<exists>b. o1 = RFWrite b"
  by (induction ps rule: transfer.induct) (auto split: prod.splits if_splits)

lemma curl_demand_result [simp]:
  "result_of (curl_demand ok outs e) = (if ok then Inr () else Inl e)" "outs_of (curl_demand ok outs e) = outs"
  by (simp_all add: curl_demand_def outcome_simps)

lemma and_then_result:
  "result_of (and_then r k) = Inr u \<longleftrightarrow> (\<exists>a. result_of r = Inr a \<and> result_of (k a (state_of r)) = Inr u)"
  by (cases "result_of r") (simp_all add: and_then_def)

lemma curl_options_kinds: "o1 \<in> set (outs_of (curl_options env is)) \<Longrightarrow> \<exists>i. o1 = RSetOption i"
proof (induction "is")
  case (Cons i "is")
  then show ?case
    by (cases "ce_option env i") (auto simp: and_then_def)
qed (simp add: outcome_simps)

lemma curl_options_written [simp]: "written (outs_of (curl_options env is)) = []"
proof -
  have "written os = []" if "\<forall>o1 \<in> set os. \<exists>i. o1 = RSetOption i" for os
    using that by (induction os) auto
  then show ?thesis using curl_options_kinds by blast
qed

lemma curl_download_outs:
  obtains a b where "outs_of (curl_download env d) = a @ b @ (if result_of (curl_download env d) = Inr () then [RCurlCleanup] else [])"
    and "a = outs_of (curl_options env [0, 1, 2, 3])" and "b = [] \<or> b = snd (transfer (dl_pieces d))"
    and "result_of (curl_download env d) = Inr () \<Longrightarrow> b = snd (transfer (dl_pieces d)) \<and> fst (transfer (dl_pieces d))"
proof (cases "result_of (curl_options env [0, 1, 2, 3])")
  case (Inl e)
  then have "curl_download env d = (Inl e, outs_of (curl_options env [0, 1, 2, 3]), state_of (curl_options env [0, 1, 2, 3]))"
    by (simp add: curl_download_def and_then_def del: curl_options.simps)
  with that [of "outs_of (curl_options env [0, 1, 2, 3])" "[]"] show ?thesis
    by (simp del: curl_options.simps)
next
  case (Inr u)
  obtain ok os where t: "transfer (dl_pieces d) = (ok, os)" by (cases "transfer (dl_pieces d)")
  with Inr have "curl_download env d = (if ok \<and> ce_perform env then Inr () else Inl FailedPerform,
      outs_of (curl_options env [0, 1, 2, 3]) @ os @ (if ok \<and> ce_perform env then [RCurlCleanup] else []), ())"
    by (simp add: curl_download_def curl_perform_def and_then_def emits_def del: curl_options.simps)
  with t that [of "outs_of (curl_options env [0, 1, 2, 3])" os] show ?thesis
    by (auto simp del: curl_options.simps split: if_splits)
qed

text \<open>What \<^verbatim>\<open>getFile\<close> does once the handle and the URL are set.\<close>

lemma curl_getFile_cases:
  obtains (early) e outs where "curl_getFile env d url fname = (Inl e, outs, ())"
      and "outs = [RCurlInit] \<or> outs = [RCurlInit, RSetUrl url]"
  | (download) "curl_getFile env d url fname = (result_of (curl_download env d),
      [RCurlInit, RSetUrl url, RFOpen fname] @ outs_of (curl_download env d) @ [RFClose], state_of (curl_download env d))"
proof (cases "ce_init env \<and> ce_url env \<and> ce_fopen env")
  case True
  then show ?thesis
    by (intro download) (simp add: curl_getFile_def and_then_def curl_demand_def returns_def emit_then_def Let_def)
next
  case False
  then show ?thesis
    by (intro early [of "if \<not> ce_init env then FailedInit else if \<not> ce_url env then FailedSetUrl else CannotOpenFile"
          "if \<not> ce_init env then [RCurlInit] else [RCurlInit, RSetUrl url]"])
       (auto simp: curl_getFile_def and_then_def curl_demand_def returns_def throws_def emit_then_def)
qed

interpretation curl: rest_api curl_getFile
proof
  fix env d url fname
  assume ok: "result_of (curl_getFile env d url fname) = Inr ()"
  then show "RFOpen fname \<in> set (outs_of (curl_getFile env d url fname))
      \<and> written (outs_of (curl_getFile env d url fname)) = dl_body d
      \<and> RFClose \<in> set (outs_of (curl_getFile env d url fname))"
  proof (cases rule: curl_getFile_cases [of env d url fname])
    case download
    with ok have "result_of (curl_download env d) = Inr ()" by simp
    with download transfer_whole [of "dl_pieces d"] show ?thesis
      by (cases rule: curl_download_outs [of env d]) (auto simp: dl_body_def simp del: curl_options.simps)
  qed simp
qed

interpretation cpprest: rest_api cpprest_getFile
proof
  fix env d url fname
  assume ok: "result_of (cpprest_getFile env d url fname) = Inr ()"
  obtain fin os where t: "transfer (dl_pieces d) = (fin, os)" by (cases "transfer (dl_pieces d)")
  with ok transfer_whole [of "dl_pieces d"] show "RFOpen fname \<in> set (outs_of (cpprest_getFile env d url fname))
      \<and> written (outs_of (cpprest_getFile env d url fname)) = dl_body d
      \<and> RFClose \<in> set (outs_of (cpprest_getFile env d url fname))"
    by (auto simp: cpprest_getFile_def cpprest_response_def dl_body_def outcome_simps split: if_splits)
qed

section \<open>Properties\<close>

text \<open>
  Who gets a file gets all of it. When \<^verbatim>\<open>getFile\<close> of either provider returns, what has been
  written to the file is the whole body the server sent, and the file is closed.
\<close>

theorem rest_returns_whole_body:
  assumes "result_of (curl_getFile env d url fname) = Inr ()" and "result_of (cpprest_getFile env' d' url fname) = Inr ()"
  shows "written (outs_of (curl_getFile env d url fname)) = dl_body d \<and> RFClose \<in> set (outs_of (curl_getFile env d url fname))
    \<and> written (outs_of (cpprest_getFile env' d' url fname)) = dl_body d'
    \<and> RFClose \<in> set (outs_of (cpprest_getFile env' d' url fname))"
  using curl.returned [OF assms(1)] cpprest.returned [OF assms(2)] by blast

definition curl_env0 :: curl_env where
  "curl_env0 = \<lparr>ce_init = True, ce_url = True, ce_fopen = True, ce_option = (\<lambda>_. True), ce_perform = True\<rparr>"

definition cpprest_env0 :: cpprest_env where
  "cpprest_env0 = \<lparr>pe_open = True, pe_request = True, pe_close = True\<rparr>"

theorem rest_returns_whole_body_witness:
  "written (outs_of (curl_getFile curl_env0 \<lparr>dl_status = 200, dl_pieces = [(''ab'', True), (''c'', True)]\<rparr> ''u'' ''f'')) = ''abc''"
proof -
  let ?d = "\<lparr>dl_status = 200, dl_pieces = [(''ab'', True), (''c'', True)]\<rparr>"
  have "result_of (curl_getFile curl_env0 ?d ''u'' ''f'') = Inr ()"
    by (simp add: curl_getFile_def curl_env0_def curl_download_def curl_perform_def curl_demand_def and_then_def outcome_simps)
  moreover have "result_of (cpprest_getFile cpprest_env0 ?d ''u'' ''f'') = Inr ()"
    by (simp add: cpprest_getFile_def cpprest_env0_def cpprest_response_def outcome_simps)
  ultimately show ?thesis
    using rest_returns_whole_body [of curl_env0 ?d "''u''" "''f''" cpprest_env0 ?d] by (simp add: dl_body_def)
qed

fun is_RFOpen :: "rest_out \<Rightarrow> bool" where
  "is_RFOpen (RFOpen f) = True"
| "is_RFOpen _ = False"

lemma curl_download_quiet:
  "filter is_RFOpen (outs_of (curl_download env d)) = []" "count_list (outs_of (curl_download env d)) RFClose = 0"
  "count_list (outs_of (curl_download env d)) RCurlCleanup = of_bool (result_of (curl_download env d) = Inr ())"
  "count_list (outs_of (curl_download env d)) RCurlInit = 0"
proof -
  let ?r = "curl_download env d"
  obtain a b where outs: "outs_of ?r = a @ b @ (if result_of ?r = Inr () then [RCurlCleanup] else [])"
    and a: "a = outs_of (curl_options env [0, 1, 2, 3])" and b: "b = [] \<or> b = snd (transfer (dl_pieces d))"
    by (rule curl_download_outs)
  have "\<exists>i. o1 = RSetOption i" if "o1 \<in> set a" for o1
    using that unfolding a by (rule curl_options_kinds)
  moreover have "\<exists>c. o1 = RFWrite c" if "o1 \<in> set b" for o1
    using that b transfer_kinds by (auto simp del: transfer.simps)
  ultimately have "\<not> is_RFOpen o1 \<and> o1 \<notin> {RFClose, RCurlCleanup, RCurlInit}" if "o1 \<in> set (a @ b)" for o1
    using that by fastforce
  then have quiet: "filter is_RFOpen (a @ b) = []" "RFClose \<notin> set (a @ b)" "RCurlCleanup \<notin> set (a @ b)"
      "RCurlInit \<notin> set (a @ b)"
    unfolding filter_empty_conv by blast+
  then show "filter is_RFOpen (outs_of ?r) = []" "count_list (outs_of ?r) RFClose = 0"
    "count_list (outs_of ?r) RCurlCleanup = of_bool (result_of ?r = Inr ())" "count_list (outs_of ?r) RCurlInit = 0"
    by (auto simp: outs count_list_0_iff)
qed

lemma curl_getFile_counts:
  "count_list (outs_of (curl_getFile env d url fname)) RFClose = count_if is_RFOpen (outs_of (curl_getFile env d url fname))"
  "count_list (outs_of (curl_getFile env d url fname)) RCurlCleanup = of_bool (result_of (curl_getFile env d url fname) = Inr ())"
  "count_list (outs_of (curl_getFile env d url fname)) RCurlInit = 1"
  using curl_download_quiet [of env d] by (cases rule: curl_getFile_cases [of env d url fname]; auto)+

fun returns_file :: "curl_env rest_call \<Rightarrow> bool" where
  "returns_file (GetFile env d url fname) \<longleftrightarrow> result_of (curl_getFile env d url fname) = Inr ()"
| "returns_file c \<longleftrightarrow> False"

fun asks_file :: "'e rest_call \<Rightarrow> bool" where
  "asks_file (GetFile env d url fname) \<longleftrightarrow> True"
| "asks_file c \<longleftrightarrow> False"

text \<open>
  C38: files are closed, handles are not. Over any run of calls of the libcurl provider, however the
  downloads end, files are closed as often as they are opened; of the handles of libcurl, one asked
  for in every download, those are cleaned up whose download returned, so that every download that
  throws after it got its handle leaves it behind.
\<close>

theorem curl_resources:
  "count_list (run_outs curl_step () cs) RFClose = count_if is_RFOpen (run_outs curl_step () cs)
   \<and> count_list (run_outs curl_step () cs) RCurlInit = count_if asks_file cs
   \<and> count_list (run_outs curl_step () cs) RCurlCleanup = count_if returns_file cs"
proof (induction cs)
  case (Cons c cs)
  have "state_of (curl_step () c) = ()" by simp
  with Cons show ?case
    by (cases c) (simp_all add: curl_getFile_counts curl_activate_def curl_deactivate_def outcome_simps)
qed simp

text \<open>
  An error page is a download for one provider and an error for the other. Whatever the status
  of the response, libcurl stores the body and \<^verbatim>\<open>getFile\<close> ends as it would for any other status;
  with cpprestsdk every status but 200 is an exception, with nothing written to the file.
\<close>

theorem rest_http_error:
  "curl_getFile env (d\<lparr>dl_status := st\<rparr>) url fname = curl_getFile env d url fname
   \<and> (dl_status d = 200 \<or> result_of (cpprest_getFile env' d url fname) = Inl CannotDownload
       \<and> written (outs_of (cpprest_getFile env' d url fname)) = [])"
  by (auto simp: curl_getFile_def curl_download_def curl_perform_def cpprest_getFile_def cpprest_response_def
      outcome_simps)

end
