(* ===== verification/Json_Macro.thy ===== *)
theory Json_Macro
  imports Complex_Main Std_String "HOL-Library.Word"
begin

text \<open>
  \<^verbatim>\<open>src/include/JsonMacro.h\<close>: the macros that read a member of a JSON document, which must be there
  or may be missing. A document is what \<^verbatim>\<open>Pointer::Get\<close> of rapidjson finds at a path.
\<close>

section \<open>Values\<close>

text \<open>A number is what \<^verbatim>\<open>GetDouble\<close> and, where \<^verbatim>\<open>IsUint\<close> holds, \<^verbatim>\<open>GetUint\<close> return.\<close>

record json_number =
  get_double :: rat
  get_uint :: "32 word option"

datatype json_node =
    JNull | JBool bool | JNumber json_number | JString string
  | JArray "json_node list" | JObject "(string \<times> json_node) list"

type_synonym json_doc = "string \<Rightarrow> json_node option"

datatype json_error = MissingOrBadType string | MissingOrNotObject string | MissingOrNotArray string

text \<open>The fraction is cut off; what does not fit an \<^verbatim>\<open>int\<close> then has no defined value.\<close>

datatype int_cast = Cast int | UndefinedCast

definition truncate_rat :: "rat \<Rightarrow> int" where
  "truncate_rat q = (if 0 \<le> q then floor q else ceiling q)"

definition static_cast_int :: "rat \<Rightarrow> int_cast" where
  "static_cast_int q = (let i = truncate_rat q in if - (2 ^ 31) \<le> i \<and> i < 2 ^ 31 then Cast i else UndefinedCast)"

section \<open>Type tests and getters\<close>

fun as_num :: "json_node \<Rightarrow> rat option" where
  "as_num (JNumber n) = Some (get_double n)"
| "as_num v = None"

fun as_int :: "json_node \<Rightarrow> int_cast option" where
  "as_int (JNumber n) = Some (static_cast_int (get_double n))"
| "as_int v = None"

fun as_uint :: "json_node \<Rightarrow> 32 word option" where
  "as_uint (JNumber n) = get_uint n"
| "as_uint v = None"

fun as_bool :: "json_node \<Rightarrow> bool option" where
  "as_bool (JBool b) = Some b"
| "as_bool v = None"

text \<open>The string is assigned from the \<^verbatim>\<open>const char*\<close> of \<^verbatim>\<open>GetString\<close>.\<close>

fun as_str :: "json_node \<Rightarrow> string option" where
  "as_str (JString v) = Some (of_c_str v)"
| "as_str v = None"

fun as_object :: "json_node \<Rightarrow> json_node option" where
  "as_object (JObject ms) = Some (JObject ms)"
| "as_object v = None"

fun as_array :: "json_node \<Rightarrow> json_node option" where
  "as_array (JArray vs) = Some (JArray vs)"
| "as_array v = None"

section \<open>The macros\<close>

text \<open>What all of them do with the pointer: one form throws, the other leaves its variable.\<close>

definition json_required :: "(json_node \<Rightarrow> 'v option) \<Rightarrow> json_error \<Rightarrow> json_node option \<Rightarrow> json_error + 'v" where
  "json_required getter e pv = (case pv of
       Some node \<Rightarrow> (case getter node of Some v \<Rightarrow> Inr v | None \<Rightarrow> Inl e)
     | None \<Rightarrow> Inl e)"

definition json_optional :: "(json_node \<Rightarrow> 'v option) \<Rightarrow> json_node option \<Rightarrow> 'v \<Rightarrow> 'v" where
  "json_optional getter pv old = (case pv of
       Some node \<Rightarrow> (case getter node of Some v \<Rightarrow> v | None \<Rightarrow> old)
     | None \<Rightarrow> old)"

definition GET_JSON_AS_NUM :: "json_doc \<Rightarrow> string \<Rightarrow> json_error + rat" where
  "GET_JSON_AS_NUM doc path = json_required as_num (MissingOrBadType path) (doc path)"

definition GET_JSON_AS_INT :: "json_doc \<Rightarrow> string \<Rightarrow> json_error + int_cast" where
  "GET_JSON_AS_INT doc path = json_required as_int (MissingOrBadType path) (doc path)"

definition GET_JSON_AS_UINT :: "json_doc \<Rightarrow> string \<Rightarrow> json_error + 32 word" where
  "GET_JSON_AS_UINT doc path = json_required as_uint (MissingOrBadType path) (doc path)"

definition GET_JSON_AS_BOOL :: "json_doc \<Rightarrow> string \<Rightarrow> json_error + bool" where
  "GET_JSON_AS_BOOL doc path = json_required as_bool (MissingOrBadType path) (doc path)"

definition GET_JSON_AS_STR :: "json_doc \<Rightarrow> string \<Rightarrow> json_error + string" where
  "GET_JSON_AS_STR doc path = json_required as_str (MissingOrBadType path) (doc path)"

definition GET_JSON_AS_OBJECT :: "json_doc \<Rightarrow> string \<Rightarrow> json_error + json_node" where
  "GET_JSON_AS_OBJECT doc path = json_required as_object (MissingOrNotObject path) (doc path)"

definition GET_JSON_AS_ARRAY :: "json_doc \<Rightarrow> string \<Rightarrow> json_error + json_node" where
  "GET_JSON_AS_ARRAY doc path = json_required as_array (MissingOrNotArray path) (doc path)"

definition GET_OPT_JSON_AS_NUM :: "json_doc \<Rightarrow> string \<Rightarrow> rat \<Rightarrow> rat" where
  "GET_OPT_JSON_AS_NUM doc path = json_optional as_num (doc path)"

definition GET_OPT_JSON_AS_INT :: "json_doc \<Rightarrow> string \<Rightarrow> int_cast \<Rightarrow> int_cast" where
  "GET_OPT_JSON_AS_INT doc path = json_optional as_int (doc path)"

definition GET_OPT_JSON_AS_UINT :: "json_doc \<Rightarrow> string \<Rightarrow> 32 word \<Rightarrow> 32 word" where
  "GET_OPT_JSON_AS_UINT doc path = json_optional as_uint (doc path)"

definition GET_OPT_JSON_AS_BOOL :: "json_doc \<Rightarrow> string \<Rightarrow> bool \<Rightarrow> bool" where
  "GET_OPT_JSON_AS_BOOL doc path = json_optional as_bool (doc path)"

definition GET_OPT_JSON_AS_STR :: "json_doc \<Rightarrow> string \<Rightarrow> string \<Rightarrow> string" where
  "GET_OPT_JSON_AS_STR doc path = json_optional as_str (doc path)"

text \<open>These two assign a pointer to the value found.\<close>

definition GET_OPT_JSON_AS_OBJECT :: "json_doc \<Rightarrow> string \<Rightarrow> json_node \<Rightarrow> json_node" where
  "GET_OPT_JSON_AS_OBJECT doc path = json_optional as_object (doc path)"

definition GET_OPT_JSON_AS_ARRAY :: "json_doc \<Rightarrow> string \<Rightarrow> json_node \<Rightarrow> json_node" where
  "GET_OPT_JSON_AS_ARRAY doc path = json_optional as_array (doc path)"

lemmas json_macro_defs = GET_JSON_AS_NUM_def GET_JSON_AS_INT_def GET_JSON_AS_UINT_def GET_JSON_AS_BOOL_def
  GET_JSON_AS_STR_def GET_JSON_AS_OBJECT_def GET_JSON_AS_ARRAY_def GET_OPT_JSON_AS_NUM_def GET_OPT_JSON_AS_INT_def
  GET_OPT_JSON_AS_UINT_def GET_OPT_JSON_AS_BOOL_def GET_OPT_JSON_AS_STR_def GET_OPT_JSON_AS_OBJECT_def
  GET_OPT_JSON_AS_ARRAY_def

section \<open>Laws\<close>

text \<open>The two forms of a macro: the second takes the value of the first, or the old one where that throws.\<close>

lemma optional_is_required:
  "json_optional getter pv old = (case json_required getter e pv of Inr v \<Rightarrow> v | Inl _ \<Rightarrow> old)"
  by (auto simp: json_required_def json_optional_def split: option.splits)

lemma required_in:
  "json_required getter e pv = Inr v \<longleftrightarrow> (\<exists>node. pv = Some node \<and> getter node = Some v)"
  by (auto simp: json_required_def split: option.splits)

text \<open>The cut is towards zero and changes the number by less than one.\<close>

lemma truncate_rat_bounds:
  "\<bar>of_int (truncate_rat q)\<bar> \<le> \<bar>q\<bar>" "\<bar>q - of_int (truncate_rat q)\<bar> < 1"
proof -
  have "\<bar>of_int (truncate_rat q)\<bar> \<le> \<bar>q\<bar> \<and> \<bar>q - of_int (truncate_rat q)\<bar> < 1"
  proof (cases "0 \<le> q")
    case True
    then have "0 \<le> (of_int \<lfloor>q\<rfloor> :: rat)" by simp
    with True floor_correct [of q] show ?thesis by (simp add: truncate_rat_def abs_of_nonneg)
  next
    case False
    then have "(of_int \<lceil>q\<rceil> :: rat) \<le> 0" by simp
    with False ceiling_correct [of q] show ?thesis by (simp add: truncate_rat_def abs_of_nonpos)
  qed
  then show "\<bar>of_int (truncate_rat q)\<bar> \<le> \<bar>q\<bar>" "\<bar>q - of_int (truncate_rat q)\<bar> < 1" by simp_all
qed

lemma truncate_rat_of_int [simp]: "truncate_rat (of_int i) = i"
  by (simp add: truncate_rat_def)

lemma as_str_no_zero: "as_str node = Some v \<Longrightarrow> CHR 0x00 \<notin> set v"
  by (cases node) (auto simp: of_c_str_def dest: set_takeWhileD)

lemma static_cast_int_fits:
  "static_cast_int q = Cast i \<Longrightarrow> truncate_rat q = i \<and> - (2 ^ 31) \<le> i \<and> i < 2 ^ 31"
  by (auto simp: static_cast_int_def Let_def split: if_splits)

theorem json_forms_agree:
  "GET_OPT_JSON_AS_NUM doc path n = (case GET_JSON_AS_NUM doc path of Inr v \<Rightarrow> v | Inl _ \<Rightarrow> n)"
  "GET_OPT_JSON_AS_INT doc path i = (case GET_JSON_AS_INT doc path of Inr v \<Rightarrow> v | Inl _ \<Rightarrow> i)"
  "GET_OPT_JSON_AS_UINT doc path u = (case GET_JSON_AS_UINT doc path of Inr v \<Rightarrow> v | Inl _ \<Rightarrow> u)"
  "GET_OPT_JSON_AS_BOOL doc path b = (case GET_JSON_AS_BOOL doc path of Inr v \<Rightarrow> v | Inl _ \<Rightarrow> b)"
  "GET_OPT_JSON_AS_STR doc path t = (case GET_JSON_AS_STR doc path of Inr v \<Rightarrow> v | Inl _ \<Rightarrow> t)"
  "GET_OPT_JSON_AS_OBJECT doc path x = (case GET_JSON_AS_OBJECT doc path of Inr v \<Rightarrow> v | Inl _ \<Rightarrow> x)"
  "GET_OPT_JSON_AS_ARRAY doc path y = (case GET_JSON_AS_ARRAY doc path of Inr v \<Rightarrow> v | Inl _ \<Rightarrow> y)"
  unfolding json_macro_defs by (rule optional_is_required)+

text \<open>
  The three macros for numbers. One and the same number is taken by \<open>NUM\<close> and \<open>INT\<close>, by \<open>UINT\<close>
  only when it is one for rapidjson; \<open>INT\<close> then agrees with \<open>UINT\<close> below two to the 31, and above has
  no defined value.
\<close>

theorem json_numbers:
  assumes "doc path = Some (JNumber n)" and "\<And>u. get_uint n = Some u \<Longrightarrow> get_double n = of_int (uint u)"
  shows "GET_JSON_AS_NUM doc path = Inr (get_double n)"
    and "GET_JSON_AS_INT doc path = Inr (Cast i) \<Longrightarrow> \<bar>get_double n - of_int i\<bar> < 1 \<and> \<bar>of_int i\<bar> \<le> \<bar>get_double n\<bar>"
    and "GET_JSON_AS_UINT doc path = Inr u \<Longrightarrow>
      GET_JSON_AS_INT doc path = Inr (if uint u < 2 ^ 31 then Cast (uint u) else UndefinedCast)"
proof -
  show "GET_JSON_AS_NUM doc path = Inr (get_double n)" by (simp add: assms(1) json_macro_defs json_required_def)
  show "\<bar>get_double n - of_int i\<bar> < 1 \<and> \<bar>of_int i\<bar> \<le> \<bar>get_double n\<bar>" if "GET_JSON_AS_INT doc path = Inr (Cast i)"
    using that truncate_rat_bounds [of "get_double n"]
    by (auto simp: assms(1) json_macro_defs required_in dest: static_cast_int_fits)
  show "GET_JSON_AS_INT doc path = Inr (if uint u < 2 ^ 31 then Cast (uint u) else UndefinedCast)"
    if "GET_JSON_AS_UINT doc path = Inr u"
  proof -
    have "get_double n = of_int (uint u)"
      using that assms(2) [of u] by (simp add: assms(1) json_macro_defs required_in)
    then have "truncate_rat (get_double n) = uint u" by (simp only: truncate_rat_of_int)
    moreover have "- (2 ^ 31) \<le> uint u" by (rule order_trans [OF _ unsigned_greater_eq]) simp
    ultimately show ?thesis by (simp add: assms(1) json_macro_defs required_in static_cast_int_def Let_def)
  qed
qed

end
