(* ===== verification/Fleet_Prov.thy ===== *)
theory Fleet_Prov
  imports Topic Mqtt Json_Macro
begin

text \<open>
  \<^verbatim>\<open>src/AwsFleetProv/AwsFleetProv.cpp\<close>: the fleet provisioning of AWS on top of an MQTT
  service. The worker runs one workflow: it connects with bootstrap certificates, asks for keys
  and a certificate, registers the thing, and stores what it gets. The answers of the MQTT
  service, of the broker behind it, of the file system and of the JSON library are arguments;
  the calls made are outputs. Text an exception carries is the constructor of its message.
\<close>

section \<open>Directories\<close>

text \<open>
  \<^verbatim>\<open>Mkdir::mkdir\<close> over the levels of the path: the return value and the directories it tries
  to create. The arguments answer \<^verbatim>\<open>folder_exists\<close> and \<^verbatim>\<open>myMkdir\<close>. The piece after a
  final slash, which \<^verbatim>\<open>getline\<close> does not deliver, is empty and skipped.
\<close>

fun mkdir_loop :: "(string \<Rightarrow> bool) \<Rightarrow> (string \<Rightarrow> int) \<Rightarrow> string list \<Rightarrow> string \<Rightarrow> int \<times> string list" where
  "mkdir_loop folder_exists myMkdir [] current_level = (0, [])"
| "mkdir_loop folder_exists myMkdir (level # rest) current_level =
     (if level = [] then mkdir_loop folder_exists myMkdir rest current_level
      else let current = current_level @ level in
        if folder_exists current then mkdir_loop folder_exists myMkdir rest (current @ ''/'')
        else if myMkdir current \<noteq> 0 then (-1, [current])
        else let (r, tried) = mkdir_loop folder_exists myMkdir rest (current @ ''/'') in (r, current # tried))"

definition mkdir :: "(string \<Rightarrow> bool) \<Rightarrow> (string \<Rightarrow> int) \<Rightarrow> string \<Rightarrow> int \<times> string list" where
  "mkdir folder_exists myMkdir path = mkdir_loop folder_exists myMkdir (levels CHR ''/'' path)
     (if path \<noteq> [] \<and> path ! 0 = CHR ''/'' then ''/'' else [])"

section \<open>State\<close>

record identity_params =
  m_topicRoot :: string
  m_devStage :: string
  m_vendor :: string
  m_product :: string
  m_serialNumber :: string
  m_gwType :: string

record provisioning_data =
  m_isProvisioned :: bool
  m_provisionedKey :: string
  m_connectionPars :: ConnectionPars

text \<open>The fields of the object and, in the last four, the locals of \<^verbatim>\<open>makeProvisioning\<close>.\<close>

record 'h fleet =
  m_identity :: identity_params
  m_appName :: string
  m_provisioningData :: provisioning_data
  m_onProvisioned :: "'h option"
  m_onError :: "'h option"
  m_instanceName :: string
  m_mqttClientId :: string
  m_brokerAddr :: string
  m_templateName :: string
  m_token :: string
  m_thingName :: string
  m_certificateId :: string
  m_bootstrapCertificatePemFileName :: string
  m_bootstrapPrivatePemFileName :: string
  m_officialCertStorePath :: string
  m_officialCertificatesFileName :: string
  m_officialCertificatePemFileName :: string
  m_officialPrivatePemFileName :: string
  m_officialProvisionFileName :: string
  m_topicPrefix :: string
  topic1 :: topic
  topic2 :: topic
  topic3 :: topic
  topic4 :: topic

text \<open>
  The messages of the exceptions; \<open>SlicedException\<close> is a bare \<^verbatim>\<open>std::exception\<close>, \<open>FromHandler\<close>
  what a handler of the user threw, and \<open>UnknownError\<close> the text of the clause \<^verbatim>\<open>catch (...)\<close>.
\<close>

datatype fleet_exc =
    NoCertFile | NoKeyFile | CannotSubscribe | CannotCreateKeys | CannotRegister
  | JsonParseError | BadMember json_error | CannotOpen string | FromMqtt mqtt_error | SlicedException
  | CannotConnect | KeyNotSet | FromHandler string | UnknownError

text \<open>
  How a computation can end other than by returning: an exception of the worker, a wait on a
  promise nobody fulfils, or an exception out of a handler, on the thread of the MQTT library.
\<close>

datatype fleet_stop = Raised fleet_exc | Blocks | HandlerThrew fleet_exc

datatype 'h fleet_out =
    FMkdir string
  | FOpenWrite string
  | FWrite string string
  | FCreate string ConnectionPars
  | FConnect
  | FSubscribe topic int
  | FPublish topic int bytes
  | FUnsubscribe topic
  | FUnregisterMessageStr
  | FUnregisterOnConnect
  | FDisconnect
  | FDestroy string
  | FOnProvisioned 'h provisioning_data
  | FOnError 'h fleet_exc

type_synonym 'h fleet_outcome = "(fleet_stop, unit, 'h fleet_out, 'h fleet) outcome"

section \<open>Answers\<close>

text \<open>
  A call to the MQTT service throws, or its result callback delivers a Boolean, or never comes.
\<close>

datatype call_answer = CallThrows mqtt_error | Answered bool | NeverAnswered

datatype response = Accepted string | Rejected string | NoResponse

text \<open>
  A handler of the user returns or throws, a \<^verbatim>\<open>std::exception\<close> with its text or anything else; a
  clause \<^verbatim>\<open>catch (...)\<close> knows nothing of the latter.
\<close>

datatype handler_answer = HandlerReturns | HandlerThrowsStd string | HandlerThrowsOther

fun handler_exc :: "handler_answer \<Rightarrow> fleet_exc option" where
  "handler_exc HandlerReturns = None"
| "handler_exc (HandlerThrowsStd what) = Some (FromHandler what)"
| "handler_exc HandlerThrowsOther = Some UnknownError"

text \<open>The three last fields answer for the handlers of the user, where \<^verbatim>\<open>worker\<close> calls them: for
  success, for a connection that was not made, and in its \<^verbatim>\<open>catch\<close> clauses.
  \<open>fe_canRead\<close> is the answer to opening the provision file for reading, when it has been written or found.\<close>

record fleet_env =
  fe_fileExists :: "string \<Rightarrow> bool"
  fe_canWrite :: "string \<Rightarrow> bool"
  fe_canRead :: "string \<Rightarrow> bool"
  fe_folderExists :: "string \<Rightarrow> bool"
  fe_mkdir :: "string \<Rightarrow> int"
  fe_parse :: "string \<Rightarrow> json_doc option"
  fe_render :: "(string \<times> string) list \<Rightarrow> string"
  fe_random :: string
  fe_create :: "mqtt_error option"
  fe_connect :: "mqtt_error option"
  fe_connected :: bool
  fe_keysAccepted :: call_answer
  fe_keysRejected :: call_answer
  fe_keysPublish :: call_answer
  fe_keysResponse :: response
  fe_registerAccepted :: call_answer
  fe_registerRejected :: call_answer
  fe_registerPublish :: call_answer
  fe_registerResponse :: response
  fe_unsubscribe :: "topic \<Rightarrow> mqtt_error option"
  fe_onProvisioned :: handler_answer
  fe_onErrorRefused :: handler_answer
  fe_onErrorCaught :: handler_answer

section \<open>Handlers of messages\<close>

text \<open>An empty message leaves the document null, which has no members.\<close>

definition parse_message :: "fleet_env \<Rightarrow> string \<Rightarrow> 'h fleet \<Rightarrow> (fleet_exc, json_doc, 'h fleet_out, 'h fleet) outcome" where
  "parse_message env msg s = (if msg = [] then returns (\<lambda>_. None) s
     else case fe_parse env msg of Some doc \<Rightarrow> returns doc s | None \<Rightarrow> throws JsonParseError s)"

text \<open>A macro that throws ends the handler.\<close>

definition from_json :: "json_error + 'a \<Rightarrow> 'h fleet \<Rightarrow> (fleet_exc, 'a, 'h fleet_out, 'h fleet) outcome" where
  "from_json r s = (case r of Inr v \<Rightarrow> returns v s | Inl e \<Rightarrow> throws (BadMember e) s)"

text \<open>Opening a \<^verbatim>\<open>std::ofstream\<close> empties the file.\<close>

definition open_write :: "fleet_env \<Rightarrow> string \<Rightarrow> 'h fleet \<Rightarrow> (fleet_exc, unit, 'h fleet_out, 'h fleet) outcome" where
  "open_write env name s = (if fe_canWrite env name then emits [FOpenWrite name] s else throws (CannotOpen name) s)"

definition keys_accepted :: "fleet_env \<Rightarrow> string \<Rightarrow> 'h fleet \<Rightarrow> (fleet_exc, unit, 'h fleet_out, 'h fleet) outcome" where
  "keys_accepted env msg s =
     and_then (parse_message env msg s) (\<lambda>doc s.
     and_then (from_json (GET_JSON_AS_STR doc ''/certificateId'') s) (\<lambda>v s.
     and_then (from_json (GET_JSON_AS_STR doc ''/certificatePem'') (s\<lparr>m_certificateId := v\<rparr>)) (\<lambda>cert s.
     and_then (from_json (GET_JSON_AS_STR doc ''/privateKey'') s) (\<lambda>key s.
     and_then (from_json (GET_JSON_AS_STR doc ''/certificateOwnershipToken'') s) (\<lambda>v s.
     and_then (emits (if fe_folderExists env (m_officialCertStorePath s) then []
         else map FMkdir (snd (mkdir (fe_folderExists env) (fe_mkdir env) (m_officialCertStorePath s))))
       (s\<lparr>m_token := v\<rparr>)) (\<lambda>_ s.
     and_then (open_write env (m_officialCertificatesFileName s) s) (\<lambda>_ s.
     and_then (open_write env (m_officialCertificatePemFileName s) s) (\<lambda>_ s.
     and_then (open_write env (m_officialPrivatePemFileName s) s) (\<lambda>_ s.
     emits [FWrite (m_officialCertificatesFileName s) msg, FWrite (m_officialCertificatePemFileName s) cert,
       FWrite (m_officialPrivatePemFileName s) key] s)))))))))"

text \<open>Both handlers of a rejection.\<close>

definition rejected :: "fleet_env \<Rightarrow> string \<Rightarrow> 'h fleet \<Rightarrow> (fleet_exc, unit, 'h fleet_out, 'h fleet) outcome" where
  "rejected env msg s =
     and_then (parse_message env msg s) (\<lambda>doc s.
     and_then (from_json (GET_JSON_AS_INT doc ''/statusCode'') s) (\<lambda>statusCode s.
     and_then (from_json (GET_JSON_AS_STR doc ''/errorCode'') s) (\<lambda>errorCode s.
     and_then (from_json (GET_JSON_AS_STR doc ''/errorMessage'') s) (\<lambda>errorMessage s. returns () s))))"

text \<open>The content of the provision file is an argument, whether it can be read an answer; the branch under \<^verbatim>\<open>if (false)\<close> is dead.\<close>

definition exploreProvisionFile :: "fleet_env \<Rightarrow> string \<Rightarrow> 'h fleet \<Rightarrow> (fleet_exc, unit, 'h fleet_out, 'h fleet) outcome" where
  "exploreProvisionFile env content s = (if \<not> fe_canRead env (m_officialProvisionFileName s)
     then throws (CannotOpen (m_officialProvisionFileName s)) s
     else case fe_parse env content of
       None \<Rightarrow> throws JsonParseError s
     | Some doc \<Rightarrow> (let par = m_identity s;
           key = m_vendor par @ ''/'' @ m_product par @ ''/'' @ m_serialNumber par
         in returns () (s\<lparr>m_provisioningData := (m_provisioningData s)\<lparr>m_provisionedKey := key\<rparr>,
              m_topicPrefix := m_topicRoot par @ ''/'' @ m_devStage par @ ''/'' @ key\<rparr>)))"

definition register_accepted :: "fleet_env \<Rightarrow> string \<Rightarrow> 'h fleet \<Rightarrow> (fleet_exc, unit, 'h fleet_out, 'h fleet) outcome" where
  "register_accepted env msg s =
     and_then (open_write env (m_officialProvisionFileName s) s) (\<lambda>_ s.
     emit_then [FWrite (m_officialProvisionFileName s) msg] (exploreProvisionFile env msg s))"

section \<open>The workflow\<close>

text \<open>A call that may throw, and the wait for the Boolean its callback delivers.\<close>

definition fleet_call :: "'h fleet_out \<Rightarrow> call_answer \<Rightarrow> 'h fleet \<Rightarrow> 'h fleet_outcome" where
  "fleet_call out answer s = emit_then [out]
     (case answer of CallThrows e \<Rightarrow> throws (Raised (FromMqtt e)) s | _ \<Rightarrow> returns () s)"

fun get_future :: "call_answer \<Rightarrow> 'h fleet \<Rightarrow> (fleet_stop, bool, 'h fleet_out, 'h fleet) outcome" where
  "get_future (Answered b) s = returns b s"
| "get_future _ s = throws Blocks s"

definition demand :: "bool \<Rightarrow> fleet_exc \<Rightarrow> 'h fleet \<Rightarrow> 'h fleet_outcome" where
  "demand b exc s = (if b then returns () s else throws (Raised exc) s)"

text \<open>
  The wait for the response: the handler of its topic runs, and an exception of it never fulfils
  the promise.
\<close>

definition get_response ::
  "(string \<Rightarrow> 'h fleet \<Rightarrow> (fleet_exc, unit, 'h fleet_out, 'h fleet) outcome) \<Rightarrow> fleet_env \<Rightarrow> response
     \<Rightarrow> 'h fleet \<Rightarrow> (fleet_stop, bool, 'h fleet_out, 'h fleet) outcome"
where
  "get_response on_accepted env response s = (case response of
       NoResponse \<Rightarrow> throws Blocks s
     | Accepted msg \<Rightarrow> (let r = on_accepted msg s in
         (case result_of r of Inl e \<Rightarrow> Inl (HandlerThrew e) | Inr _ \<Rightarrow> Inr True, outs_of r, state_of r))
     | Rejected msg \<Rightarrow> (let r = rejected env msg s in
         (case result_of r of Inl e \<Rightarrow> Inl (HandlerThrew e) | Inr _ \<Rightarrow> Inr False, outs_of r, state_of r)))"

definition keys_topic :: topic where
  "keys_topic = ''$aws/certificates/create/json''"

definition register_topic :: "'h fleet \<Rightarrow> topic" where
  "register_topic s = ''$aws/provisioning-templates/'' @ m_templateName s @ ''/provision/json''"

definition keys_subscribe :: "fleet_env \<Rightarrow> 'h fleet \<Rightarrow> 'h fleet_outcome" where
  "keys_subscribe env s = (let t1 = keys_topic @ ''/accepted''; t2 = keys_topic @ ''/rejected'' in
     and_then (fleet_call (FSubscribe t1 1) (fe_keysAccepted env) (s\<lparr>topic1 := t1\<rparr>)) (\<lambda>_ s.
     and_then (fleet_call (FSubscribe t2 1) (fe_keysRejected env) (s\<lparr>topic2 := t2\<rparr>)) (\<lambda>_ s.
     and_then (get_future (fe_keysAccepted env) s) (\<lambda>b s.
     and_then (demand b CannotSubscribe s) (\<lambda>_ s.
     and_then (get_future (fe_keysRejected env) s) (\<lambda>b s.
     demand b CannotSubscribe s))))))"

definition keys_publish :: "fleet_env \<Rightarrow> 'h fleet \<Rightarrow> 'h fleet_outcome" where
  "keys_publish env s =
     and_then (fleet_call (FPublish keys_topic 1 ''{}'') (fe_keysPublish env) s) (\<lambda>_ s.
     and_then (get_future (fe_keysPublish env) s) (\<lambda>b s.
     and_then (demand b CannotCreateKeys s) (\<lambda>_ s.
     and_then (get_response (keys_accepted env) env (fe_keysResponse env) s) (\<lambda>b s.
     demand b CannotCreateKeys s))))"

definition create_keys :: "fleet_env \<Rightarrow> 'h fleet \<Rightarrow> 'h fleet_outcome" where
  "create_keys env s = and_then (keys_subscribe env s) (\<lambda>_ s. keys_publish env s)"

definition register_doc :: "'h fleet \<Rightarrow> (string \<times> string) list" where
  "register_doc s = (let par = m_identity s in
     [(''/certificateOwnershipToken'', m_token s), (''/parameters/Vendor'', m_vendor par),
      (''/parameters/Product'', m_product par), (''/parameters/SerialNumber'', m_serialNumber par),
      (''/parameters/GwType'', m_gwType par), (''/parameters/Application'', m_appName s),
      (''/parameters/DevStage'', m_devStage par), (''/parameters/CertId'', m_certificateId s),
      (''/parameters/ThingName'', m_thingName s)])"

definition thing_name :: "identity_params \<Rightarrow> string" where
  "thing_name par = ''iqrfcloud-'' @ m_vendor par @ ''-'' @ m_product par @ ''-'' @ m_serialNumber par"

definition register_subscribe :: "fleet_env \<Rightarrow> 'h fleet \<Rightarrow> 'h fleet_outcome" where
  "register_subscribe env s = (let t3 = register_topic s @ ''/accepted''; t4 = register_topic s @ ''/rejected'' in
     and_then (fleet_call (FSubscribe t3 1) (fe_registerAccepted env) (s\<lparr>topic3 := t3\<rparr>)) (\<lambda>_ s.
     and_then (fleet_call (FSubscribe t4 1) (fe_registerRejected env) (s\<lparr>topic4 := t4\<rparr>)) (\<lambda>_ s.
     and_then (get_future (fe_registerAccepted env) s) (\<lambda>accepted s.
     and_then (get_future (fe_registerRejected env) s) (\<lambda>reject s.
     and_then (demand accepted CannotSubscribe s) (\<lambda>_ s.
     demand reject CannotSubscribe s))))))"

definition register_publish :: "fleet_env \<Rightarrow> 'h fleet \<Rightarrow> 'h fleet_outcome" where
  "register_publish env s = (let s = s\<lparr>m_thingName := thing_name (m_identity s)\<rparr> in
     and_then (fleet_call (FPublish (register_topic s) 1 (fe_render env (register_doc s))) (fe_registerPublish env) s) (\<lambda>_ s.
     and_then (get_future (fe_registerPublish env) s) (\<lambda>b s.
     and_then (demand b CannotRegister s) (\<lambda>_ s.
     and_then (get_response (register_accepted env) env (fe_registerResponse env) s) (\<lambda>b s.
     demand b CannotRegister s)))))"

definition register_thing :: "fleet_env \<Rightarrow> 'h fleet \<Rightarrow> 'h fleet_outcome" where
  "register_thing env s = and_then (register_subscribe env s) (\<lambda>_ s. register_publish env s)"

text \<open>The two parts, step by step.\<close>

lemma create_keys_steps:
  "create_keys env s = (let t1 = keys_topic @ ''/accepted''; t2 = keys_topic @ ''/rejected'' in
     and_then (fleet_call (FSubscribe t1 1) (fe_keysAccepted env) (s\<lparr>topic1 := t1\<rparr>)) (\<lambda>_ s.
     and_then (fleet_call (FSubscribe t2 1) (fe_keysRejected env) (s\<lparr>topic2 := t2\<rparr>)) (\<lambda>_ s.
     and_then (get_future (fe_keysAccepted env) s) (\<lambda>b s.
     and_then (demand b CannotSubscribe s) (\<lambda>_ s.
     and_then (get_future (fe_keysRejected env) s) (\<lambda>b s.
     and_then (demand b CannotSubscribe s) (\<lambda>_ s.
     and_then (fleet_call (FPublish keys_topic 1 ''{}'') (fe_keysPublish env) s) (\<lambda>_ s.
     and_then (get_future (fe_keysPublish env) s) (\<lambda>b s.
     and_then (demand b CannotCreateKeys s) (\<lambda>_ s.
     and_then (get_response (keys_accepted env) env (fe_keysResponse env) s) (\<lambda>b s.
     demand b CannotCreateKeys s)))))))))))"
  by (simp only: create_keys_def keys_subscribe_def keys_publish_def and_then_assoc Let_def)

lemma register_thing_steps:
  "register_thing env s = (let t3 = register_topic s @ ''/accepted''; t4 = register_topic s @ ''/rejected'' in
     and_then (fleet_call (FSubscribe t3 1) (fe_registerAccepted env) (s\<lparr>topic3 := t3\<rparr>)) (\<lambda>_ s.
     and_then (fleet_call (FSubscribe t4 1) (fe_registerRejected env) (s\<lparr>topic4 := t4\<rparr>)) (\<lambda>_ s.
     and_then (get_future (fe_registerAccepted env) s) (\<lambda>accepted s.
     and_then (get_future (fe_registerRejected env) s) (\<lambda>reject s.
     and_then (demand accepted CannotSubscribe s) (\<lambda>_ s.
     and_then (demand reject CannotSubscribe s) (\<lambda>_ s.
     let s = s\<lparr>m_thingName := thing_name (m_identity s)\<rparr> in
     and_then (fleet_call (FPublish (register_topic s) 1 (fe_render env (register_doc s))) (fe_registerPublish env) s) (\<lambda>_ s.
     and_then (get_future (fe_registerPublish env) s) (\<lambda>b s.
     and_then (demand b CannotRegister s) (\<lambda>_ s.
     and_then (get_response (register_accepted env) env (fe_registerResponse env) s) (\<lambda>b s.
     demand b CannotRegister s)))))))))))"
  by (simp only: register_thing_def register_subscribe_def register_publish_def and_then_assoc Let_def)

text \<open>Unsubscribing in the order given, up to the first call that throws.\<close>

fun unsubscribe_all :: "fleet_env \<Rightarrow> topic list \<Rightarrow> 'h fleet \<Rightarrow> 'h fleet_outcome" where
  "unsubscribe_all env [] s = returns () s"
| "unsubscribe_all env (t # ts) s = and_then
     (emit_then [FUnsubscribe t] (case fe_unsubscribe env t of
        Some e \<Rightarrow> throws (Raised (FromMqtt e)) s | None \<Rightarrow> returns () s))
     (\<lambda>_ s. unsubscribe_all env ts s)"

text \<open>
  The \<^verbatim>\<open>catch\<close> clause: the topics set so far (and the empty ones) are unsubscribed, then
  \<^verbatim>\<open>throw e\<close> throws a copy of the caught reference as \<^verbatim>\<open>std::exception\<close>.
\<close>

definition cancel_provisioning :: "fleet_env \<Rightarrow> 'h fleet \<Rightarrow> 'h fleet_outcome" where
  "cancel_provisioning env s =
     and_then (unsubscribe_all env [topic1 s, topic2 s, topic3 s, topic4 s] s)
       (\<lambda>_ s. throws (Raised SlicedException) s)"

definition makeProvisioning :: "fleet_env \<Rightarrow> 'h fleet \<Rightarrow> 'h fleet_outcome" where
  "makeProvisioning env s = (let r =
       and_then (create_keys env (s\<lparr>topic1 := [], topic2 := [], topic3 := [], topic4 := []\<rparr>)) (\<lambda>_ s.
       and_then (register_thing env s) (\<lambda>_ s.
       unsubscribe_all env [topic4 s, topic3 s, topic2 s, topic1 s] s))
     in case result_of r of
         Inl (Raised e) \<Rightarrow> emit_then (outs_of r) (cancel_provisioning env (state_of r))
       | _ \<Rightarrow> r)"

definition on_error :: "fleet_exc \<Rightarrow> 'h fleet \<Rightarrow> 'h fleet_out list" where
  "on_error e s = (case m_onError s of Some h \<Rightarrow> [FOnError h e] | None \<Rightarrow> [])"

definition on_provisioned :: "'h fleet \<Rightarrow> 'h fleet_out list" where
  "on_provisioned s = (case m_onProvisioned s of Some h \<Rightarrow> [FOnProvisioned h (m_provisioningData s)] | None \<Rightarrow> [])"

definition provisioned_pars :: "'h fleet \<Rightarrow> ConnectionPars \<Rightarrow> ConnectionPars" where
  "provisioned_pars s cp = cp\<lparr>cp_brokerAddress := m_brokerAddr s,
     cp_certificate := m_officialCertificatePemFileName s, cp_privateKey := m_officialPrivatePemFileName s\<rparr>"

definition set_provisioned :: "'h fleet \<Rightarrow> 'h fleet" where
  "set_provisioned s = s\<lparr>m_provisioningData := (m_provisioningData s)\<lparr>m_isProvisioned := True,
     m_connectionPars := provisioned_pars s (m_connectionPars (m_provisioningData s))\<rparr>\<rparr>"

text \<open>From the check of the files to the return of \<^verbatim>\<open>connect\<close>.\<close>

definition worker_connect :: "fleet_env \<Rightarrow> 'h fleet \<Rightarrow> 'h fleet_outcome" where
  "worker_connect env s = (let
       cp = default_ConnectionPars\<lparr>cp_brokerAddress := m_brokerAddr s,
         cp_certificate := m_bootstrapCertificatePemFileName s,
         cp_privateKey := m_bootstrapPrivatePemFileName s\<rparr>
     in if \<not> fe_fileExists env (m_bootstrapCertificatePemFileName s) then throws (Raised NoCertFile) s
        else if \<not> fe_fileExists env (m_bootstrapPrivatePemFileName s) then throws (Raised NoKeyFile) s
        else let s = s\<lparr>m_mqttClientId := m_instanceName s @ ''_'' @ fe_random env\<rparr> in
          emit_then [FCreate (m_mqttClientId s) cp]
            (case fe_create env of Some e \<Rightarrow> throws (Raised (FromMqtt e)) s
             | None \<Rightarrow> emit_then [FConnect]
                 (case fe_connect env of Some e \<Rightarrow> throws (Raised (FromMqtt e)) s | None \<Rightarrow> returns () s)))"

text \<open>
  Calling a handler of the user, if there is one: what it throws goes up from the call.
\<close>

definition thrown :: "'h fleet_out list \<Rightarrow> handler_answer \<Rightarrow> fleet_exc option" where
  "thrown outs answer = (if outs = [] then None else handler_exc answer)"

definition call_handler :: "'h fleet_out list \<Rightarrow> handler_answer \<Rightarrow> 'h fleet \<Rightarrow> 'h fleet_outcome" where
  "call_handler outs answer s = (case thrown outs answer of
       None \<Rightarrow> emits outs s
     | Some e \<Rightarrow> emit_then outs (throws (Raised e) s))"

text \<open>
  The body of the \<^verbatim>\<open>try\<close> block. The reports are in it: a handler that throws skips the
  disconnect and the destroy.
\<close>

definition worker_body :: "fleet_env \<Rightarrow> 'h fleet \<Rightarrow> 'h fleet_outcome" where
  "worker_body env s = and_then (worker_connect env s) (\<lambda>_ s.
     and_then
       (if fe_connected env then
          and_then (makeProvisioning env s) (\<lambda>_ s.
            let s = set_provisioned s in call_handler (on_provisioned s) (fe_onProvisioned env) s)
        else let s = s\<lparr>m_provisioningData := (m_provisioningData s)\<lparr>m_isProvisioned := False\<rparr>\<rparr> in
          call_handler (on_error CannotConnect s) (fe_onErrorRefused env) s)
       (\<lambda>_ s. emits [FDisconnect, FDestroy (m_mqttClientId s)] s))"

text \<open>
  The two \<^verbatim>\<open>catch\<close> clauses differ in the text they report. \<open>Raised\<close> as a result of the whole is
  an exception out of the report they make, which leaves \<^verbatim>\<open>worker\<close>.
\<close>

definition fleet_worker :: "fleet_env \<Rightarrow> 'h fleet \<Rightarrow> 'h fleet_outcome" where
  "fleet_worker env s = (let r = worker_body env s in
     case result_of r of
       Inl (Raised e) \<Rightarrow> emit_then (outs_of r)
         (call_handler (on_error e (state_of r)) (fe_onErrorCaught env) (state_of r))
     | _ \<Rightarrow> r)"

section \<open>The component\<close>

text \<open>\<^verbatim>\<open>launchProvisioning\<close>; without a thread, or once the thread is joined, it is the worker.\<close>

definition launchProvisioning :: "'h option \<Rightarrow> 'h option \<Rightarrow> fleet_env \<Rightarrow> 'h fleet \<Rightarrow> 'h fleet_outcome" where
  "launchProvisioning onProvisioned onError env s =
     fleet_worker env (s\<lparr>m_onProvisioned := onProvisioned, m_onError := onError\<rparr>)"

definition unregisterProvisioningHandlers :: "'h fleet \<Rightarrow> 'h fleet" where
  "unregisterProvisioningHandlers s = s\<lparr>m_onError := None, m_onProvisioned := None\<rparr>"

definition getProvisioningData :: "'h fleet \<Rightarrow> provisioning_data" where
  "getProvisioningData s = m_provisioningData s"

definition getTopicPrefix :: "'h fleet \<Rightarrow> fleet_exc + string" where
  "getTopicPrefix s = (if m_provisionedKey (m_provisioningData s) = [] then Inl KeyNotSet else Inr (m_topicPrefix s))"

text \<open>
  \<^verbatim>\<open>Imp::modify\<close>, which only \<^verbatim>\<open>activate\<close> calls: the \<^verbatim>\<open>modify\<close> of the component itself does
  nothing. A member that is missing or not a string leaves its field.
\<close>

definition fleet_modify :: "(string \<Rightarrow> string option) \<Rightarrow> 'h fleet \<Rightarrow> 'h fleet" where
  "fleet_modify doc s = s\<lparr>
     m_instanceName := (case doc ''/instance'' of Some v \<Rightarrow> v | None \<Rightarrow> m_instanceName s),
     m_brokerAddr := (case doc ''/brokerAddr'' of Some v \<Rightarrow> v | None \<Rightarrow> m_brokerAddr s),
     m_templateName := (case doc ''/templateName'' of Some v \<Rightarrow> v | None \<Rightarrow> m_templateName s)\<rparr>"

definition fleet_component_modify :: "(string \<Rightarrow> string option) \<Rightarrow> 'h fleet \<Rightarrow> 'h fleet" where
  "fleet_component_modify doc s = s"

definition fleet_paths :: "string \<Rightarrow> 'h fleet \<Rightarrow> 'h fleet" where
  "fleet_paths dataDir s = (let bootstrap = dataDir @ ''/cert/bootstrap/''; official = dataDir @ ''/cert/official/'' in
     s\<lparr>m_bootstrapCertificatePemFileName := bootstrap @ ''certificate.pem.crt'',
       m_bootstrapPrivatePemFileName := bootstrap @ ''private.pem.key'',
       m_officialCertStorePath := official,
       m_officialCertificatesFileName := official @ ''certificates.json'',
       m_officialCertificatePemFileName := official @ ''certificate.pem.crt'',
       m_officialPrivatePemFileName := official @ ''private.pem.key'',
       m_officialProvisionFileName := official @ ''provision.json''\<rparr>)"

definition official_files :: "'h fleet \<Rightarrow> string list" where
  "official_files s = [m_officialCertificatesFileName s, m_officialCertificatePemFileName s,
     m_officialPrivatePemFileName s, m_officialProvisionFileName s]"

definition forget_provisioning :: "'h fleet \<Rightarrow> 'h fleet" where
  "forget_provisioning s = (let d = m_provisioningData s in
     s\<lparr>m_provisioningData := d\<lparr>m_isProvisioned := False,
        m_connectionPars := (m_connectionPars d)\<lparr>cp_brokerAddress := [], cp_certificate := [], cp_privateKey := []\<rparr>\<rparr>\<rparr>)"

text \<open>\<^verbatim>\<open>activate\<close>, with the data directory and the content of the provision file.\<close>

definition fleet_activate ::
  "(string \<Rightarrow> string option) \<Rightarrow> string \<Rightarrow> string \<Rightarrow> fleet_env \<Rightarrow> 'h fleet \<Rightarrow> (fleet_exc, unit, 'h fleet_out, 'h fleet) outcome"
where
  "fleet_activate doc dataDir content env s = (let s = fleet_paths dataDir (fleet_modify doc s) in
     if \<forall>f \<in> set (official_files s). fe_fileExists env f
     then exploreProvisionFile env content (set_provisioned s)
     else returns () (forget_provisioning s))"

text \<open>
  \<^verbatim>\<open>deactivate\<close>: the calls to the MQTT service, if there is one. The join of the worker
  which follows returns when \<open>fleet_worker\<close> has.
\<close>

definition fleet_deactivate :: "bool \<Rightarrow> 'h fleet \<Rightarrow> 'h fleet_outcome" where
  "fleet_deactivate has_mqtt s =
     emits (if has_mqtt then [FUnregisterMessageStr, FUnregisterOnConnect, FDisconnect] else []) s"

section \<open>What the workflow leaves alone\<close>

text \<open>The configuration of a run: it names the files and the handlers.\<close>

definition fleet_config :: "'h fleet \<Rightarrow> 'h option \<times> 'h option \<times> string list \<times> identity_params \<times> string" where
  "fleet_config s = (m_onProvisioned s, m_onError s, official_files s, m_identity s, m_templateName s)"

fun workflow_out :: "'h fleet_out \<Rightarrow> bool" where
  "workflow_out (FMkdir d) = True"
| "workflow_out (FOpenWrite f) = True"
| "workflow_out (FWrite f c) = True"
| "workflow_out (FSubscribe t q) = True"
| "workflow_out (FPublish t q m) = True"
| "workflow_out (FUnsubscribe t) = True"
| "workflow_out _ = False"

text \<open>Computations that keep the configuration and the id of the client, and only make calls of the workflow.\<close>

definition fleet_frame :: "'h fleet \<Rightarrow> ('h option \<times> 'h option \<times> string list \<times> identity_params \<times> string) \<times> string" where
  "fleet_frame s = (fleet_config s, m_mqttClientId s)"

definition tame :: "'h fleet \<Rightarrow> ('e, 'a, 'h fleet_out, 'h fleet) outcome \<Rightarrow> bool" where
  "tame s r \<longleftrightarrow> fleet_frame (state_of r) = fleet_frame s \<and> list_all workflow_out (outs_of r)"

lemma tame_and_then:
  assumes "tame s r" and "\<And>a t. fleet_frame t = fleet_frame s \<Longrightarrow> tame s (k a t)"
  shows "tame s (and_then r k)"
  using assms by (cases "result_of r") (auto simp: tame_def and_then_def)

lemma tame_emit_then: "list_all workflow_out outs \<Longrightarrow> tame s r \<Longrightarrow> tame s (emit_then outs r)"
  by (simp add: tame_def outcome_simps)

lemma tame_simps:
  "tame s (returns a t) \<longleftrightarrow> fleet_frame t = fleet_frame s"
  "tame s (throws e t) \<longleftrightarrow> fleet_frame t = fleet_frame s"
  "tame s (emits outs t) \<longleftrightarrow> fleet_frame t = fleet_frame s \<and> list_all workflow_out outs"
  by (simp_all add: tame_def outcome_simps)

lemma fleet_config_updates [simp]:
  "fleet_config (s\<lparr>m_certificateId := v\<rparr>) = fleet_config s"
  "fleet_config (s\<lparr>m_token := v\<rparr>) = fleet_config s"
  "fleet_config (s\<lparr>m_thingName := v\<rparr>) = fleet_config s"
  "fleet_config (s\<lparr>m_provisioningData := d\<rparr>) = fleet_config s"
  "fleet_config (s\<lparr>m_topicPrefix := v\<rparr>) = fleet_config s"
  "fleet_config (s\<lparr>m_mqttClientId := v\<rparr>) = fleet_config s"
  "fleet_config (s\<lparr>topic1 := t\<rparr>) = fleet_config s"
  "fleet_config (s\<lparr>topic2 := t\<rparr>) = fleet_config s"
  "fleet_config (s\<lparr>topic3 := t\<rparr>) = fleet_config s"
  "fleet_config (s\<lparr>topic4 := t\<rparr>) = fleet_config s"
  by (simp_all add: fleet_config_def official_files_def)

lemma fleet_frame_updates [simp]:
  "fleet_frame (s\<lparr>m_certificateId := v\<rparr>) = fleet_frame s"
  "fleet_frame (s\<lparr>m_token := v\<rparr>) = fleet_frame s"
  "fleet_frame (s\<lparr>m_thingName := v\<rparr>) = fleet_frame s"
  "fleet_frame (s\<lparr>m_provisioningData := d\<rparr>) = fleet_frame s"
  "fleet_frame (s\<lparr>m_topicPrefix := v\<rparr>) = fleet_frame s"
  "fleet_frame (s\<lparr>topic1 := t\<rparr>) = fleet_frame s"
  "fleet_frame (s\<lparr>topic2 := t\<rparr>) = fleet_frame s"
  "fleet_frame (s\<lparr>topic3 := t\<rparr>) = fleet_frame s"
  "fleet_frame (s\<lparr>topic4 := t\<rparr>) = fleet_frame s"
  by (simp_all add: fleet_frame_def)

lemma tame_calls:
  "fleet_frame t = fleet_frame s \<Longrightarrow> workflow_out out \<Longrightarrow> tame s (fleet_call out a t)"
  "fleet_frame t = fleet_frame s \<Longrightarrow> tame s (get_future a t)"
  "fleet_frame t = fleet_frame s \<Longrightarrow> tame s (demand b e t)"
  "fleet_frame t = fleet_frame s \<Longrightarrow> tame s (parse_message env msg t)"
  "fleet_frame t = fleet_frame s \<Longrightarrow> tame s (from_json r t)"
  "fleet_frame t = fleet_frame s \<Longrightarrow> tame s (open_write env name t)"
  "fleet_frame t = fleet_frame s \<Longrightarrow> tame s (exploreProvisionFile env content t)"
  by (auto simp: fleet_call_def demand_def parse_message_def from_json_def
      open_write_def exploreProvisionFile_def Let_def tame_simps intro!: tame_emit_then
      split: call_answer.split option.split sum.split)
    (cases a; simp add: tame_simps)

lemmas tame_intros = tame_and_then tame_calls

lemma tame_handlers:
  assumes "fleet_frame t = fleet_frame s"
  shows "tame s (keys_accepted env msg t)" and "tame s (rejected env msg t)"
    and "tame s (register_accepted env msg t)"
proof -
  show "tame s (keys_accepted env msg t)"
    unfolding keys_accepted_def using assms
    by (intro tame_intros) (simp_all add: tame_simps list_all_iff)
  show "tame s (rejected env msg t)"
    unfolding rejected_def using assms by (intro tame_intros) (simp_all add: tame_simps)
  show "tame s (register_accepted env msg t)"
    unfolding register_accepted_def using assms
    by (intro tame_intros tame_emit_then) simp_all
qed

lemma tame_get_response:
  assumes "\<And>msg t. fleet_frame t = fleet_frame s \<Longrightarrow> tame s (h msg t)" and "fleet_frame t = fleet_frame s"
  shows "tame s (get_response h env response t)"
proof (cases response)
  case (Accepted msg)
  from assms(1) [OF assms(2), of msg] Accepted show ?thesis
    by (simp add: get_response_def tame_def Let_def)
next
  case (Rejected msg)
  from tame_handlers(2) [OF assms(2), of env msg] Rejected show ?thesis
    by (simp add: get_response_def tame_def Let_def)
qed (simp add: get_response_def tame_simps assms(2))

lemma tame_create_keys: "fleet_frame t = fleet_frame s \<Longrightarrow> tame s (create_keys env t)"
  unfolding create_keys_steps Let_def
  by (intro tame_intros tame_get_response tame_handlers) simp_all

lemma tame_register_thing: "fleet_frame t = fleet_frame s \<Longrightarrow> tame s (register_thing env t)"
  unfolding register_thing_steps Let_def
  by (intro tame_intros tame_get_response tame_handlers) simp_all

lemma tame_unsubscribe_all: "fleet_frame t = fleet_frame s \<Longrightarrow> tame s (unsubscribe_all env ts t)"
proof (induction ts arbitrary: t)
  case (Cons x ts)
  show ?case
    unfolding unsubscribe_all.simps
    by (intro tame_and_then tame_emit_then) (auto simp: tame_simps Cons split: option.split)
qed (simp add: tame_simps)

text \<open>The \<^verbatim>\<open>try\<close> block of \<^verbatim>\<open>makeProvisioning\<close>.\<close>

abbreviation provisioning_try :: "fleet_env \<Rightarrow> 'h fleet \<Rightarrow> 'h fleet_outcome" where
  "provisioning_try env s \<equiv>
     and_then (create_keys env (s\<lparr>topic1 := [], topic2 := [], topic3 := [], topic4 := []\<rparr>)) (\<lambda>_ s.
       and_then (register_thing env s) (\<lambda>_ s. unsubscribe_all env [topic4 s, topic3 s, topic2 s, topic1 s] s))"

lemma makeProvisioning_cases:
  obtains (caught) e where "result_of (provisioning_try env s) = Inl (Raised e)"
      and "makeProvisioning env s = emit_then (outs_of (provisioning_try env s))
        (cancel_provisioning env (state_of (provisioning_try env s)))"
  | (through) "\<nexists>e. result_of (provisioning_try env s) = Inl (Raised e)"
      and "makeProvisioning env s = provisioning_try env s"
proof (cases "result_of (provisioning_try env s)")
  case (Inl stop)
  with that show ?thesis by (cases stop) (simp_all add: makeProvisioning_def Let_def)
next
  case (Inr u)
  with that show ?thesis by (simp add: makeProvisioning_def Let_def)
qed

lemma tame_makeProvisioning:
  assumes "fleet_frame t = fleet_frame s"
  shows "tame s (makeProvisioning env t)"
proof -
  have r: "tame s (provisioning_try env t)"
    using assms by (intro tame_and_then tame_create_keys tame_register_thing tame_unsubscribe_all) simp_all
  have cancel: "tame s (cancel_provisioning env u)" if "fleet_frame u = fleet_frame s" for u
    unfolding cancel_provisioning_def using that
    by (intro tame_and_then tame_unsubscribe_all) (simp_all add: tame_simps)
  from r have "fleet_frame (state_of (provisioning_try env t)) = fleet_frame s"
    and "list_all workflow_out (outs_of (provisioning_try env t))"
    unfolding tame_def by blast+
  with r cancel show ?thesis
    by (cases rule: makeProvisioning_cases [of env t]) (simp_all only: tame_emit_then)
qed

section \<open>What a completed workflow has stored\<close>

text \<open>A computation that returns has made calls with the property \<open>Q\<close>.\<close>

definition achieves :: "('e, 'a, 'o, 's) outcome \<Rightarrow> ('o set \<Rightarrow> bool) \<Rightarrow> bool" where
  "achieves r Q \<longleftrightarrow> (\<forall>b. result_of r = Inr b \<longrightarrow> Q (set (outs_of r)))"

definition upward :: "('o set \<Rightarrow> bool) \<Rightarrow> bool" where
  "upward Q \<longleftrightarrow> (\<forall>A B. Q A \<longrightarrow> A \<subseteq> B \<longrightarrow> Q B)"

lemma achieves_later:
  assumes "upward Q" and "\<And>a. result_of r = Inr a \<Longrightarrow> achieves (k a (state_of r)) Q"
  shows "achieves (and_then r k) Q"
proof (cases "result_of r")
  case (Inr a)
  with assms(2) [OF Inr] show ?thesis
    using assms(1) by (auto simp: achieves_def upward_def and_then_def)
qed (simp add: achieves_def and_then_def)

lemma achieves_first:
  assumes "upward Q" and "achieves r Q"
  shows "achieves (and_then r k) Q"
  using assms by (cases "result_of r") (auto simp: achieves_def upward_def and_then_def)

lemma achieves_emit_then: "upward Q \<Longrightarrow> achieves r Q \<Longrightarrow> achieves (emit_then outs r) Q"
  by (auto simp: achieves_def upward_def outcome_simps)

lemma demand_Inr: "result_of (demand b e s) = Inr () \<Longrightarrow> b"
  by (cases b) (simp_all add: demand_def outcome_simps)

lemma get_response_True:
  "result_of (get_response h env response s) = Inr True \<Longrightarrow> \<exists>msg. response = Accepted msg
     \<and> result_of (h msg s) = Inr () \<and> outs_of (get_response h env response s) = outs_of (h msg s)"
  by (cases response)
     (auto simp: get_response_def Let_def outcome_simps split: sum.splits)

lemma small_states [simp]:
  "state_of (fleet_call out a s) = s" "state_of (get_future a s) = s" "state_of (demand b e s) = s"
  "state_of (parse_message env msg s) = s" "state_of (from_json r s) = s"
  "state_of (open_write env name s) = s"
  by (simp_all add: fleet_call_def demand_def parse_message_def from_json_def
      open_write_def outcome_simps split: call_answer.split option.split sum.split)
    (cases a; simp add: outcome_simps)

lemma get_future_Inr: "result_of (get_future a s) = Inr b \<Longrightarrow> a = Answered b"
  by (cases a) (simp_all add: outcome_simps)

text \<open>
  The files the two handlers write when they return: the message as it is, and the certificate and
  the private key of the document the message parses to, each in its own file.
\<close>

definition keys_stored :: "fleet_env \<Rightarrow> string \<Rightarrow> 'h fleet \<Rightarrow> 'h fleet_out set \<Rightarrow> bool" where
  "keys_stored env msg s outs \<longleftrightarrow> (\<exists>doc cert key. fe_parse env msg = Some doc
     \<and> GET_JSON_AS_STR doc ''/certificatePem'' = Inr cert \<and> GET_JSON_AS_STR doc ''/privateKey'' = Inr key
     \<and> {FWrite (m_officialCertificatesFileName s) msg, FWrite (m_officialCertificatePemFileName s) cert,
        FWrite (m_officialPrivatePemFileName s) key} \<subseteq> outs)"

lemma keys_stored_mono: "keys_stored env msg s A \<Longrightarrow> A \<subseteq> B \<Longrightarrow> keys_stored env msg s B"
  by (fastforce simp: keys_stored_def)

lemma keys_stored_config:
  "fleet_config s = fleet_config t \<Longrightarrow> keys_stored env msg s A \<longleftrightarrow> keys_stored env msg t A"
  by (simp add: keys_stored_def fleet_config_def official_files_def)

lemma upward_stored [simp]:
  "upward (keys_stored env msg s)" "upward (\<lambda>outs. \<exists>msg. response = Accepted msg \<and> keys_stored env msg s outs)"
  "upward (\<lambda>outs. out \<in> outs)" "upward (\<lambda>outs. \<exists>msg. response = Accepted msg \<and> f msg \<in> outs)"
  by (auto simp: upward_def intro: keys_stored_mono)

lemma parse_message_Inr:
  "result_of (parse_message env msg s) = Inr doc \<Longrightarrow> msg = [] \<and> doc = (\<lambda>_. None) \<or> fe_parse env msg = Some doc"
  by (auto simp: parse_message_def outcome_simps split: if_splits option.splits)

lemma from_json_Inr: "result_of (from_json r s) = Inr v \<Longrightarrow> r = Inr v"
  by (simp add: from_json_def outcome_simps split: sum.splits)

lemma null_document: "GET_JSON_AS_STR (\<lambda>_. None) path \<noteq> Inr v"
  by (simp add: GET_JSON_AS_STR_def json_required_def)

lemma keys_accepted_stores: "achieves (keys_accepted env msg s) (keys_stored env msg s)"
proof -
  have files: "keys_stored env msg s {FWrite (m_officialCertificatesFileName t) msg,
     FWrite (m_officialCertificatePemFileName t) cert, FWrite (m_officialPrivatePemFileName t) key}"
    if "fleet_config t = fleet_config s" and "result_of (parse_message env msg s1) = Inr doc"
      and "result_of (from_json (GET_JSON_AS_STR doc ''/certificatePem'') s2) = Inr cert"
      and "result_of (from_json (GET_JSON_AS_STR doc ''/privateKey'') s3) = Inr key"
    for t s1 s2 s3 :: "'a fleet" and doc cert key
    using that(1) parse_message_Inr [OF that(2)] from_json_Inr [OF that(3)] from_json_Inr [OF that(4)] null_document
    by (auto simp: keys_stored_def fleet_config_def official_files_def)
  show ?thesis
    unfolding keys_accepted_def
    by (rule achieves_later, simp)+ (simp add: achieves_def outcome_simps files)
qed

lemma register_accepted_stores:
  "achieves (register_accepted env msg s) (\<lambda>outs. FWrite (m_officialProvisionFileName s) msg \<in> outs)"
  unfolding register_accepted_def
  by (rule achieves_later, simp) (simp add: achieves_def outcome_simps)

text \<open>The last step of both halves: the response, which has to be an acceptance.\<close>

lemma response_stores:
  assumes "\<And>msg. achieves (h msg s) (Q msg)" and "\<And>msg. upward (Q msg)"
  shows "achieves (and_then (get_response h env response s) (\<lambda>b s. demand b e s))
    (\<lambda>outs. \<exists>msg. response = Accepted msg \<and> Q msg outs)"
proof (cases response)
  case (Accepted msg)
  then have "achieves (get_response h env response s) (Q msg)"
    using assms(1) [of msg]
    by (cases "result_of (h msg s)") (auto simp: achieves_def get_response_def Let_def)
  with Accepted show ?thesis using achieves_first [OF assms(2)] by simp
next
  case (Rejected msg)
  then show ?thesis
    by (cases "result_of (rejected env msg s)")
       (simp_all add: achieves_def get_response_def Let_def and_then_def demand_def throws_def)
qed (simp add: achieves_def get_response_def and_then_def throws_def)

lemma create_keys_stores:
  "achieves (create_keys env s) (\<lambda>outs. \<exists>msg. fe_keysResponse env = Accepted msg \<and> keys_stored env msg s outs)"
proof -
  let ?Q = "\<lambda>outs. \<exists>msg. fe_keysResponse env = Accepted msg \<and> keys_stored env msg s outs"
  have last: "achieves (and_then (get_response (keys_accepted env) env (fe_keysResponse env) t) (\<lambda>b s. demand b e s)) ?Q"
    if "fleet_config t = fleet_config s" for t :: "'a fleet" and e
    using response_stores [where h = "keys_accepted env" and Q = "\<lambda>msg. keys_stored env msg t" and s = t,
        OF keys_accepted_stores] keys_stored_config [OF that] by simp
  show ?thesis
    unfolding create_keys_steps Let_def by (rule last | rule achieves_later, simp)+ simp
qed

lemma register_thing_stores:
  "achieves (register_thing env s)
     (\<lambda>outs. \<exists>msg. fe_registerResponse env = Accepted msg \<and> FWrite (m_officialProvisionFileName s) msg \<in> outs)"
proof -
  let ?Q = "\<lambda>outs. \<exists>msg. fe_registerResponse env = Accepted msg \<and> FWrite (m_officialProvisionFileName s) msg \<in> outs"
  have last: "achieves (and_then (get_response (register_accepted env) env (fe_registerResponse env) t) (\<lambda>b s. demand b e s)) ?Q"
    if "fleet_config t = fleet_config s" for t :: "'a fleet" and e
    using response_stores [where h = "register_accepted env" and s = t
        and Q = "\<lambda>msg outs. FWrite (m_officialProvisionFileName t) msg \<in> outs",
        OF register_accepted_stores] that
    by (simp add: fleet_config_def official_files_def)
  show ?thesis
    unfolding register_thing_steps Let_def by (rule last | rule achieves_later, simp)+ simp
qed

lemma cancel_throws: "result_of (cancel_provisioning env s) \<noteq> Inr u"
  by (cases "result_of (unsubscribe_all env [topic1 s, topic2 s, topic3 s, topic4 s] s)")
     (simp_all add: cancel_provisioning_def and_then_def throws_def del: unsubscribe_all.simps)

definition workflow_stored :: "fleet_env \<Rightarrow> 'h fleet \<Rightarrow> 'h fleet_out set \<Rightarrow> bool" where
  "workflow_stored env s outs \<longleftrightarrow>
     (\<exists>msg. fe_keysResponse env = Accepted msg \<and> keys_stored env msg s outs)
     \<and> (\<exists>msg. fe_registerResponse env = Accepted msg \<and> FWrite (m_officialProvisionFileName s) msg \<in> outs)"

lemma workflow_stored_mono: "workflow_stored env s A \<Longrightarrow> A \<subseteq> B \<Longrightarrow> workflow_stored env s B"
  by (auto simp: workflow_stored_def intro: keys_stored_mono)

lemma workflow_stored_config:
  "fleet_config s = fleet_config t \<Longrightarrow> workflow_stored env s A \<longleftrightarrow> workflow_stored env t A"
  using keys_stored_config [of s t]
  by (simp add: workflow_stored_def fleet_config_def official_files_def)

lemma makeProvisioning_stores: "achieves (makeProvisioning env s) (workflow_stored env s)"
proof -
  let ?s = "s\<lparr>topic1 := [], topic2 := [], topic3 := [], topic4 := []\<rparr>"
  have config: "fleet_config ?s = fleet_config s" by simp
  have keys: "achieves (provisioning_try env s)
      (\<lambda>outs. \<exists>msg. fe_keysResponse env = Accepted msg \<and> keys_stored env msg s outs)"
    using create_keys_stores [of env ?s] keys_stored_config [OF config]
    by (intro achieves_first) simp_all
  have reg: "achieves (provisioning_try env s)
      (\<lambda>outs. \<exists>msg. fe_registerResponse env = Accepted msg \<and> FWrite (m_officialProvisionFileName s) msg \<in> outs)"
  proof (rule achieves_later, simp, rule achieves_first, simp)
    let ?t = "state_of (create_keys env ?s)"
    have "fleet_config ?t = fleet_config s"
      using tame_create_keys [of ?s s env] by (simp add: tame_def fleet_frame_def)
    then have "m_officialProvisionFileName ?t = m_officialProvisionFileName s"
      by (simp add: fleet_config_def official_files_def)
    with register_thing_stores [of env ?t]
    show "achieves (register_thing env ?t)
      (\<lambda>outs. \<exists>msg. fe_registerResponse env = Accepted msg \<and> FWrite (m_officialProvisionFileName s) msg \<in> outs)"
      by simp
  qed
  show ?thesis
  proof (cases rule: makeProvisioning_cases [of env s])
    case (caught e)
    then show ?thesis by (simp add: achieves_def outcome_simps cancel_throws)
  next
    case through
    with keys reg show ?thesis by (simp add: achieves_def workflow_stored_def)
  qed
qed

section \<open>The worker\<close>

fun is_report :: "'h fleet_out \<Rightarrow> bool" where
  "is_report (FOnProvisioned h d) = True"
| "is_report (FOnError h e) = True"
| "is_report _ = False"

lemma workflow_no_report: "list_all workflow_out outs \<Longrightarrow> filter is_report outs = []"
  by (induction outs) (auto elim!: workflow_out.elims)

lemma workflow_keeps_client:
  "list_all workflow_out outs \<Longrightarrow> FDisconnect \<notin> set outs \<and> FDestroy c \<notin> set outs \<and> FCreate c cp \<notin> set outs
     \<and> FOnProvisioned h d \<notin> set outs \<and> FOnError h e \<notin> set outs"
  by (induction outs) (auto elim!: workflow_out.elims)

lemma worker_connect_frame:
  "fleet_config (state_of (worker_connect env s)) = fleet_config s"
  "filter is_report (outs_of (worker_connect env s)) = []"
  "FDisconnect \<notin> set (outs_of (worker_connect env s))" "FDestroy c \<notin> set (outs_of (worker_connect env s))"
  "FOnProvisioned h d \<notin> set (outs_of (worker_connect env s))"
  by (auto simp: worker_connect_def Let_def outcome_simps split: option.split)

lemma call_handler_sel [outcome_simps]:
  "outs_of (call_handler outs answer s) = outs" "state_of (call_handler outs answer s) = s"
  "result_of (call_handler outs answer s) = (case thrown outs answer of None \<Rightarrow> Inr () | Some e \<Rightarrow> Inl (Raised e))"
  by (simp_all add: call_handler_def outcome_simps split: option.split)

lemma call_handler_then:
  "and_then (call_handler outs answer s) k = (case thrown outs answer of
     None \<Rightarrow> emit_then outs (k () s) | Some e \<Rightarrow> (Inl (Raised e), outs, s))"
  by (simp add: call_handler_def and_then_def outcome_simps emit_then_def split: option.split)

text \<open>The ways the worker can go once it is connected, or not, and when a handler throws.\<close>

lemma worker_cases:
  fixes s :: "'h fleet" and env :: fleet_env
  defines "r \<equiv> worker_connect env s"
  defines "p \<equiv> makeProvisioning env (state_of r)"
  obtains
    (no_client) stop where "result_of r = Inl stop" "worker_body env s = (Inl stop, outs_of r, state_of r)"
  | (no_connection) t where "result_of r = Inr ()" "\<not> fe_connected env"
      "t = (state_of r)\<lparr>m_provisioningData := (m_provisioningData (state_of r))\<lparr>m_isProvisioned := False\<rparr>\<rparr>"
      "thrown (on_error CannotConnect t) (fe_onErrorRefused env) = None"
      "worker_body env s = (Inr (), outs_of r @ on_error CannotConnect t @ [FDisconnect, FDestroy (m_mqttClientId t)], t)"
  | (refusal_threw) t e where "result_of r = Inr ()" "\<not> fe_connected env"
      "t = (state_of r)\<lparr>m_provisioningData := (m_provisioningData (state_of r))\<lparr>m_isProvisioned := False\<rparr>\<rparr>"
      "thrown (on_error CannotConnect t) (fe_onErrorRefused env) = Some e"
      "worker_body env s = (Inl (Raised e), outs_of r @ on_error CannotConnect t, t)"
  | (failed) stop where "result_of r = Inr ()" "fe_connected env" "result_of p = Inl stop"
      "worker_body env s = (Inl stop, outs_of r @ outs_of p, state_of p)"
  | (provisioned) t where "result_of r = Inr ()" "fe_connected env" "result_of p = Inr ()"
      "t = set_provisioned (state_of p)" "thrown (on_provisioned t) (fe_onProvisioned env) = None"
      "worker_body env s = (Inr (), outs_of r @ outs_of p @ on_provisioned t
         @ [FDisconnect, FDestroy (m_mqttClientId t)], t)"
  | (success_threw) t e where "result_of r = Inr ()" "fe_connected env" "result_of p = Inr ()"
      "t = set_provisioned (state_of p)" "thrown (on_provisioned t) (fe_onProvisioned env) = Some e"
      "worker_body env s = (Inl (Raised e), outs_of r @ outs_of p @ on_provisioned t, t)"
proof (cases "result_of r")
  case (Inl stop)
  with that(1) show ?thesis by (simp add: worker_body_def r_def and_then_def)
next
  case (Inr u)
  note ok = Inr
  show ?thesis
  proof (cases "fe_connected env")
    case False
    let ?t = "(state_of r)\<lparr>m_provisioningData := (m_provisioningData (state_of r))\<lparr>m_isProvisioned := False\<rparr>\<rparr>"
    have body: "worker_body env s = and_then r (\<lambda>_ _. and_then (call_handler (on_error CannotConnect ?t) (fe_onErrorRefused env) ?t)
        (\<lambda>_ s. emits [FDisconnect, FDestroy (m_mqttClientId s)] s))"
      using ok False by (simp add: worker_body_def r_def and_then_Inr Let_def)
    show ?thesis
    proof (cases "thrown (on_error CannotConnect ?t) (fe_onErrorRefused env)")
      case None
      with ok False that(2) [of ?t] show ?thesis by (simp add: body and_then_Inr call_handler_then emits_def emit_then_def)
    next
      case (Some e)
      with ok False that(3) [of ?t e] show ?thesis by (simp add: body and_then_Inr call_handler_then emit_then_def)
    qed
  next
    case True
    show ?thesis
    proof (cases "result_of p")
      case (Inl stop)
      with ok True that(4) show ?thesis by (simp add: worker_body_def r_def p_def and_then_def)
    next
      case (Inr v)
      let ?t = "set_provisioned (state_of p)"
      have body: "worker_body env s = and_then r (\<lambda>_ _. and_then p (\<lambda>_ _.
          and_then (call_handler (on_provisioned ?t) (fe_onProvisioned env) ?t)
          (\<lambda>_ s. emits [FDisconnect, FDestroy (m_mqttClientId s)] s)))"
        using ok Inr True by (simp add: worker_body_def r_def p_def and_then_assoc and_then_Inr Let_def)
      show ?thesis
      proof (cases "thrown (on_provisioned ?t) (fe_onProvisioned env)")
        case None
        with ok Inr True that(5) [of ?t] show ?thesis
          by (simp add: body and_then_Inr call_handler_then emits_def emit_then_def)
      next
        case (Some e)
        with ok Inr True that(6) [of ?t e] show ?thesis by (simp add: body and_then_Inr call_handler_then emit_then_def)
      qed
    qed
  qed
qed

lemma makeProvisioning_tame:
  assumes "r = worker_connect env s"
  shows "fleet_config (state_of (makeProvisioning env (state_of r))) = fleet_config s"
    and "list_all workflow_out (outs_of (makeProvisioning env (state_of r)))"
    and "m_mqttClientId (state_of (makeProvisioning env (state_of r))) = m_mqttClientId (state_of r)"
  using tame_makeProvisioning [of "state_of r" "state_of r" env] worker_connect_frame(1) [of env s] assms
  by (simp_all add: tame_def fleet_frame_def)

text \<open>What \<^verbatim>\<open>worker\<close> reports besides, by the result of its \<^verbatim>\<open>try\<close> block.\<close>

lemma fleet_worker_outs:
  "outs_of (fleet_worker env s) = outs_of (worker_body env s)
     @ (case result_of (worker_body env s) of Inl (Raised e) \<Rightarrow> on_error e (state_of (worker_body env s)) | _ \<Rightarrow> [])"
  "result_of (fleet_worker env s) = (case result_of (worker_body env s) of
     Inl (Raised e) \<Rightarrow> (case thrown (on_error e (state_of (worker_body env s))) (fe_onErrorCaught env) of
       None \<Rightarrow> Inr () | Some e' \<Rightarrow> Inl (Raised e'))
   | x \<Rightarrow> x)"
  by (auto simp: fleet_worker_def Let_def outcome_simps split: sum.split fleet_stop.split)

lemma handlers_of_config:
  assumes "fleet_config t = fleet_config s" and "m_onError s = Some h" and "m_onProvisioned s = Some g"
  shows "on_error e t = [FOnError h e]" and "on_provisioned t = [FOnProvisioned g (m_provisioningData t)]"
  using assms by (auto simp: fleet_config_def on_error_def on_provisioned_def)

lemma set_provisioned_config [simp]: "fleet_config (set_provisioned s) = fleet_config s"
  by (simp add: set_provisioned_def)

lemma worker_connect_outs:
  assumes "result_of (worker_connect env s) = Inr ()"
  obtains cp where "outs_of (worker_connect env s) = [FCreate (m_mqttClientId (state_of (worker_connect env s))) cp, FConnect]"
  using assms by (auto simp: worker_connect_def Let_def outcome_simps split: if_splits option.splits)

text \<open>The calls of a worker whose workflow failed after the connection.\<close>

lemma failed_worker:
  assumes "result_of (worker_connect env s) = Inr ()" and "fe_connected env" and "m_onError s = Some h"
    and "result_of (provisioning_try env (state_of (worker_connect env s))) = Inl (Raised reason)"
  obtains outs e where "outs_of (fleet_worker env s) = outs_of (worker_connect env s) @ outs @ [FOnError h e]"
    and "list_all workflow_out outs" and "e = SlicedException \<or> (\<exists>m. e = FromMqtt m)"
proof -
  let ?r = "worker_connect env s"
  let ?p = "makeProvisioning env (state_of ?r)"
  note prov = makeProvisioning_tame [OF refl, of env s]
  have unsub: "result_of (unsubscribe_all env ts t) = Inr () \<or>
      (\<exists>m. result_of (unsubscribe_all env ts t) = Inl (Raised (FromMqtt m)))" for ts and t :: "'a fleet"
    by (induction ts arbitrary: t)
       (auto simp: outcome_simps and_then_def split: option.split)
  have "makeProvisioning env (state_of ?r) = emit_then (outs_of (provisioning_try env (state_of ?r)))
        (cancel_provisioning env (state_of (provisioning_try env (state_of ?r))))"
    using assms(4) by (simp add: makeProvisioning_def Let_def)
  moreover have "\<exists>e. result_of (cancel_provisioning env t) = Inl (Raised e)
      \<and> (e = SlicedException \<or> (\<exists>m. e = FromMqtt m))" for t :: "'a fleet"
    using unsub [of "[topic1 t, topic2 t, topic3 t, topic4 t]" t]
    by (auto simp: cancel_provisioning_def and_then_def throws_def simp del: unsubscribe_all.simps)
  ultimately obtain e where e: "result_of ?p = Inl (Raised e)" "e = SlicedException \<or> (\<exists>m. e = FromMqtt m)"
    by (auto simp: outcome_simps)
  have body: "worker_body env s = (Inl (Raised e), outs_of ?r @ outs_of ?p, state_of ?p)"
    using assms(1,2) e(1) by (simp add: worker_body_def and_then_def)
  have "on_error e (state_of ?p) = [FOnError h e]"
    using prov(1) assms(3) by (simp add: on_error_def fleet_config_def)
  then have "outs_of (fleet_worker env s) = outs_of ?r @ outs_of ?p @ [FOnError h e]"
    by (simp add: fleet_worker_outs body)
  from that [OF this prov(2) e(2)] show ?thesis .
qed

text \<open>Where the handler for success is called in the calls of a worker, and what precedes it.\<close>

lemma success_silent:
  "FOnProvisioned g d \<notin> set (outs_of (worker_connect env s))"
  "FOnProvisioned g d \<notin> set (outs_of (makeProvisioning env (state_of (worker_connect env s))))"
  "FOnProvisioned g d \<notin> set (on_error e t)"
  using workflow_keeps_client [OF makeProvisioning_tame(2) [OF refl, of env s], of _ _ g d]
  by (auto simp: worker_connect_frame(5) on_error_def split: option.split)

lemma told_of_success:
  fixes s t :: "'h fleet" and env :: fleet_env
  defines "r \<equiv> worker_connect env s"
  defines "p \<equiv> makeProvisioning env (state_of r)"
  assumes calls: "before @ FOnProvisioned g d # after = outs_of r @ outs_of p @ on_provisioned t @ rest"
    and rest: "\<And>k x. FOnProvisioned k x \<notin> set rest"
    and t: "t = set_provisioned (state_of p)" and ok: "result_of p = Inr ()"
  shows "before = outs_of r @ outs_of p" and "after = rest" and "m_onProvisioned t = Some g"
    and "workflow_stored env s (set before)" and "m_isProvisioned d"
    and "cp_certificate (m_connectionPars d) = m_officialCertificatePemFileName s"
    and "cp_privateKey (m_connectionPars d) = m_officialPrivatePemFileName s"
proof -
  note silent = success_silent(1,2) [where env = env and s = s, folded r_def, folded p_def]
  have "FOnProvisioned g d \<in> set (outs_of r @ outs_of p @ on_provisioned t @ rest)"
    unfolding calls [symmetric] by simp
  with silent rest have told: "FOnProvisioned g d \<in> set (on_provisioned t)" by auto
  then have d: "d = m_provisioningData t" and one: "on_provisioned t = [FOnProvisioned g d]"
    and g: "m_onProvisioned t = Some g"
    by (cases "m_onProvisioned t"; simp add: on_provisioned_def)+
  have "before @ FOnProvisioned g d # after = (outs_of r @ outs_of p) @ FOnProvisioned g d # rest"
    using calls one by simp
  then show split: "before = outs_of r @ outs_of p" and "after = rest"
    using append_Cons_eq_iff [of "FOnProvisioned g d" "outs_of r @ outs_of p" rest before after] silent rest
    by auto
  show "m_onProvisioned t = Some g" by (rule g)
  have "workflow_stored env (state_of r) (set (outs_of p))"
    using makeProvisioning_stores [of env "state_of r"] ok by (simp add: achieves_def p_def)
  then have "workflow_stored env s (set (outs_of p))"
    unfolding r_def using workflow_stored_config [OF worker_connect_frame(1)] by blast
  then show "workflow_stored env s (set before)"
    unfolding split by (rule workflow_stored_mono) auto
  have "fleet_config (state_of p) = fleet_config s"
    unfolding p_def r_def by (rule makeProvisioning_tame(1)) (rule refl)
  then show "m_isProvisioned d" "cp_certificate (m_connectionPars d) = m_officialCertificatePemFileName s"
    "cp_privateKey (m_connectionPars d) = m_officialPrivatePemFileName s"
    by (simp_all add: d t set_provisioned_def provisioned_pars_def fleet_config_def official_files_def)
qed

section \<open>Directories, as a list\<close>

text \<open>The directories on the way to a path, parents first.\<close>

fun parents :: "string \<Rightarrow> string list \<Rightarrow> string list" where
  "parents dir [] = []"
| "parents dir (l # ls) = (dir @ l) # parents (dir @ l @ ''/'') ls"

lemma mkdir_loop_parents:
  "\<forall>d. myMkdir d = 0 \<Longrightarrow> mkdir_loop folder_exists myMkdir ls dir =
     (0, filter (\<lambda>d. \<not> folder_exists d) (parents dir (filter (\<lambda>l. l \<noteq> []) ls)))"
  by (induction ls arbitrary: dir) (simp_all add: Let_def)

section \<open>A concrete run\<close>

text \<open>A broker that accepts everything, and a new object.\<close>

definition env0 :: fleet_env where
  "env0 = \<lparr>fe_fileExists = (\<lambda>_. True), fe_canWrite = (\<lambda>_. True), fe_canRead = (\<lambda>_. True), fe_folderExists = (\<lambda>_. True),
     fe_mkdir = (\<lambda>_. 0), fe_parse = (\<lambda>m. Some (\<lambda>p. Some (JString p))),
     fe_render = (\<lambda>d. concat (map snd d)), fe_random = ''1'', fe_create = None, fe_connect = None,
     fe_connected = True, fe_keysAccepted = Answered True, fe_keysRejected = Answered True,
     fe_keysPublish = Answered True, fe_keysResponse = Accepted ''k'', fe_registerAccepted = Answered True,
     fe_registerRejected = Answered True, fe_registerPublish = Answered True,
     fe_registerResponse = Accepted ''r'', fe_unsubscribe = (\<lambda>_. None), fe_onProvisioned = HandlerReturns,
     fe_onErrorRefused = HandlerReturns, fe_onErrorCaught = HandlerReturns\<rparr>"

definition fleet0 :: "nat fleet" where
  "fleet0 = \<lparr>m_identity = \<lparr>m_topicRoot = ''t'', m_devStage = ''d'', m_vendor = ''v'', m_product = ''p'',
       m_serialNumber = ''1'', m_gwType = ''g''\<rparr>, m_appName = ''a'',
     m_provisioningData = \<lparr>m_isProvisioned = False, m_provisionedKey = [], m_connectionPars = default_ConnectionPars\<rparr>,
     m_onProvisioned = Some 1, m_onError = Some 2, m_instanceName = [], m_mqttClientId = [],
     m_brokerAddr = ''b'', m_templateName = ''m'', m_token = [], m_thingName = [], m_certificateId = [],
     m_bootstrapCertificatePemFileName = ''bc'', m_bootstrapPrivatePemFileName = ''bk'',
     m_officialCertStorePath = ''s'', m_officialCertificatesFileName = ''oc'',
     m_officialCertificatePemFileName = ''op'', m_officialPrivatePemFileName = ''ok'',
     m_officialProvisionFileName = ''of'', m_topicPrefix = [], topic1 = [], topic2 = [], topic3 = [], topic4 = []\<rparr>"

lemma and_then_returns: "and_then (returns a s) k = k a s"
  by (simp add: and_then_def returns_def)

text \<open>The run of the workflow against this broker returns.\<close>

lemma worker0_connects: "worker_connect env0 fleet0 = (Inr (), [FCreate ''_1'' (default_ConnectionPars\<lparr>
    cp_brokerAddress := ''b'', cp_certificate := ''bc'', cp_privateKey := ''bk''\<rparr>), FConnect],
    fleet0\<lparr>m_mqttClientId := ''_1''\<rparr>)"
  by (simp add: worker_connect_def env0_def fleet0_def emit_then_def returns_def Let_def)

lemma connected0: "fe_connected env0"
  by (simp add: env0_def)

lemma returning0: "fe_onProvisioned env0 = HandlerReturns" "fe_onErrorRefused env0 = HandlerReturns"
    "fe_onErrorCaught env0 = HandlerReturns"
  by (simp_all add: env0_def)

lemma keys0: "result_of (create_keys env0 s) = Inr ()"
  by (simp add: create_keys_steps env0_def fleet_call_def demand_def get_response_def keys_accepted_def
      parse_message_def from_json_def GET_JSON_AS_STR_def json_required_def of_c_str_def open_write_def outcome_simps Let_def)

lemma register0: "result_of (register_thing env0 s) = Inr ()"
  by (simp add: register_thing_steps env0_def fleet_call_def demand_def get_response_def register_accepted_def
      exploreProvisionFile_def open_write_def outcome_simps Let_def)

lemma unsubscribe0: "result_of (unsubscribe_all env0 ts s) = Inr ()"
  by (induction ts arbitrary: s) (simp_all add: env0_def outcome_simps)

lemma makeProvisioning0: "result_of (makeProvisioning env0 s) = Inr ()"
proof -
  have "result_of (provisioning_try env0 s) = Inr ()"
    by (simp add: and_then_def keys0 register0 unsubscribe0 del: unsubscribe_all.simps)
  then show ?thesis by (cases rule: makeProvisioning_cases [of env0 s]) simp_all
qed

lemma worker0: "result_of (fleet_worker env0 fleet0) = Inr ()"
  by (cases rule: worker_cases [of env0 fleet0])
     (auto simp: fleet_worker_outs worker0_connects makeProvisioning0 connected0 returning0 thrown_def)

section \<open>Properties\<close>

text \<open>The second report, after a handler that threw.\<close>

definition told_again :: "'h \<Rightarrow> handler_answer \<Rightarrow> 'h fleet_out list" where
  "told_again h answer = (case handler_exc answer of None \<Rightarrow> [] | Some e \<Rightarrow> [FOnError h e])"

lemma told_again_Some: "handler_exc answer = Some e \<Longrightarrow> told_again h answer = [FOnError h e]"
  by (simp add: told_again_def)

text \<open>
  C36: what a worker reports. With both handlers registered, a worker that comes to an end has called
  the handler for success first if its workflow returned, and the one for errors first otherwise.
  That is the only report, unless the handler throws out of a call in the \<^verbatim>\<open>try\<close> block (for success,
  or for a connection that was not made): then the handler for errors is called, once more, with
  what was thrown, so that after a successful workflow both handlers have been called.
\<close>

theorem fleet_reports_once:
  assumes "m_onError s = Some h" and "m_onProvisioned s = Some g"
    and "result_of (fleet_worker env s) \<noteq> Inl Blocks" and "\<forall>e. result_of (fleet_worker env s) \<noteq> Inl (HandlerThrew e)"
  shows "let r = worker_connect env s; p = makeProvisioning env (state_of r) in
    \<exists>first again. filter is_report (outs_of (fleet_worker env s)) = first # again
    \<and> (if result_of r = Inr () \<and> fe_connected env \<and> result_of p = Inr ()
       then \<exists>d. first = FOnProvisioned g d \<and> again = told_again h (fe_onProvisioned env)
       else \<exists>e. first = FOnError h e \<and> again = (if result_of r = Inr () \<and> \<not> fe_connected env
           then told_again h (fe_onErrorRefused env) else []))"
proof -
  let ?r = "worker_connect env s"
  note config = worker_connect_frame(1) [of env s]
  note prov = makeProvisioning_tame [OF refl, of env s]
  note quiet = worker_connect_frame(2) [of env s] workflow_no_report [OF prov(2)]
  show ?thesis
  proof (cases rule: worker_cases [of env s])
    case (no_client stop)
    with assms(3,4) obtain e where "stop = Raised e" by (cases stop) (auto simp: fleet_worker_outs)
    with no_client quiet handlers_of_config [OF config assms(1,2)] show ?thesis
      by (simp add: fleet_worker_outs)
  next
    case (no_connection t)
    then have "fleet_config t = fleet_config s" using config by simp
    note handlers = handlers_of_config [OF this assms(1,2)]
    with no_connection(4) have "told_again h (fe_onErrorRefused env) = []" by (simp add: thrown_def told_again_def)
    with no_connection quiet handlers show ?thesis by (simp add: fleet_worker_outs)
  next
    case (refusal_threw t e)
    then have "fleet_config t = fleet_config s" using config by simp
    note handlers = handlers_of_config [OF this assms(1,2)]
    with refusal_threw(4) have "told_again h (fe_onErrorRefused env) = [FOnError h e]"
      by (simp add: thrown_def told_again_def)
    with refusal_threw quiet handlers show ?thesis by (simp add: fleet_worker_outs)
  next
    case (failed stop)
    with assms(3,4) obtain e where "stop = Raised e" by (cases stop) (auto simp: fleet_worker_outs)
    with failed quiet handlers_of_config [OF prov(1) assms(1,2)] show ?thesis
      by (simp add: fleet_worker_outs)
  next
    case (provisioned t)
    then have "fleet_config t = fleet_config s" using prov(1) by simp
    note handlers = handlers_of_config [OF this assms(1,2)]
    with provisioned(5) have "told_again h (fe_onProvisioned env) = []" by (simp add: thrown_def told_again_def)
    with provisioned quiet handlers show ?thesis by (simp add: fleet_worker_outs)
  next
    case (success_threw t e)
    then have "fleet_config t = fleet_config s" using prov(1) by simp
    note handlers = handlers_of_config [OF this assms(1,2)]
    with success_threw(5) have "told_again h (fe_onProvisioned env) = [FOnError h e]"
      by (simp add: thrown_def told_again_def)
    with success_threw quiet handlers show ?thesis by (simp add: fleet_worker_outs)
  qed
qed

text \<open>A broker that accepts everything, and a handler for success that throws.\<close>

definition throwing_env :: fleet_env where
  "throwing_env = env0\<lparr>fe_onProvisioned := HandlerThrowsStd ''disk''\<rparr>"

lemma throwing_answers:
  "fe_onProvisioned throwing_env = HandlerThrowsStd ''disk''" "fe_onErrorRefused throwing_env = HandlerReturns"
  "fe_onErrorCaught throwing_env = HandlerReturns"
  by (simp_all add: throwing_env_def env0_def)

lemma throwing_runs:
  "result_of (worker_connect throwing_env fleet0) = Inr ()" "fe_connected throwing_env"
  "result_of (makeProvisioning throwing_env s) = Inr ()"
proof -
  show "result_of (worker_connect throwing_env fleet0) = Inr ()" and "fe_connected throwing_env"
    by (simp_all add: worker_connect_def throwing_env_def env0_def fleet0_def outcome_simps Let_def)
  have keys: "result_of (create_keys throwing_env s) = Inr ()" for s :: "'a fleet"
    by (simp add: create_keys_steps throwing_env_def env0_def fleet_call_def demand_def get_response_def keys_accepted_def
        parse_message_def from_json_def GET_JSON_AS_STR_def json_required_def of_c_str_def open_write_def outcome_simps Let_def)
  have register: "result_of (register_thing throwing_env s) = Inr ()" for s :: "'a fleet"
    by (simp add: register_thing_steps throwing_env_def env0_def fleet_call_def demand_def get_response_def register_accepted_def
        exploreProvisionFile_def open_write_def outcome_simps Let_def)
  have unsub: "result_of (unsubscribe_all throwing_env ts s) = Inr ()" for ts and s :: "'a fleet"
    by (induction ts arbitrary: s) (simp_all add: throwing_env_def env0_def outcome_simps)
  have "result_of (provisioning_try throwing_env s) = Inr ()"
    by (simp add: and_then_def keys register unsub del: unsubscribe_all.simps)
  then show "result_of (makeProvisioning throwing_env s) = Inr ()"
    by (cases rule: makeProvisioning_cases [of throwing_env s]) simp_all
qed

lemma throwing_returns: "result_of (fleet_worker throwing_env fleet0) = Inr ()"
  by (cases rule: worker_cases [of throwing_env fleet0])
     (auto simp: fleet_worker_outs throwing_runs thrown_def throwing_answers)

theorem fleet_reports_once_witness:
  "(\<exists>d. filter is_report (outs_of (fleet_worker throwing_env fleet0)) = [FOnProvisioned 1 d, FOnError 2 (FromHandler ''disk'')])
   \<and> (\<exists>d. filter is_report (outs_of (fleet_worker env0 fleet0)) = [FOnProvisioned 1 d])"
proof -
  have "told_again (2 :: nat) (fe_onProvisioned throwing_env) = [FOnError 2 (FromHandler ''disk'')]"
    "told_again (2 :: nat) (fe_onProvisioned env0) = []"
    by (simp_all add: told_again_def throwing_env_def env0_def)
  with fleet_reports_once [of fleet0 2 1 throwing_env] fleet_reports_once [of fleet0 2 1 env0]
  show ?thesis
    by (simp add: throwing_returns worker0 throwing_runs worker0_connects connected0 makeProvisioning0 Let_def)
       (auto simp: fleet0_def)
qed

text \<open>
  C35: who is told of success has the files. When the handler for success is called, both requests
  were accepted by the broker and the four official files have been written in this run: the answer
  to the first as it came, its member \<^verbatim>\<open>certificatePem\<close> and its member \<^verbatim>\<open>privateKey\<close> each in the file
  for it, and the answer to the second; the data passed say provisioned and name the files of the
  certificate and the key. After a handler that returns, the client that this run created is
  disconnected and destroyed; after one that throws, no client is.
\<close>

theorem fleet_success_means_stored:
  assumes "outs_of (fleet_worker env s) = before @ FOnProvisioned g d # after"
  shows "workflow_stored env s (set before) \<and> m_isProvisioned d
    \<and> cp_certificate (m_connectionPars d) = m_officialCertificatePemFileName s
    \<and> cp_privateKey (m_connectionPars d) = m_officialPrivatePemFileName s
    \<and> (if fe_onProvisioned env = HandlerReturns
       then \<exists>c cp. FCreate c cp \<in> set before \<and> after = [FDisconnect, FDestroy c]
       else \<forall>c. FDisconnect \<notin> set after \<and> FDestroy c \<notin> set after)"
proof -
  let ?r = "worker_connect env s"
  let ?p = "makeProvisioning env (state_of ?r)"
  note prov = makeProvisioning_tame [OF refl, of env s]
  note silent = success_silent(1,2) [where env = env and s = s] success_silent(3)
  have called: "FOnProvisioned g d \<in> set (outs_of (fleet_worker env s))" by (simp add: assms)
  show ?thesis
  proof (cases rule: worker_cases [of env s])
    case (no_client stop)
    with called show ?thesis by (auto simp: silent fleet_worker_outs split: fleet_stop.splits)
  next
    case (no_connection t)
    with called show ?thesis by (auto simp: silent fleet_worker_outs)
  next
    case (refusal_threw t e)
    with called show ?thesis by (auto simp: silent fleet_worker_outs)
  next
    case (failed stop)
    with called show ?thesis by (auto simp: silent fleet_worker_outs split: fleet_stop.splits)
  next
    case (provisioned t)
    have "m_mqttClientId t = m_mqttClientId (state_of ?r)"
      using prov(3) provisioned(4) by (simp add: set_provisioned_def)
    note id = this
    obtain cp where create: "FCreate (m_mqttClientId (state_of ?r)) cp \<in> set (outs_of ?r)"
      using worker_connect_outs [OF provisioned(1)] by (metis list.set_intros(1))
    have "before @ FOnProvisioned g d # after = outs_of ?r @ outs_of ?p @ on_provisioned t
        @ [FDisconnect, FDestroy (m_mqttClientId t)]"
      using provisioned(6) assms by (simp add: fleet_worker_outs)
    note told = told_of_success [OF this _ provisioned(4,3), simplified]
    have "fe_onProvisioned env = HandlerReturns"
      using provisioned(5) told(3) by (cases "fe_onProvisioned env") (simp_all add: thrown_def on_provisioned_def)
    moreover have "FCreate (m_mqttClientId t) cp \<in> set before" using told(1) create id by simp
    ultimately show ?thesis using told(2,4-7) by auto
  next
    case (success_threw t e)
    have "fe_onProvisioned env \<noteq> HandlerReturns" using success_threw(5) by (auto simp: thrown_def split: if_splits)
    moreover have "FDisconnect \<notin> set (on_error e t)" "FDestroy c \<notin> set (on_error e t)" for c
      by (auto simp: on_error_def split: option.splits)
    moreover have "before @ FOnProvisioned g d # after = outs_of ?r @ outs_of ?p @ on_provisioned t @ on_error e t"
      using success_threw(6) assms by (simp add: fleet_worker_outs)
    note told_of_success(2,4-7) [OF this success_silent(3) success_threw(4,3)]
    ultimately show ?thesis by auto
  qed
qed

theorem fleet_success_means_stored_witness:
  "{FWrite ''oc'' ''k'', FWrite ''op'' ''/certificatePem'', FWrite ''ok'' ''/privateKey'', FWrite ''of'' ''r''}
     \<subseteq> set (outs_of (fleet_worker env0 fleet0)) \<and> FDestroy ''_1'' \<in> set (outs_of (fleet_worker env0 fleet0))"
proof -
  obtain t :: "nat fleet" where t: "outs_of (fleet_worker env0 fleet0) = (outs_of (worker_connect env0 fleet0)
      @ outs_of (makeProvisioning env0 (state_of (worker_connect env0 fleet0)))) @ FOnProvisioned 1 (m_provisioningData t)
      # [FDisconnect, FDestroy (m_mqttClientId t)]"
  proof (cases rule: worker_cases [of env0 fleet0])
    case (provisioned t)
    then have "fleet_config t = fleet_config fleet0" using makeProvisioning_tame(1) [OF refl] by simp
    then have "on_provisioned t = [FOnProvisioned 1 (m_provisioningData t)]"
      by (rule handlers_of_config(2)) (simp_all add: fleet0_def)
    with provisioned that [of t] show ?thesis by (simp add: fleet_worker_outs)
  qed (auto simp: worker0_connects makeProvisioning0 connected0 thrown_def returning0 split: if_splits)
  note success = fleet_success_means_stored [OF t]
  then have "\<exists>c cp. FCreate c cp \<in> set (outs_of (worker_connect env0 fleet0)
      @ outs_of (makeProvisioning env0 (state_of (worker_connect env0 fleet0)))) \<and> m_mqttClientId t = c"
    by (simp add: returning0)
  then have "m_mqttClientId t = ''_1''"
    using workflow_keeps_client [OF makeProvisioning_tame(2) [OF refl, of env0 fleet0]]
    by (auto simp: worker0_connects)
  with success show ?thesis
    unfolding t workflow_stored_def keys_stored_def
    by (auto simp: env0_def fleet0_def GET_JSON_AS_STR_def json_required_def of_c_str_def)
qed

text \<open>
  A failed workflow leaves its client behind and hides its reason. When the workflow ends
  with an exception after the connection was made, the worker neither disconnects nor destroys
  the client it created, and the error reported is not the reason: it is a bare
  \<^verbatim>\<open>std::exception\<close>, or what an unsubscription threw meanwhile.
\<close>

theorem fleet_failure_keeps_client:
  assumes "result_of (worker_connect env s) = Inr ()" and "fe_connected env" and "m_onError s = Some h"
    and "result_of (provisioning_try env (state_of (worker_connect env s))) = Inl (Raised reason)"
  shows "FDisconnect \<notin> set (outs_of (fleet_worker env s)) \<and> FDestroy c \<notin> set (outs_of (fleet_worker env s))
    \<and> (\<exists>e. last (outs_of (fleet_worker env s)) = FOnError h e \<and> (e = SlicedException \<or> (\<exists>m. e = FromMqtt m)))"
proof -
  from failed_worker [OF assms] obtain outs e
    where outs: "outs_of (fleet_worker env s) = outs_of (worker_connect env s) @ outs @ [FOnError h e]"
      "list_all workflow_out outs" and e: "e = SlicedException \<or> (\<exists>m. e = FromMqtt m)" by blast
  have "FDisconnect \<notin> set (outs_of (worker_connect env s))" "FDestroy c \<notin> set (outs_of (worker_connect env s))"
    by (rule worker_connect_frame)+
  moreover have "FDisconnect \<notin> set outs" "FDestroy c \<notin> set outs"
    using workflow_keeps_client [OF outs(2)] by blast+
  ultimately show ?thesis using e by (auto simp: outs(1))
qed

theorem fleet_failure_keeps_client_witness:
  "FDestroy ''_1'' \<notin> set (outs_of (fleet_worker (env0\<lparr>fe_keysAccepted := Answered False\<rparr>) fleet0))"
proof -
  let ?env = "env0\<lparr>fe_keysAccepted := Answered False\<rparr>"
  have "result_of (worker_connect ?env fleet0) = Inr ()"
    by (simp add: worker_connect_def env0_def fleet0_def outcome_simps Let_def)
  moreover have "result_of (provisioning_try ?env (state_of (worker_connect ?env fleet0))) = Inl (Raised CannotSubscribe)"
  proof -
    have "result_of (create_keys ?env s) = Inl (Raised CannotSubscribe)" for s :: "nat fleet"
      by (simp add: create_keys_steps env0_def fleet_call_def demand_def and_then_returns outcome_simps Let_def)
    then show ?thesis by (simp add: and_then_def)
  qed
  ultimately show ?thesis
    using fleet_failure_keeps_client [of ?env fleet0 2 CannotSubscribe] by (simp add: fleet0_def env0_def)
qed

text \<open>
  Directories are made from the root down. When every \<^verbatim>\<open>mkdir\<close> of the system succeeds, the
  ones tried are exactly those on the way to the path that do not exist, parents first, whatever
  slashes the path has in excess.
\<close>

theorem mkdir_parents_first:
  assumes "\<forall>d. myMkdir d = 0"
  shows "mkdir folder_exists myMkdir path =
    (0, filter (\<lambda>d. \<not> folder_exists d)
       (parents (if path \<noteq> [] \<and> path ! 0 = CHR ''/'' then ''/'' else [])
          (filter (\<lambda>l. l \<noteq> []) (levels CHR ''/'' path))))"
  using mkdir_loop_parents [OF assms] by (simp add: mkdir_def)

theorem mkdir_parents_first_witness:
  "mkdir (\<lambda>d. d = ''/a'') (\<lambda>d. 0) ''/a//b/c/'' = (0, [''/a/b'', ''/a/b/c''])"
  using mkdir_parents_first [of "\<lambda>d. 0" "\<lambda>d. d = ''/a''" "''/a//b/c/''"] by simp

end
