(* ===== verification/Fleet_Component.thy ===== *)
theory Fleet_Component
  imports Fleet_Prov Step_Systems
begin

text \<open>
  \<^verbatim>\<open>src/AwsFleetProv/AwsFleetProv.cpp\<close>, the component around the worker: its thread and the
  flag that guards it, the mutex of the worker, the interfaces, and the calls of clients and of the
  framework between the steps of a worker. One client or framework thread makes the calls;
  \<^verbatim>\<open>launchProvisioning\<close> runs a worker on it or on a thread of its own. The three interfaces
  are mandatory; the framework attaches them before \<^verbatim>\<open>activate\<close>, and what the component reads of
  the identity provider and of the launch service is copied when they are attached.
\<close>

section \<open>Points of a worker\<close>

text \<open>
  A worker can be overtaken where it locks or releases \<^verbatim>\<open>m_workMtx\<close>: at its start, in the
  wait for the connection, and in the handlers of exceptions, which run after the lock is
  released. The two reports and the calls that follow them are steps of their own, since the
  handlers they read are set without a lock. \<open>FT_Blocked\<close> waits on a promise nobody fulfils,
  \<open>FT_Terminated\<close> is the end of the process, \<open>FT_Threw\<close> the end of a worker by an exception out of
  the handler its \<^verbatim>\<open>catch\<close> clause called.
\<close>

datatype fleet_pc =
    FT_None | FT_Connect fleet_env | FT_Wait fleet_env | FT_Provisioned fleet_env | FT_Refused fleet_env
  | FT_Disconnect | FT_Catch fleet_env fleet_exc | FT_Done | FT_Threw fleet_exc | FT_Blocked | FT_Terminated

text \<open>Where a part of the \<^verbatim>\<open>try\<close> block leads: on, or into the \<^verbatim>\<open>catch\<close> clauses.\<close>

definition proceed :: "fleet_env \<Rightarrow> 'h fleet_outcome \<Rightarrow> fleet_pc \<Rightarrow> 'h fleet_out list \<times> 'h fleet \<times> fleet_pc" where
  "proceed env r pc = (outs_of r, state_of r,
     case result_of r of Inr _ \<Rightarrow> pc | Inl (Raised e) \<Rightarrow> FT_Catch env e | Inl Blocks \<Rightarrow> FT_Blocked
     | Inl (HandlerThrew e) \<Rightarrow> FT_Terminated)"

text \<open>One step, with or without an MQTT service; a call of a service that is not there is the end.\<close>

fun pc_step :: "bool \<Rightarrow> fleet_pc \<Rightarrow> 'h fleet \<Rightarrow> ('h fleet_out list \<times> 'h fleet \<times> fleet_pc) option" where
  "pc_step has_mqtt (FT_Connect env) s = (let r = worker_connect env s in
     Some (if has_mqtt \<or> outs_of r = [] then proceed env r (FT_Wait env) else ([], state_of r, FT_Terminated)))"
| "pc_step has_mqtt (FT_Wait env) s = Some
     (if \<not> fe_connected env then ([], s, FT_Refused env)
      else if has_mqtt then proceed env (makeProvisioning env s) (FT_Provisioned env) else ([], s, FT_Terminated))"
| "pc_step has_mqtt (FT_Provisioned env) s = (let s = set_provisioned s in
     Some (proceed env (call_handler (on_provisioned s) (fe_onProvisioned env) s) FT_Disconnect))"
| "pc_step has_mqtt (FT_Refused env) s =
     (let s = s\<lparr>m_provisioningData := (m_provisioningData s)\<lparr>m_isProvisioned := False\<rparr>\<rparr> in
      Some (proceed env (call_handler (on_error CannotConnect s) (fe_onErrorRefused env) s) FT_Disconnect))"
| "pc_step has_mqtt FT_Disconnect s = Some
     (if has_mqtt then ([FDisconnect, FDestroy (m_mqttClientId s)], s, FT_Done) else ([], s, FT_Terminated))"
| "pc_step has_mqtt (FT_Catch env e) s = Some (on_error e s, s,
     case thrown (on_error e s) (fe_onErrorCaught env) of None \<Rightarrow> FT_Done | Some e' \<Rightarrow> FT_Threw e')"
| "pc_step has_mqtt pc s = None"

fun takes_mutex :: "fleet_pc \<Rightarrow> bool" where
  "takes_mutex (FT_Connect env) = True"
| "takes_mutex (FT_Wait env) = True"
| "takes_mutex _ = False"

fun holds_mutex :: "fleet_pc \<Rightarrow> bool" where
  "holds_mutex (FT_Provisioned env) = True"
| "holds_mutex (FT_Refused env) = True"
| "holds_mutex FT_Disconnect = True"
| "holds_mutex FT_Blocked = True"
| "holds_mutex _ = False"

section \<open>State\<close>

text \<open>What the calling thread is doing: nothing, waiting in a join, or running a worker itself.\<close>

datatype fleet_caller = FC_Idle | FC_LaunchJoin fleet_env | FC_DeactivateJoin | FC_Here fleet_pc

record 'h fleet_component =
  fc_imp :: "'h fleet"
  m_iIdentityProvider :: "nat option"
  m_iMqttService :: "nat option"
  m_iLaunchService :: "nat option"
  m_runThreadFlag :: bool
  m_runThread :: fleet_pc
  fc_caller :: fleet_caller

definition fleet_component0 :: "'h fleet \<Rightarrow> 'h fleet_component" where
  "fleet_component0 s = \<lparr>fc_imp = s, m_iIdentityProvider = None, m_iMqttService = None, m_iLaunchService = None,
     m_runThreadFlag = False, m_runThread = FT_None, fc_caller = FC_Idle\<rparr>"

text \<open>
  Why a call does not happen now: the calling thread or a worker waits, an interface is missing,
  or the call passes on an exception, after it has changed the state.
\<close>

datatype fleet_pause = Waits | NoInterface | Passes fleet_exc

type_synonym 'h fc_outcome = "(fleet_pause, unit, 'h fleet_out, 'h fleet_component) outcome"

section \<open>Interfaces\<close>

text \<open>The overloads of \<^verbatim>\<open>attachInterface\<close>, with what the component reads of the interface.\<close>

datatype fleet_interface =
    IdentityProvider nat identity_params
  | MqttService nat
  | LaunchService nat string

fun fc_attach :: "fleet_interface \<Rightarrow> 'h fleet_component \<Rightarrow> 'h fleet_component" where
  "fc_attach (IdentityProvider iface params) c =
     c\<lparr>m_iIdentityProvider := Some iface, fc_imp := (fc_imp c)\<lparr>m_identity := params\<rparr>\<rparr>"
| "fc_attach (MqttService iface) c = c\<lparr>m_iMqttService := Some iface\<rparr>"
| "fc_attach (LaunchService iface appName) c =
     c\<lparr>m_iLaunchService := Some iface, fc_imp := (fc_imp c)\<lparr>m_appName := appName\<rparr>\<rparr>"

fun fc_detach :: "fleet_interface \<Rightarrow> 'h fleet_component \<Rightarrow> 'h fleet_component" where
  "fc_detach (IdentityProvider iface _) c =
     (if m_iIdentityProvider c = Some iface then c\<lparr>m_iIdentityProvider := None\<rparr> else c)"
| "fc_detach (MqttService iface) c = (if m_iMqttService c = Some iface then c\<lparr>m_iMqttService := None\<rparr> else c)"
| "fc_detach (LaunchService iface _) c =
     (if m_iLaunchService c = Some iface then c\<lparr>m_iLaunchService := None\<rparr> else c)"

section \<open>Calls\<close>

definition fc_activate ::
  "(string \<Rightarrow> string option) \<Rightarrow> string \<Rightarrow> string \<Rightarrow> fleet_env \<Rightarrow> 'h fleet_component \<Rightarrow> 'h fc_outcome"
where
  "fc_activate doc dataDir content env c =
     (if fc_caller c \<noteq> FC_Idle then throws Waits c
      else case m_iLaunchService c of None \<Rightarrow> throws NoInterface c
      | Some _ \<Rightarrow> (let r = fleet_activate doc dataDir content env (fc_imp c) in
          (case result_of r of Inl e \<Rightarrow> Inl (Passes e) | Inr _ \<Rightarrow> Inr (), outs_of r, c\<lparr>fc_imp := state_of r\<rparr>)))"

text \<open>
  The handlers are set first; a worker thread that was started is then waited for, by
  \<open>fc_join\<close>, before the next one is.
\<close>

definition fc_launch :: "'h option \<Rightarrow> 'h option \<Rightarrow> bool \<Rightarrow> fleet_env \<Rightarrow> 'h fleet_component \<Rightarrow> 'h fc_outcome" where
  "fc_launch onProvisioned onError inThread env c =
     (if fc_caller c \<noteq> FC_Idle then throws Waits c
      else let c = c\<lparr>fc_imp := (fc_imp c)\<lparr>m_onProvisioned := onProvisioned, m_onError := onError\<rparr>\<rparr> in
        returns () (if \<not> inThread then c\<lparr>fc_caller := FC_Here (FT_Connect env)\<rparr>
          else if m_runThreadFlag c then c\<lparr>m_runThreadFlag := False, fc_caller := FC_LaunchJoin env\<rparr>
          else c\<lparr>m_runThreadFlag := True, m_runThread := FT_Connect env\<rparr>))"

definition fc_deactivate :: "'h fleet_component \<Rightarrow> 'h fc_outcome" where
  "fc_deactivate c =
     (if fc_caller c \<noteq> FC_Idle then throws Waits c
      else let r = fleet_deactivate (m_iMqttService c \<noteq> None) (fc_imp c) in
        emits (outs_of r) (c\<lparr>fc_imp := state_of r, m_runThreadFlag := False, fc_caller := FC_DeactivateJoin\<rparr>))"

text \<open>The join returns: the worker thread has ended, or was never started.\<close>

definition fc_join :: "'h fleet_component \<Rightarrow> 'h fc_outcome" where
  "fc_join c = (if m_runThread c \<noteq> FT_None \<and> m_runThread c \<noteq> FT_Done then throws Waits c
     else case fc_caller c of
       FC_LaunchJoin env \<Rightarrow> returns () (c\<lparr>m_runThreadFlag := True, m_runThread := FT_Connect env, fc_caller := FC_Idle\<rparr>)
     | FC_DeactivateJoin \<Rightarrow> returns () (c\<lparr>m_runThread := FT_None, fc_caller := FC_Idle\<rparr>)
     | _ \<Rightarrow> throws Waits c)"

text \<open>A step of a worker: of the thread, or of the calling thread in \<^verbatim>\<open>launchProvisioning\<close>.\<close>

definition caller_pc :: "'h fleet_component \<Rightarrow> fleet_pc" where
  "caller_pc c = (case fc_caller c of FC_Here pc \<Rightarrow> pc | _ \<Rightarrow> FT_None)"

definition work ::
  "fleet_pc \<Rightarrow> fleet_pc \<Rightarrow> (fleet_pc \<Rightarrow> 'h fleet_component \<Rightarrow> 'h fc_outcome) \<Rightarrow> 'h fleet_component \<Rightarrow> 'h fc_outcome"
where
  "work pc other next_pc c =
     (if takes_mutex pc \<and> holds_mutex other then throws Waits c
      else case pc_step (m_iMqttService c \<noteq> None) pc (fc_imp c) of
        None \<Rightarrow> throws Waits c
      | Some (outs, s, pc') \<Rightarrow> emit_then outs (next_pc pc' (c\<lparr>fc_imp := s\<rparr>)))"

text \<open>
  An exception that leaves \<^verbatim>\<open>worker\<close> ends the process when it leaves the function of the thread; out of
  a worker on the calling thread it leaves \<^verbatim>\<open>launchProvisioning\<close>.
\<close>

definition thread_at :: "fleet_pc \<Rightarrow> fleet_pc" where
  "thread_at pc = (case pc of FT_Threw e \<Rightarrow> FT_Terminated | _ \<Rightarrow> pc)"

definition thread_next :: "fleet_pc \<Rightarrow> 'h fleet_component \<Rightarrow> 'h fc_outcome" where
  "thread_next pc c = returns () (c\<lparr>m_runThread := thread_at pc\<rparr>)"

definition caller_next :: "fleet_pc \<Rightarrow> 'h fleet_component \<Rightarrow> 'h fc_outcome" where
  "caller_next pc c = (case pc of
       FT_Done \<Rightarrow> returns () (c\<lparr>fc_caller := FC_Idle\<rparr>)
     | FT_Threw e \<Rightarrow> throws (Passes e) (c\<lparr>fc_caller := FC_Idle\<rparr>)
     | _ \<Rightarrow> returns () (c\<lparr>fc_caller := FC_Here pc\<rparr>))"

definition thread_works :: "'h fleet_component \<Rightarrow> 'h fc_outcome" where
  "thread_works c = work (m_runThread c) (caller_pc c) thread_next c"

definition caller_works :: "'h fleet_component \<Rightarrow> 'h fc_outcome" where
  "caller_works c = work (caller_pc c) (m_runThread c) caller_next c"

datatype 'h fc_event =
    AttachInterface fleet_interface
  | DetachInterface fleet_interface
  | ActivateFleet "string \<Rightarrow> string option" string string fleet_env
  | DeactivateFleet
  | Launch "'h option" "'h option" bool fleet_env
  | UnregisterHandlers
  | JoinReturns
  | ThreadWorks
  | CallerWorks

fun fc_step :: "'h fleet_component \<Rightarrow> 'h fc_event \<Rightarrow> 'h fc_outcome" where
  "fc_step c (AttachInterface iface) = returns () (fc_attach iface c)"
| "fc_step c (DetachInterface iface) = returns () (fc_detach iface c)"
| "fc_step c (ActivateFleet doc dataDir content env) = fc_activate doc dataDir content env c"
| "fc_step c DeactivateFleet = fc_deactivate c"
| "fc_step c (Launch f g inThread env) = fc_launch f g inThread env c"
| "fc_step c UnregisterHandlers = returns () (c\<lparr>fc_imp := unregisterProvisioningHandlers (fc_imp c)\<rparr>)"
| "fc_step c JoinReturns = fc_join c"
| "fc_step c ThreadWorks = thread_works c"
| "fc_step c CallerWorks = caller_works c"

section \<open>What the steps leave alone\<close>

lemma proceed_sel:
  "fst (proceed env r pc) = outs_of r" "fst (snd (proceed env r pc)) = state_of r"
  by (simp_all add: proceed_def)

text \<open>A step of a worker keeps the handlers, and its reports go to them.\<close>

definition reports_to :: "'h fleet \<Rightarrow> 'h fleet_out \<Rightarrow> bool" where
  "reports_to s out = (case out of FOnProvisioned h d \<Rightarrow> m_onProvisioned s = Some h
     | FOnError h e \<Rightarrow> m_onError s = Some h | _ \<Rightarrow> True)"

lemma workflow_out_reports_to: "workflow_out out \<Longrightarrow> reports_to s out"
  by (cases out) (simp_all add: reports_to_def)

lemma workflow_reports_to: "list_all workflow_out outs \<Longrightarrow> list_all (reports_to s) outs"
  by (auto simp: list_all_iff workflow_out_reports_to)

lemma connect_reports_to: "list_all (reports_to s) (outs_of (worker_connect env t))"
  by (auto simp: worker_connect_def Let_def outcome_simps reports_to_def split: option.split)

lemma reports_reports_to:
  "list_all (reports_to s) (on_error e s)" "list_all (reports_to s) (on_provisioned s)"
  by (auto simp: reports_to_def on_error_def on_provisioned_def split: option.split)

lemma reports_to_config: "fleet_config t = fleet_config s \<Longrightarrow> reports_to t = reports_to s"
  by (auto simp: fun_eq_iff reports_to_def fleet_config_def split: fleet_out.split)

lemma provisioning_tame: "fleet_config (state_of (makeProvisioning env s)) = fleet_config s"
    "list_all workflow_out (outs_of (makeProvisioning env s))"
  using tame_makeProvisioning [of s s env] by (simp_all add: tame_def fleet_frame_def)

lemma pc_step_handlers:
  assumes "pc_step b pc s = Some (outs, t, pc')"
  shows "fleet_config t = fleet_config s" and "list_all (reports_to s) outs"
proof -
  have "fleet_config t = fleet_config s \<and> list_all (reports_to s) outs"
  proof (cases pc)
    case (FT_Provisioned env)
    with assms reports_reports_to(2) [of "set_provisioned s"] reports_to_config [of "set_provisioned s" s]
    show ?thesis by (auto simp: proceed_def outcome_simps Let_def)
  next
    case (FT_Refused env)
    let ?s = "s\<lparr>m_provisioningData := (m_provisioningData s)\<lparr>m_isProvisioned := False\<rparr>\<rparr>"
    from assms FT_Refused reports_reports_to(1) [of ?s CannotConnect] reports_to_config [of ?s s] show ?thesis
      by (auto simp: proceed_def outcome_simps Let_def)
  qed (use assms in \<open>auto simp: proceed_def Let_def provisioning_tame worker_connect_frame workflow_reports_to
      connect_reports_to reports_reports_to reports_to_def split: if_splits\<close>)
  then show "fleet_config t = fleet_config s" and "list_all (reports_to s) outs" by simp_all
qed

text \<open>\<^verbatim>\<open>activate\<close> keeps the handlers too, and reports nothing.\<close>

lemma fleet_activate_handlers:
  "m_onProvisioned (state_of (fleet_activate doc dataDir content env s)) = m_onProvisioned s"
  "m_onError (state_of (fleet_activate doc dataDir content env s)) = m_onError s"
  "list_all workflow_out (outs_of (fleet_activate doc dataDir content env s))"
proof -
  let ?s = "fleet_paths dataDir (fleet_modify doc s)"
  have handlers: "m_onProvisioned ?s = m_onProvisioned s" "m_onError ?s = m_onError s"
    by (simp_all add: fleet_paths_def fleet_modify_def Let_def)
  have "tame (set_provisioned ?s) (exploreProvisionFile env content (set_provisioned ?s))"
    by (rule tame_calls(7)) simp
  then show "m_onProvisioned (state_of (fleet_activate doc dataDir content env s)) = m_onProvisioned s"
    and "m_onError (state_of (fleet_activate doc dataDir content env s)) = m_onError s"
    and "list_all workflow_out (outs_of (fleet_activate doc dataDir content env s))"
    using handlers by (auto simp: fleet_activate_def tame_def fleet_frame_def fleet_config_def set_provisioned_def
        forget_provisioning_def outcome_simps Let_def)
qed

section \<open>Contracts of the calls\<close>

text \<open>Handlers that are not named any more are not called any more.\<close>

fun launches_with :: "'h \<Rightarrow> 'h fc_event \<Rightarrow> bool" where
  "launches_with h (Launch f g inThread env) = (f = Some h \<or> g = Some h)"
| "launches_with h _ = False"

definition forgotten :: "'h \<Rightarrow> 'h fleet_component \<Rightarrow> bool" where
  "forgotten h c = (m_onProvisioned (fc_imp c) \<noteq> Some h \<and> m_onError (fc_imp c) \<noteq> Some h)"

definition is_report_to :: "'h \<Rightarrow> 'h fleet_out \<Rightarrow> bool" where
  "is_report_to h out = (case out of FOnProvisioned g d \<Rightarrow> g = h | FOnError g e \<Rightarrow> g = h | _ \<Rightarrow> False)"

lemma reports_elsewhere:
  "list_all (reports_to s) outs \<Longrightarrow> m_onProvisioned s \<noteq> Some h \<Longrightarrow> m_onError s \<noteq> Some h
   \<Longrightarrow> list_all (\<lambda>out. \<not> is_report_to h out) outs"
  by (auto simp: list_all_iff reports_to_def is_report_to_def split: fleet_out.splits)

lemma workflow_elsewhere: "list_all workflow_out outs \<Longrightarrow> list_all (\<lambda>out. \<not> is_report_to h out) outs"
  by (auto simp: list_all_iff is_report_to_def split: fleet_out.split)

lemma calls_no_report [simp]:
  "\<not> is_report_to h FUnregisterMessageStr" "\<not> is_report_to h FUnregisterOnConnect" "\<not> is_report_to h FDisconnect"
  by (simp_all add: is_report_to_def)

lemma forgotten_config:
  "fleet_config t = fleet_config (fc_imp c) \<Longrightarrow> forgotten h (d\<lparr>fc_imp := t\<rparr>) = forgotten h c"
  by (simp add: forgotten_def fleet_config_def)

text \<open>Where a step leaves the calling thread.\<close>

definition here :: "fleet_pc \<Rightarrow> fleet_caller" where
  "here pc = (case pc of FT_Done \<Rightarrow> FC_Idle | FT_Threw e \<Rightarrow> FC_Idle | _ \<Rightarrow> FC_Here pc)"

lemma next_sel [simp]:
  "outs_of (thread_next pc c) = []" "outs_of (caller_next pc c) = []"
  "state_of (thread_next pc c) = c\<lparr>m_runThread := thread_at pc\<rparr>" "state_of (caller_next pc c) = c\<lparr>fc_caller := here pc\<rparr>"
  by (simp_all add: thread_next_def caller_next_def here_def outcome_simps split: fleet_pc.split)

lemma here_no_join:
  "here pc = FC_Idle \<or> here pc = FC_Here pc"
  by (simp add: here_def split: fleet_pc.split)

lemma work_forgotten:
  assumes "forgotten h c"
    and "\<And>pc d. outs_of (next_pc pc d) = [] \<and> fc_imp (state_of (next_pc pc d)) = fc_imp d"
  shows "forgotten h (state_of (work pc other next_pc c))"
    and "list_all (\<lambda>out. \<not> is_report_to h out) (outs_of (work pc other next_pc c))"
proof -
  have "forgotten h (state_of (work pc other next_pc c))
      \<and> list_all (\<lambda>out. \<not> is_report_to h out) (outs_of (work pc other next_pc c))"
  proof (cases "pc_step (m_iMqttService c \<noteq> None) pc (fc_imp c)")
    case None
    with assms show ?thesis by (simp add: work_def outcome_simps)
  next
    case (Some r)
    obtain outs t pc' where r: "r = (outs, t, pc')" by (cases r) auto
    note keeps = pc_step_handlers [OF Some [unfolded r]]
    from reports_elsewhere [OF keeps(2)] assms(1) have "list_all (\<lambda>out. \<not> is_report_to h out) outs"
      by (simp add: forgotten_def)
    with Some r assms keeps(1) show ?thesis
      by (simp add: work_def outcome_simps) (simp add: forgotten_def fleet_config_def)
  qed
  then show "forgotten h (state_of (work pc other next_pc c))"
    and "list_all (\<lambda>out. \<not> is_report_to h out) (outs_of (work pc other next_pc c))" by simp_all
qed

lemma join_forgotten: "forgotten h (state_of (fc_join c)) = forgotten h c" "outs_of (fc_join c) = []"
  by (auto simp: fc_join_def forgotten_def outcome_simps split: fleet_caller.split)

lemma activate_forgotten:
  "forgotten h (state_of (fc_activate doc dataDir content env c)) = forgotten h c"
  "list_all workflow_out (outs_of (fc_activate doc dataDir content env c))"
  by (auto simp: fc_activate_def forgotten_def fleet_activate_handlers outcome_simps Let_def split: option.split)

lemma interface_forgotten:
  "forgotten h (fc_attach iface c) = forgotten h c" "forgotten h (fc_detach iface c) = forgotten h c"
  by (cases iface; simp add: forgotten_def)+

interpretation superseded: observed_sequence fc_step "\<lambda>c. \<not> launches_with h c" "forgotten h"
    "\<lambda>out. \<not> is_report_to h out" for h :: 'h
proof unfold_locales
  fix s :: "'h fleet_component" and c
  assume forgotten: "forgotten h s" and c: "\<not> launches_with h c"
  then show "forgotten h (state_of (fc_step s c))"
    by (cases c)
       (simp_all add: thread_works_def caller_works_def work_forgotten join_forgotten activate_forgotten
          interface_forgotten outcome_simps,
        simp_all add: forgotten_def fc_launch_def fc_deactivate_def fleet_deactivate_def
          unregisterProvisioningHandlers_def outcome_simps Let_def)
  show "list_all (\<lambda>out. \<not> is_report_to h out) (outs_of (fc_step s c))"
    using forgotten by (cases c)
      (simp_all add: thread_works_def caller_works_def work_forgotten join_forgotten workflow_elsewhere
         activate_forgotten fc_launch_def fc_deactivate_def fleet_deactivate_def outcome_simps Let_def)
qed

text \<open>A worker thread that waits for good, and a call that waits for it.\<close>

definition hung :: "'h fleet_component \<Rightarrow> bool" where
  "hung c \<longleftrightarrow> m_runThread c = FT_Blocked
     \<and> (case fc_caller c of FC_LaunchJoin env \<Rightarrow> True | FC_DeactivateJoin \<Rightarrow> True | _ \<Rightarrow> False)"

lemma hung_waits:
  "hung c \<Longrightarrow> fc_caller c \<noteq> FC_Idle" "hung c \<Longrightarrow> caller_pc c = FT_None" "hung c \<Longrightarrow> m_runThread c = FT_Blocked"
  by (auto simp: hung_def caller_pc_def split: fleet_caller.splits)

lemma hung_updates [simp]: "hung (c\<lparr>fc_imp := s\<rparr>) = hung c"
  by (simp add: hung_def)

lemma interface_hung: "hung (fc_attach iface c) = hung c" "hung (fc_detach iface c) = hung c"
  by (cases iface; simp add: hung_def)+

lemmas pause_defs = fc_activate_def fc_launch_def fc_deactivate_def fc_join_def thread_works_def
  caller_works_def work_def

interpretation stuck: observed_sequence fc_step "\<lambda>_. True" hung "\<lambda>_. False"
proof unfold_locales
  fix s :: "'h fleet_component" and c
  assume hung: "hung s"
  then show "hung (state_of (fc_step s c))"
    by (cases c) (simp_all add: pause_defs hung_waits interface_hung outcome_simps)
  from hung show "list_all (\<lambda>_. False) (outs_of (fc_step s c))"
    by (cases c) (simp_all add: pause_defs hung_waits outcome_simps)
qed

text \<open>Between the calls the flag says whether there is a worker thread to wait for.\<close>

definition flag_guards :: "'h fleet_component \<Rightarrow> bool" where
  "flag_guards c \<longleftrightarrow> m_runThreadFlag c \<or> m_runThread c = FT_None
     \<or> (case fc_caller c of FC_LaunchJoin env \<Rightarrow> True | FC_DeactivateJoin \<Rightarrow> True | _ \<Rightarrow> False)"

lemma interface_guards: "flag_guards (fc_attach iface c) = flag_guards c" "flag_guards (fc_detach iface c) = flag_guards c"
  by (cases iface; simp add: flag_guards_def)+

lemma work_guards:
  "flag_guards c \<Longrightarrow> flag_guards (state_of (thread_works c))"
  "flag_guards c \<Longrightarrow> flag_guards (state_of (caller_works c))"
  using here_no_join
  by (fastforce simp: thread_works_def caller_works_def work_def flag_guards_def caller_pc_def outcome_simps
      split: option.split fleet_caller.splits)+

interpretation guarded: call_sequence fc_step "\<lambda>_. True" flag_guards
proof unfold_locales
  fix s :: "'h fleet_component" and c
  assume "flag_guards s"
  then show "flag_guards (state_of (fc_step s c))"
    by (cases c)
       (simp_all add: work_guards interface_guards outcome_simps,
        auto simp: flag_guards_def fc_activate_def fc_launch_def fc_deactivate_def fc_join_def outcome_simps Let_def
          split: option.split fleet_caller.split)
qed

section \<open>The steps of a worker, put together\<close>

fun pc_run :: "nat \<Rightarrow> fleet_pc \<Rightarrow> 'h fleet \<Rightarrow> 'h fleet_out list \<times> 'h fleet \<times> fleet_pc" where
  "pc_run 0 pc s = ([], s, pc)"
| "pc_run (Suc n) pc s = (case pc_step True pc s of None \<Rightarrow> ([], s, pc)
     | Some (outs, t, pc') \<Rightarrow> (outs @ fst (pc_run n pc' t), snd (pc_run n pc' t)))"

fun end_of :: "fleet_stop + unit \<Rightarrow> fleet_pc" where
  "end_of (Inr u) = FT_Done"
| "end_of (Inl (Raised e)) = FT_Threw e"
| "end_of (Inl Blocks) = FT_Blocked"
| "end_of (Inl (HandlerThrew e)) = FT_Terminated"

lemma pc_run_ended:
  "pc = FT_Done \<or> pc = FT_Threw e \<or> pc = FT_Blocked \<or> pc = FT_Terminated \<Longrightarrow> pc_run n pc s = ([], s, pc)"
  by (cases n) auto

lemma fleet_worker_state: "state_of (fleet_worker env s) = state_of (worker_body env s)"
  by (auto simp: fleet_worker_def Let_def outcome_simps split: sum.split fleet_stop.split)

lemma pc_run_worker:
  "pc_run 4 (FT_Connect env) s =
     (outs_of (fleet_worker env s), state_of (fleet_worker env s), end_of (result_of (fleet_worker env s)))"
proof (cases rule: worker_cases [of env s])
  case (no_client stop)
  then show ?thesis
    by (cases stop) (simp_all add: fleet_worker_outs fleet_worker_state proceed_def numeral_eq_Suc pc_run_ended Let_def
        split: option.split)
next
  case (failed stop)
  then show ?thesis
    by (cases stop) (simp_all add: fleet_worker_outs fleet_worker_state proceed_def numeral_eq_Suc pc_run_ended Let_def
        split: option.split)
qed (simp_all add: fleet_worker_outs fleet_worker_state proceed_def outcome_simps numeral_eq_Suc Let_def split: option.split)

text \<open>Four steps of the thread, or of the calling thread, that nothing comes between.\<close>

lemma thread_at_run: "thread_at (snd (snd (pc_run n (thread_at pc) s))) = thread_at (snd (snd (pc_run n pc s)))
    \<and> fst (pc_run n (thread_at pc) s) = fst (pc_run n pc s) \<and> fst (snd (pc_run n (thread_at pc) s)) = fst (snd (pc_run n pc s))"
  by (cases pc) (simp_all add: thread_at_def pc_run_ended)

lemma thread_runs:
  assumes "m_iMqttService c \<noteq> None" and "\<not> holds_mutex (caller_pc c)" and "m_runThread c = thread_at pc"
  shows "run_outs fc_step c (replicate n ThreadWorks) = fst (pc_run n pc (fc_imp c))
    \<and> run_calls fc_step c (replicate n ThreadWorks)
        = c\<lparr>fc_imp := fst (snd (pc_run n pc (fc_imp c))), m_runThread := thread_at (snd (snd (pc_run n pc (fc_imp c))))\<rparr>"
  using assms
proof (induction n arbitrary: c pc)
  case (Suc n)
  have pc: "pc_step b (thread_at pc) s = pc_step b pc s" for b s
    by (cases pc) (simp_all add: thread_at_def)
  show ?case
  proof (cases "pc_step True pc (fc_imp c)")
    case None
    have "run_outs fc_step c (replicate k ThreadWorks) = [] \<and> run_calls fc_step c (replicate k ThreadWorks) = c" for k
      using None Suc.prems by (induction k) (simp_all add: thread_works_def work_def pc outcome_simps)
    with None Suc.prems show ?thesis by (simp del: replicate_Suc)
  next
    case (Some r)
    obtain outs t pc' where r: "r = (outs, t, pc')" by (cases r) auto
    let ?d = "c\<lparr>fc_imp := t, m_runThread := thread_at pc'\<rparr>"
    from Suc.IH [of ?d pc'] Suc.prems Some r show ?thesis
      by (simp add: thread_works_def work_def thread_next_def pc caller_pc_def outcome_simps)
  qed
qed simp

lemma caller_runs:
  assumes "m_iMqttService c \<noteq> None" and "\<not> holds_mutex (m_runThread c)" and "fc_caller c = here pc"
  shows "run_outs fc_step c (replicate n CallerWorks) = fst (pc_run n pc (fc_imp c))
    \<and> run_calls fc_step c (replicate n CallerWorks)
        = c\<lparr>fc_imp := fst (snd (pc_run n pc (fc_imp c))), fc_caller := here (snd (snd (pc_run n pc (fc_imp c))))\<rparr>"
  using assms
proof (induction n arbitrary: c pc)
  case (Suc n)
  have pc: "pc_step b (caller_pc c) s = pc_step b pc s" for b s
    using Suc.prems(3) by (cases pc) (simp_all add: caller_pc_def here_def)
  show ?case
  proof (cases "pc_step True pc (fc_imp c)")
    case None
    have "run_outs fc_step c (replicate k CallerWorks) = [] \<and> run_calls fc_step c (replicate k CallerWorks) = c" for k
      using None Suc.prems by (induction k) (simp_all add: caller_works_def work_def pc outcome_simps)
    with None Suc.prems show ?thesis by (simp del: replicate_Suc)
  next
    case (Some r)
    obtain outs t pc' where r: "r = (outs, t, pc')" by (cases r) auto
    let ?d = "c\<lparr>fc_imp := t, fc_caller := here pc'\<rparr>"
    from Suc.IH [of ?d pc'] Suc.prems Some r show ?thesis
      by (simp add: caller_works_def work_def pc outcome_simps)
  qed
qed simp

section \<open>Properties\<close>

text \<open>
  A launch runs the worker. When no worker thread was started before, or none holds the mutex,
  a launch whose worker is not overtaken makes the calls of \<^verbatim>\<open>worker\<close>, leaves the state it leaves,
  and has ended after four steps; it waits for good exactly when \<^verbatim>\<open>worker\<close> does. So what is proved
  of \<open>fleet_worker\<close> holds of the component.
\<close>

theorem fleet_launch_runs_worker:
  assumes "fc_caller c = FC_Idle" and "m_iMqttService c \<noteq> None"
    and "if inThread then \<not> m_runThreadFlag c else \<not> holds_mutex (m_runThread c)"
  shows "let es = Launch f g inThread env # replicate 4 (if inThread then ThreadWorks else CallerWorks);
      r = launchProvisioning f g env (fc_imp c); d = run_calls fc_step c es
    in run_outs fc_step c es = outs_of r \<and> fc_imp d = state_of r
      \<and> (if inThread then m_runThread d = thread_at (end_of (result_of r)) else fc_caller d = here (end_of (result_of r)))"
proof (cases inThread)
  case True
  let ?d = "c\<lparr>fc_imp := (fc_imp c)\<lparr>m_onProvisioned := f, m_onError := g\<rparr>, m_runThreadFlag := True,
      m_runThread := FT_Connect env\<rparr>"
  from thread_runs [of ?d "FT_Connect env" 4] assms True show ?thesis
    by (simp add: fc_launch_def launchProvisioning_def pc_run_worker caller_pc_def thread_at_def [of "FT_Connect env"]
        outcome_simps Let_def del: pc_run.simps replicate.simps)
next
  case False
  let ?d = "c\<lparr>fc_imp := (fc_imp c)\<lparr>m_onProvisioned := f, m_onError := g\<rparr>, fc_caller := FC_Here (FT_Connect env)\<rparr>"
  from caller_runs [of ?d "FT_Connect env" 4] assms False show ?thesis
    by (simp add: fc_launch_def launchProvisioning_def pc_run_worker here_def [of "FT_Connect env"]
        outcome_simps Let_def del: pc_run.simps replicate.simps)
qed

definition fleet_c0 :: "nat fleet_component" where
  "fleet_c0 = fc_attach (MqttService 1) (fleet_component0 fleet0)"

theorem fleet_launch_runs_worker_witness:
  "m_runThread (run_calls fc_step fleet_c0 (Launch (Some 1) (Some 2) True env0 # replicate 4 ThreadWorks)) = FT_Done"
proof -
  have "launchProvisioning (Some 1) (Some 2) env0 fleet0 = fleet_worker env0 fleet0"
    by (simp add: launchProvisioning_def fleet0_def)
  with fleet_launch_runs_worker [of fleet_c0 True "Some 1" "Some 2" env0] worker0 show ?thesis
    by (simp add: fleet_c0_def fleet_component0_def thread_at_def Let_def
        del: fc_step.simps run_calls.simps run_outs.simps replicate.simps)
qed

text \<open>
  C37: a second launch takes over the report of the first run. The handlers are exchanged before the
  running worker is waited for: from the launch on, nothing reports to a handler it replaces,
  whatever else is called but a launch that names the handler again; and a worker that was about to
  report an error hands it to the handler of the new launch, whose own run is still to start.
\<close>

theorem fleet_relaunch_takes_report:
  assumes "fc_caller c = FC_Idle" and "m_runThreadFlag c" and "f \<noteq> Some h" and "k \<noteq> h"
    and "list_all (\<lambda>ev. \<not> launches_with h ev) cs"
    and "m_runThread c = FT_Catch env' e \<or> m_runThread c = FT_Refused env' \<and> e = CannotConnect"
  shows "let d = state_of (fc_step c (Launch f (Some k) True env)) in
    list_all (\<lambda>out. \<not> is_report_to h out) (run_outs fc_step d cs)
    \<and> outs_of (fc_step d ThreadWorks) = [FOnError k e] \<and> fc_caller d = FC_LaunchJoin env"
proof -
  let ?d = "state_of (fc_step c (Launch f (Some k) True env))"
  have "forgotten h ?d"
    using assms(1-4) by (simp add: fc_launch_def forgotten_def outcome_simps Let_def)
  from superseded.run_visible [OF this assms(5)]
  have "list_all (\<lambda>out. \<not> is_report_to h out) (run_outs fc_step ?d cs)" .
  moreover have "outs_of (fc_step ?d ThreadWorks) = [FOnError k e] \<and> fc_caller ?d = FC_LaunchJoin env"
    using assms(1,2,6) by (auto simp: fc_launch_def thread_works_def work_def on_error_def caller_pc_def
        proceed_def outcome_simps Let_def)
  ultimately show ?thesis by (simp add: Let_def)
qed

theorem fleet_relaunch_takes_report_witness:
  "let c = run_calls fc_step fleet_c0 [Launch (Some 1) (Some 2) True (env0\<lparr>fe_connected := False\<rparr>), ThreadWorks, ThreadWorks]
   in run_outs fc_step c [Launch (Some 3) (Some 4) True env0, ThreadWorks] = [FOnError 4 CannotConnect]"
proof -
  define c where "c = run_calls fc_step fleet_c0
     [Launch (Some 1) (Some 2) True (env0\<lparr>fe_connected := False\<rparr>), ThreadWorks, ThreadWorks]"
  have "fc_caller c = FC_Idle" and "m_runThreadFlag c" and "m_runThread c = FT_Refused (env0\<lparr>fe_connected := False\<rparr>)"
    by (simp_all add: c_def fleet_c0_def fleet_component0_def fc_launch_def thread_works_def work_def
        worker_connect_def env0_def fleet0_def proceed_def caller_pc_def thread_next_def thread_at_def outcome_simps Let_def)
  with fleet_relaunch_takes_report [of c "Some 3" 2 4 "[]" _ CannotConnect env0]
  have "outs_of (fc_step (state_of (fc_step c (Launch (Some 3) (Some 4) True env0))) ThreadWorks)
      = [FOnError 4 CannotConnect]"
    by (simp add: Let_def)
  moreover have "outs_of (fc_step c (Launch (Some 3) (Some 4) True env0)) = []"
    using \<open>fc_caller c = FC_Idle\<close> by (simp add: fc_launch_def outcome_simps Let_def)
  ultimately have "run_outs fc_step c [Launch (Some 3) (Some 4) True env0, ThreadWorks] = [FOnError 4 CannotConnect]"
    by (simp del: fc_step.simps)
  then show ?thesis unfolding c_def [symmetric] Let_def .
qed

text \<open>
  An unanswered worker hangs the component. When the broker never answers a publish of the
  workflow, the wait on the promise never ends, the flag is not read again, and the next
  \<^verbatim>\<open>deactivate\<close> or launch waits in its join: whatever happens afterwards, nothing is called
  or reported any more and the join does not return.
\<close>

theorem fleet_unanswered_worker_hangs:
  assumes "fc_caller c = FC_Idle" and "m_runThreadFlag c" and "m_iMqttService c \<noteq> None"
    and "m_runThread c = FT_Wait env" and "fe_connected env"
    and "result_of (makeProvisioning env (fc_imp c)) = Inl Blocks"
    and "call = DeactivateFleet \<or> call = Launch f g True env'"
  shows "let d = run_calls fc_step c [ThreadWorks, call] in
    run_outs fc_step d cs = [] \<and> fc_caller (run_calls fc_step d cs) \<noteq> FC_Idle"
proof -
  define d where "d = run_calls fc_step c [ThreadWorks, call]"
  have "hung d"
    using assms by (auto simp: d_def hung_def thread_works_def work_def caller_pc_def thread_next_def thread_at_def proceed_def
        fc_launch_def fc_deactivate_def outcome_simps Let_def)
  from stuck.run_keeps [OF this, of cs] stuck.run_visible [OF this, of cs]
  have "hung (run_calls fc_step d cs)" and "run_outs fc_step d cs = []"
    by (cases "run_outs fc_step d cs"; simp add: list_all_iff)+
  then show ?thesis unfolding d_def [symmetric] by (simp add: hung_waits)
qed

definition silent_env :: fleet_env where
  "silent_env = env0\<lparr>fe_keysResponse := NoResponse\<rparr>"

lemma silent_blocks: "result_of (makeProvisioning silent_env s) = Inl Blocks"
proof -
  have "result_of (create_keys silent_env t) = Inl Blocks" for t :: "'a fleet"
    by (simp add: create_keys_steps silent_env_def env0_def fleet_call_def demand_def get_response_def
        outcome_simps Let_def)
  then show ?thesis by (simp add: makeProvisioning_def and_then_def)
qed

theorem fleet_unanswered_worker_hangs_witness:
  "fc_caller (run_calls fc_step fleet_c0
     [Launch (Some 1) (Some 2) True silent_env, ThreadWorks, ThreadWorks, DeactivateFleet, JoinReturns]) \<noteq> FC_Idle"
proof -
  define c where "c = run_calls fc_step fleet_c0 [Launch (Some 1) (Some 2) True silent_env, ThreadWorks]"
  have start: "fc_caller c = FC_Idle" "m_runThreadFlag c" "m_iMqttService c \<noteq> None" "m_runThread c = FT_Wait silent_env"
    by (simp_all add: c_def fleet_c0_def fleet_component0_def fc_launch_def thread_works_def work_def
        worker_connect_def silent_env_def env0_def fleet0_def proceed_def caller_pc_def thread_next_def thread_at_def
        outcome_simps Let_def)
  have "fe_connected silent_env" by (simp add: silent_env_def env0_def)
  from fleet_unanswered_worker_hangs [OF start this silent_blocks, of DeactivateFleet None None env0 "[JoinReturns]"]
  have "fc_caller (run_calls fc_step c [ThreadWorks, DeactivateFleet, JoinReturns]) \<noteq> FC_Idle"
    by (simp add: Let_def del: fc_step.simps)
  then show ?thesis by (simp add: c_def del: fc_step.simps)
qed

text \<open>
  A running worker is never overwritten. In every run of the component, a call that gives the
  thread object a new worker finds it without one, or waited for the one before to end:
  \<^verbatim>\<open>m_runThread\<close> is never assigned while it is joinable.
\<close>

theorem fleet_thread_never_overwritten:
  assumes "c = run_calls fc_step (fleet_component0 s) cs"
    and "m_runThread (state_of (fc_step c ev)) = FT_Connect env" and "m_runThread c \<noteq> FT_Connect env"
  shows "m_runThread c = FT_None \<or> ev = JoinReturns \<and> m_runThread c = FT_Done"
proof -
  have guards: "flag_guards c"
    unfolding assms(1) by (rule guarded.run_keeps) (simp_all add: flag_guards_def fleet_component0_def list_all_iff)
  have start: "snd (snd r) \<noteq> FT_Connect env" if "pc_step b pc t = Some r" for b pc r and t :: "'a fleet"
    using that by (cases pc) (auto simp: proceed_def Let_def split: if_splits sum.splits fleet_stop.splits option.splits)
  have at: "thread_at pc = FT_Connect env \<longleftrightarrow> pc = FT_Connect env" for pc by (simp add: thread_at_def split: fleet_pc.split)
  show ?thesis
  proof (cases ev)
    case (AttachInterface iface)
    with assms(2,3) show ?thesis by (cases iface) (simp_all add: outcome_simps)
  next
    case (DetachInterface iface)
    with assms(2,3) show ?thesis by (cases iface) (simp_all add: outcome_simps split: if_splits)
  next
    case (Launch f g inThread env')
    with assms(2,3) guards show ?thesis
      by (auto simp: fc_launch_def flag_guards_def outcome_simps Let_def split: if_splits fleet_caller.splits)
  next
    case JoinReturns
    with assms(2,3) show ?thesis
      by (auto simp: fc_join_def outcome_simps split: if_splits fleet_caller.splits)
  next
    case ThreadWorks
    with assms(2,3) show ?thesis
      by (auto simp: thread_works_def work_def at outcome_simps dest: start split: if_splits option.splits)
  qed (use assms(2,3) in \<open>auto simp: fc_activate_def fc_deactivate_def caller_works_def work_def outcome_simps Let_def
      split: if_splits option.splits\<close>)
qed

theorem fleet_thread_never_overwritten_witness:
  "m_runThread fleet_c0 = FT_None"
  using fleet_thread_never_overwritten [of fleet_c0 fleet0 "[AttachInterface (MqttService 1)]"
      "Launch (Some 1) (Some 2) True env0" env0]
  by (simp add: fleet_c0_def fleet_component0_def fc_launch_def outcome_simps Let_def)

end
