(* ===== verification/Command_Line.thy ===== *)
theory Command_Line
  imports Command_Service
begin

text \<open>
  \<^verbatim>\<open>src/CommandLineService/CommandLineService.cpp\<close>, the component around the loop: its thread
  with the points where it can block or be stopped, the calls of the framework, and the standard
  input, to which lines are added while the thread runs.
\<close>

section \<open>State\<close>

text \<open>
  Points of the thread: the loop condition, the question for the quit flag, the read, a line to
  run, the end of the function, and the end of the process (an exception nobody catches, or a
  command service that is not there).
\<close>

datatype cl_pc = CL_None | CL_Test | CL_Quit | CL_Read | CL_Line string | CL_Done | CL_Terminated

record 'c command_line =
  m_runThdFlg :: bool
  m_iCommandService :: "'c command_service option"
  cl_thd :: cl_pc
  cl_stdin :: "string list"
  cl_eof :: bool

text \<open>\<open>m_runThdFlg\<close> has no initial value; nothing reads it before \<^verbatim>\<open>activate\<close>.\<close>

definition command_line0 :: "bool \<Rightarrow> 'c command_line" where
  "command_line0 b = \<lparr>m_runThdFlg = b, m_iCommandService = None, cl_thd = CL_None, cl_stdin = [], cl_eof = False\<rparr>"

section \<open>Calls of the framework\<close>

definition cl_attach :: "'c command_service \<Rightarrow> 'c command_line \<Rightarrow> 'c command_line" where
  "cl_attach iface s = s\<lparr>m_iCommandService := Some iface\<rparr>"

definition cl_detach :: "bool \<Rightarrow> 'c command_line \<Rightarrow> 'c command_line" where
  "cl_detach same s = (if same then s\<lparr>m_iCommandService := None\<rparr> else s)"

definition cl_activate :: "'c command_line \<Rightarrow> 'c command_line" where
  "cl_activate s = s\<lparr>m_runThdFlg := True, cl_thd := CL_Test\<rparr>"

text \<open>\<^verbatim>\<open>deactivate\<close> up to the join, and the join, which waits for the end of the thread.\<close>

definition cl_deactivate :: "'c command_line \<Rightarrow> 'c command_line" where
  "cl_deactivate s = s\<lparr>m_runThdFlg := False\<rparr>"

definition cl_join :: "'c command_line \<Rightarrow> 'c command_line option" where
  "cl_join s = (if cl_thd s = CL_None \<or> cl_thd s = CL_Done then Some (s\<lparr>cl_thd := CL_None\<rparr>) else None)"

text \<open>A line is typed.\<close>

definition cl_types :: "string \<Rightarrow> 'c command_line \<Rightarrow> 'c command_line" where
  "cl_types l s = s\<lparr>cl_stdin := cl_stdin s @ [l]\<rparr>"

section \<open>The thread\<close>

text \<open>
  One step, with what it prints and calls; \<open>None\<close> when it waits for input or has ended.
\<close>

fun cl_step ::
  "('c, 'o) command_env \<Rightarrow> cl_pc \<Rightarrow> 'c command_line \<Rightarrow> ('o cmd_out list \<times> 'c command_line) option"
where
  "cl_step env CL_Test s =
     Some (if m_runThdFlg s then ([], s\<lparr>cl_thd := CL_Quit\<rparr>) else ([Print newline], s\<lparr>cl_thd := CL_Done\<rparr>))"
| "cl_step env CL_Quit s = Some (case m_iCommandService s of
       None \<Rightarrow> ([], s\<lparr>cl_thd := CL_Terminated\<rparr>)
     | Some service \<Rightarrow> (if isQuiting service then ([Print newline], s\<lparr>cl_thd := CL_Done\<rparr>)
         else ([Print ''cmd> ''], s\<lparr>cl_thd := CL_Read\<rparr>)))"
| "cl_step env CL_Read s = (case cl_stdin s of
       cmdLine # rest \<Rightarrow> Some ([], s\<lparr>cl_stdin := rest, cl_thd := if cmdLine = [] then CL_Test else CL_Line cmdLine\<rparr>)
     | [] \<Rightarrow> if cl_eof s then Some ([Print newline], s\<lparr>cl_thd := CL_Done\<rparr>) else None)"
| "cl_step env (CL_Line cmdLine) s = Some (case m_iCommandService s of
       None \<Rightarrow> ([], s\<lparr>cl_thd := CL_Terminated\<rparr>)
     | Some service \<Rightarrow> (let r = run_line env cmdLine service in
         (outs_of r, s\<lparr>m_iCommandService := Some (state_of r),
            cl_thd := case result_of r of Inr _ \<Rightarrow> CL_Test | Inl _ \<Rightarrow> CL_Terminated\<rparr>)))"
| "cl_step env pc s = None"

text \<open>The thread alone, for some steps or until it stops.\<close>

fun cl_runs :: "('c, 'o) command_env \<Rightarrow> nat \<Rightarrow> 'c command_line \<Rightarrow> 'o cmd_out list \<times> 'c command_line" where
  "cl_runs env 0 s = ([], s)"
| "cl_runs env (Suc n) s = (case cl_step env (cl_thd s) s of
       None \<Rightarrow> ([], s)
     | Some (outs, t) \<Rightarrow> (outs @ fst (cl_runs env n t), snd (cl_runs env n t)))"

section \<open>Facts\<close>

lemma cl_runs_ended: "cl_thd s = CL_Done \<or> cl_thd s = CL_Terminated \<Longrightarrow> cl_runs env n s = ([], s)"
  by (cases n) auto

lemma cl_runs_lines:
  assumes "m_runThdFlg s" and "cl_thd s = CL_Test" and "cl_eof s"
    and "m_iCommandService s = Some service"
  shows "fst (cl_runs env (4 * length (cl_stdin s) + 3 + k) s) = outs_of (exec_lines env (cl_stdin s) service)
    \<and> m_iCommandService (snd (cl_runs env (4 * length (cl_stdin s) + 3 + k) s))
        = Some (state_of (exec_lines env (cl_stdin s) service))
    \<and> cl_thd (snd (cl_runs env (4 * length (cl_stdin s) + 3 + k) s))
        = (case result_of (exec_lines env (cl_stdin s) service) of Inr _ \<Rightarrow> CL_Done | Inl _ \<Rightarrow> CL_Terminated)"
  using assms
proof (induction "cl_stdin s" arbitrary: s service k)
  case Nil
  then show ?case
    by (auto simp: numeral_3_eq_3 cl_runs_ended outcome_simps)
next
  case (Cons l ls)
  then have stdin: "cl_stdin s = l # ls" by simp
  show ?case
  proof (cases "isQuiting service")
    case True
    with Cons.prems stdin show ?thesis
      by (simp add: numeral_eq_Suc cl_runs_ended outcome_simps)
  next
    case quiting: False
    show ?thesis
    proof (cases "l = []")
      case True
      let ?t = "s\<lparr>cl_stdin := ls\<rparr>"
      from Cons.hyps(1) [of ?t service "Suc k"] Cons.prems quiting True stdin show ?thesis
        by (simp add: numeral_eq_Suc outcome_simps)
    next
      case False
      let ?r = "run_line env l service"
      show ?thesis
      proof (cases "result_of ?r")
        case (Inl u)
        with Cons.prems quiting False stdin show ?thesis
          by (simp add: numeral_eq_Suc cl_runs_ended outcome_simps Let_def)
      next
        case (Inr u)
        let ?t = "s\<lparr>cl_stdin := ls, m_iCommandService := Some (state_of ?r)\<rparr>"
        from Cons.hyps(1) [of ?t "state_of ?r" k] Cons.prems quiting False stdin Inr show ?thesis
          by (simp add: numeral_eq_Suc outcome_simps Let_def)
      qed
    qed
  qed
qed

section \<open>Properties\<close>

text \<open>
  C31: the thread does what the loop says. For an attached and activated component whose input is
  all there, the thread ends within four steps for each line and three more; it has then printed
  and called what \<^verbatim>\<open>runThd\<close> does on that input, and left the command service in the same state.
\<close>

theorem command_line_thread_refines:
  assumes "m_runThdFlg s" and "cl_thd s = CL_Test" and "cl_eof s" and "m_iCommandService s = Some service"
    and "\<forall>l \<in> set (cl_stdin s). CHR 0x0A \<notin> set l" and "CHR 0x0A \<notin> set rest"
  shows "let (outs, t) = cl_runs env (4 * length (cl_stdin s) + 3) s;
      r = runThd env (Suc (length (cl_stdin s))) (unlines (cl_stdin s) @ rest) service
    in outs = outs_of r \<and> m_iCommandService t = Some (state_of r)
      \<and> cl_thd t = (case result_of r of Inr _ \<Rightarrow> CL_Done | Inl _ \<Rightarrow> CL_Terminated)"
proof -
  have "runThd env (Suc (length (cl_stdin s))) (unlines (cl_stdin s) @ rest) service
      = exec_lines env (cl_stdin s) service"
    by (rule runThd_lines [OF assms(5,6)]) simp
  with cl_runs_lines [OF assms(1-4), of env 0] show ?thesis
    by (simp add: case_prod_unfold Let_def del: cl_runs.simps runThd.simps)
qed

definition two_lines :: "nat command_line" where
  "two_lines = (cl_activate (cl_attach (command_activate command_service0) (command_line0 False)))
     \<lparr>cl_stdin := [''h'', ''q''], cl_eof := True\<rparr>"

theorem command_line_thread_refines_witness:
  "fst (cl_runs no_commands 11 two_lines) =
     outs_of (runThd no_commands 3 (unlines [''h'', ''q''] @ []) (command_activate command_service0))"
  using command_line_thread_refines [of two_lines "command_activate command_service0" "[]" no_commands]
  by (simp add: two_lines_def cl_activate_def cl_attach_def case_prod_unfold Let_def numeral_eq_Suc
      del: cl_runs.simps runThd.simps)

text \<open>
  \<^verbatim>\<open>deactivate\<close> waits for a line, and runs it. A thread that waits for input does not see
  that it is to stop: the join does not return until a line is typed, and that line is still run
  before the thread ends, without the quit flag being asked again.
\<close>

theorem command_line_late_line:
  assumes "cl_thd s = CL_Read" and "cl_stdin s = []" and "\<not> cl_eof s" and "l \<noteq> []"
    and "m_iCommandService s = Some service" and "result_of (run_line env l service) = Inr ()"
  shows "let t = cl_deactivate s; (outs, u) = cl_runs env 3 (cl_types l t) in
    cl_runs env n t = ([], t) \<and> cl_join t = None
    \<and> outs = outs_of (run_line env l service) @ [Print newline] \<and> cl_join u \<noteq> None"
proof -
  have "cl_runs env n (cl_deactivate s) = ([], cl_deactivate s)"
    using assms(1-3) by (cases n) (simp_all add: cl_deactivate_def)
  with assms show ?thesis
    by (simp add: cl_deactivate_def cl_join_def cl_types_def numeral_3_eq_3 Let_def)
qed

theorem command_line_late_line_witness:
  "cl_join (cl_deactivate (two_lines\<lparr>cl_stdin := [], cl_eof := False, cl_thd := CL_Read\<rparr>)) = None"
proof -
  let ?s = "two_lines\<lparr>cl_stdin := [], cl_eof := False, cl_thd := CL_Read\<rparr>"
  let ?c = "command_activate command_service0 :: nat command_service"
  have "result_of (run_line no_commands ''q'' ?c) = Inr ()"
    by (simp add: run_line_def command_activate_def command_service0_def addCommand_def findCommand_def
        sm_insert_def extract_word_def is_space_def outcome_simps Let_def)
  from command_line_late_line [of ?s "''q''" ?c no_commands, OF _ _ _ _ _ this]
  show ?thesis by (simp add: two_lines_def cl_attach_def cl_activate_def Let_def case_prod_unfold del: cl_runs.simps)
qed

end
