(* ===== verification/Typed_Messages.thy ===== *)
theory Typed_Messages
  imports Msg_Cmd Command_Line
begin

text \<open>
  Four components together: a line typed into \<^verbatim>\<open>CommandLineService\<close>, looked up in
  \<^verbatim>\<open>CommandService\<close>, run by the command of \<^verbatim>\<open>MsgCmd\<close>, and sent by \<^verbatim>\<open>MqMessageService\<close>.
\<close>

section \<open>From the command line to the message queue\<close>

text \<open>The calls the commands of a run made, and the line that sends a word.\<close>

fun command_call :: "'o cmd_out \<Rightarrow> 'o option" where
  "command_call (CommandCalls call) = Some call"
| "command_call _ = None"

definition typed_text :: "string \<Rightarrow> string" where
  "typed_text w = ''c t '' @ w"

lemma typed_words:
  assumes "\<forall>c \<in> set w. \<not> is_space c"
  shows "extract_word (typed_text w) = (''c'', CHR '' '' # ''t '' @ w)"
    and "extract_word (CHR '' '' # ''t '' @ w) = (''t'', CHR '' '' # w)"
    and "extract_word (CHR '' '' # w) = (w, [])"
proof -
  have sp: "is_space CHR '' ''" by (simp add: is_space_def)
  have "extract_word (''c'' @ CHR '' '' # ''t '' @ w) = (''c'', CHR '' '' # ''t '' @ w)"
    by (rule extract_word_append) (simp_all add: is_space_def)
  then show "extract_word (typed_text w) = (''c'', CHR '' '' # ''t '' @ w)" by (simp add: typed_text_def)
  have "extract_word (''t'' @ CHR '' '' # w) = (''t'', CHR '' '' # w)"
    by (rule extract_word_append) (simp_all add: is_space_def)
  then show "extract_word (CHR '' '' # ''t '' @ w) = (''t'', CHR '' '' # w)"
    unfolding extract_word_skip [OF sp] by simp
  show "extract_word (CHR '' '' # w) = (w, [])"
    unfolding extract_word_skip [OF sp] by (rule extract_word_all [OF assms])
qed

lemma typed_line_sends:
  assumes "\<forall>c \<in> set w. \<not> is_space c" and "w \<noteq> []" and "mc_sendMessage env w = None"
    and "findCommand ''c'' service = Some (Registered ())"
  shows "run_line (msgcmd_command_env env) (typed_text w) service
    = (Inr (), [CommandCalls w, Print newline], service)"
  using assms(2-4) typed_words [OF assms(1)]
  by (simp add: run_line_def msgcmd_command_env_def msgcmd_doCmd_def msgcmd_send_def Let_def)

lemma typed_lines_send:
  assumes "\<forall>w \<in> set ws. w \<noteq> [] \<and> (\<forall>c \<in> set w. \<not> is_space c) \<and> mc_sendMessage env w = None"
    and "findCommand ''c'' service = Some (Registered ())" and "\<not> isQuiting service"
  shows "result_of (exec_lines (msgcmd_command_env env) (map typed_text ws) service) = Inr ()
    \<and> List.map_filter command_call (outs_of (exec_lines (msgcmd_command_env env) (map typed_text ws) service)) = ws"
  using assms(1)
proof (induction ws)
  case Nil
  then show ?case using assms(3) by (simp add: outcome_simps)
next
  case (Cons w ws)
  moreover have "typed_text w \<noteq> []" by (simp add: typed_text_def)
  ultimately show ?case
    using typed_line_sends [OF _ _ _ assms(2), of w env] assms(3) by (simp add: outcome_simps)
qed

text \<open>The messages clients hand to the service in a run of it; a word is never the warning \<open>broken_msg\<close>.\<close>

fun message_call :: "'h mq_call \<Rightarrow> bytes option" where
  "message_call (Send msg) = Some msg"
| "message_call c = None"

lemma accepted_calls: "accepted_messages cs = filter (\<lambda>w. w \<noteq> broken_msg) (List.map_filter message_call cs)"
proof (induction cs)
  case (Cons c cs)
  then show ?case by (cases c) (simp_all add:)
qed simp

lemma word_not_broken: "\<forall>c \<in> set w. \<not> is_space c \<Longrightarrow> w \<noteq> broken_msg"
proof -
  have "CHR '' '' \<in> set broken_msg" and "is_space CHR '' ''" by (simp_all add: broken_msg_def is_space_def)
  then show "\<forall>c \<in> set w. \<not> is_space c \<Longrightarrow> w \<noteq> broken_msg" by blast
qed

text \<open>
  C32: what is typed is sent. Lines that tell the message command to send a word, the whole
  input of an activated command line whose command service has the command under \<^verbatim>\<open>c\<close> and is not
  quitting, make the command call the message service with these words in order, one call each, when
  none of the calls throws; and in every run of the activated service with these calls and without
  \<^verbatim>\<open>activate\<close> or \<^verbatim>\<open>deactivate\<close>, however its worker and its listening thread come between them,
  the messages handed to \<^verbatim>\<open>mq_send\<close> and those still waiting are what
  waited before and then the words, once each and in order.
\<close>

theorem typed_words_are_sent:
  assumes "m_runThdFlg line" and "cl_thd line = CL_Test" and "cl_eof line"
    and "m_iCommandService line = Some service" and "findCommand ''c'' service = Some (Registered ())"
    and "\<not> isQuiting service" and "cl_stdin line = map typed_text ws"
    and "\<forall>w \<in> set ws. w \<noteq> [] \<and> (\<forall>c \<in> set w. \<not> is_space c) \<and> mc_sendMessage env w = None"
    and "m_toMqMessageQueue mq \<noteq> None" and "list_all (\<lambda>c. \<not> lifecycle_call c) cs"
    and "List.map_filter message_call cs =
      List.map_filter command_call (fst (cl_runs (msgcmd_command_env env) (4 * length ws + 3) line))"
  shows "cl_thd (snd (cl_runs (msgcmd_command_env env) (4 * length ws + 3) line)) = CL_Done
    \<and> sent_messages (run_outs mq_step mq cs) @ waiting_messages (run_calls mq_step mq cs) = waiting_messages mq @ ws"
proof -
  note typed = typed_lines_send [OF assms(8,5,6)]
  from cl_runs_lines [OF assms(1-4), of "msgcmd_command_env env" 0] typed assms(7)
  have ends: "cl_thd (snd (cl_runs (msgcmd_command_env env) (4 * length ws + 3) line)) = CL_Done"
    and calls: "List.map_filter command_call (fst (cl_runs (msgcmd_command_env env) (4 * length ws + 3) line)) = ws"
    by (simp_all del: cl_runs.simps)
  have "filter (\<lambda>w. w \<noteq> broken_msg) ws = ws"
    using assms(8) word_not_broken by (intro filter_True) blast
  with calls assms(11) have "accepted_messages cs = ws"
    by (simp add: accepted_calls)
  with ends run_order [OF assms(9,10)] show ?thesis by simp
qed

definition chat_line :: "unit command_line" where
  "chat_line = (cl_activate (cl_attach (msgcmd_activate (command_activate command_service0)) (command_line0 False)))
     \<lparr>cl_stdin := map typed_text [''a'', ''b''], cl_eof := True\<rparr>"

theorem typed_words_are_sent_witness:
  "sent_messages (run_outs mq_step mq_active [Send ''a'', TaskRuns 5 0, Send ''b'', TaskRuns 6 0]) = [''a'', ''b'']
   \<and> cl_thd (snd (cl_runs (msgcmd_command_env msgcmd_env0) 11 chat_line)) = CL_Done"
proof -
  let ?cs = "[Send ''a'', TaskRuns 5 0, Send ''b'', TaskRuns 6 0] :: nat mq_call list"
  let ?service = "msgcmd_activate (command_activate command_service0)"
  have found: "findCommand ''c'' ?service = Some (Registered ())" "\<not> isQuiting ?service"
    by (simp_all add: msgcmd_activate_def command_activate_def command_service0_def addCommand_def findCommand_def
        sm_insert_def isQuiting_def Let_def)
  have line: "m_runThdFlg chat_line" "cl_thd chat_line = CL_Test" "cl_eof chat_line"
      "m_iCommandService chat_line = Some ?service" "cl_stdin chat_line = map typed_text [''a'', ''b'']"
    by (simp_all add: chat_line_def cl_activate_def cl_attach_def)
  have words: "\<forall>w \<in> set [''a'', ''b'']. w \<noteq> [] \<and> (\<forall>c \<in> set w. \<not> is_space c) \<and> mc_sendMessage msgcmd_env0 w = None"
    by (simp add: is_space_def msgcmd_env0_def)
  from cl_runs_lines [OF line(1-4), of "msgcmd_command_env msgcmd_env0" 0] typed_lines_send [OF words found] line(5)
  have calls: "List.map_filter message_call ?cs =
      List.map_filter command_call (fst (cl_runs (msgcmd_command_env msgcmd_env0) (4 * length [''a'', ''b''] + 3) chat_line))"
    by (simp add: del: cl_runs.simps)
  have mq: "m_toMqMessageQueue mq_active \<noteq> None" "waiting_messages mq_active = []"
    by (simp_all add: mq_active_def mq_activate_def waiting_messages_def outcome_simps Let_def)
  have "waiting_messages (run_calls mq_step mq_active ?cs) = []"
    by (simp add: mq_active_def waiting_messages_def mq_defs mq_service0_def)
  with typed_words_are_sent [OF line(1-4) found line(5) words mq(1) _ calls] mq(2) show ?thesis
    by (simp del: cl_runs.simps)
qed

end
