(* ===== verification/Mq_Threads.thy ===== *)
theory Mq_Threads
  imports Mq_Message
begin

text \<open>
  \<^verbatim>\<open>MqMessageService\<close> on the threads of its task queue. \<open>Mq_Message\<close> takes the queue as a line of
  messages whose front a \<open>TaskRuns\<close> event takes. Here this is shown to be what the class of
  \<open>Task_Queue\<close> does with all its threads, when its processing function is \<^verbatim>\<open>sendTo\<close>.
\<close>

section \<open>The line and the threads\<close>

text \<open>What is handed to \<^verbatim>\<open>mq_send\<close>, and the answers the operating system gives to the worker.\<close>

fun handed_payload :: "'h mq_out \<Rightarrow> bytes option" where
  "handed_payload (MqSend desc msg) = Some msg"
| "handed_payload _ = None"

text \<open>
  The calls of \<open>mq_step\<close> that a trace of the task queue stands for: a push is the \<^verbatim>\<open>pushToQueue\<close> of
  \<^verbatim>\<open>sendMessage\<close>, and a task taken is one call of \<^verbatim>\<open>sendTo\<close>; the operating system answers the
  \<open>n\<close>-th of them with \<open>answer n\<close>. The task itself is not passed on, \<open>TaskRuns\<close> takes it from the line.
\<close>

fun mq_calls_of :: "(nat \<Rightarrow> descriptor \<times> int) \<Rightarrow> nat \<Rightarrow> bytes tq_event list \<Rightarrow> 'h mq_call list" where
  "mq_calls_of answer n [] = []"
| "mq_calls_of answer n (Puts msg # es) = Send msg # mq_calls_of answer n es"
| "mq_calls_of answer n (Takes msg # es) =
     TaskRuns (fst (answer n)) (snd (answer n)) # mq_calls_of answer (Suc n) es"

lemma sendTo_hands:
  "List.map_filter handed_payload (outs_of (sendTo msg desc res s)) = [msg]"
  "m_toMqMessageQueue (state_of (sendTo msg desc res s)) = m_toMqMessageQueue s"
  by (simp_all add: sendTo_def mq_connect_def openMqWrite_def closeMq_def writeMq_def and_then_def
      outcome_simps Let_def)

text \<open>Whatever the operating system answers, the service follows every trace of the plain queue.\<close>

lemma mq_follows_fifo:
  "spec_run fifo_step line es = Some line' \<Longrightarrow> m_toMqMessageQueue s = Some line \<Longrightarrow>
   m_toMqMessageQueue (run_calls mq_step s (mq_calls_of answer n es)) = Some line'
   \<and> List.map_filter handed_payload (run_outs mq_step s (mq_calls_of answer n es))
       = List.map_filter taken_task es"
proof (induction es arbitrary: line n s)
  case (Cons e es)
  show ?case
  proof (cases e)
    case (Puts msg)
    with Cons.prems Cons.IH [of "line @ [msg]" "state_of (sendMessage msg s)" n] show ?thesis
      by (simp add: sendMessage_def outcome_simps)
  next
    case (Takes msg)
    with Cons.prems obtain rest where rest: "line = msg # rest" "spec_run fifo_step rest es = Some line'"
      by (cases line) (auto split: if_splits)
    with Takes Cons.prems(2) Cons.IH [OF rest(2), where n = "Suc n"] show ?thesis
      by (simp add: task_runs_def sendTo_hands)
  qed
qed simp

section \<open>Properties\<close>

text \<open>
  C18: the service on threads is the service on a line. For every schedule of the clients and the
  worker, let the service make the calls the trace stands for, a \<^verbatim>\<open>sendMessage\<close> for each push and a
  round of \<^verbatim>\<open>sendTo\<close> for each task taken, in the order of the trace and with any answers of the
  operating system. Then its line is the tasks that wait on the threads, the one in the worker's hand
  first, and what it handed to \<^verbatim>\<open>mq_send\<close> is exactly the tasks the worker processed, in order.
\<close>

theorem mq_service_runs_on_threads:
  fixes as :: "bytes tq_action list"
  assumes "m_toMqMessageQueue s = Some []"
  shows "let q = tq_schedule as task_queue0; cs = mq_calls_of answer 0 (tq_trace as task_queue0) in
     m_toMqMessageQueue (run_calls mq_step s cs) = Some (in_hand (m_workerThread q) @ m_taskQueue q)
   \<and> List.map_filter handed_payload (run_outs mq_step s cs) = tasks_processed q"
proof -
  let ?q = "tq_schedule as (task_queue0 :: bytes task_queue)"
  have "spec_run fifo_step [] (tq_trace as task_queue0) = Some (fifo_view ?q)"
    using tq_fifo.run_refines [of task_queue0 as]
    by (simp add: tq_schedule_runs fifo_view_def task_queue0_def)
  from mq_follows_fifo [OF this assms, of answer 0] tq_trace_records [of as task_queue0]
  show ?thesis by (simp add: Let_def fifo_view_def task_queue0_def)
qed

definition one_sent :: "bytes tq_action list" where
  "one_sent = ClientCalls 1 (PushToQueue ''a'') # replicate 4 (ClientRuns 1)
     @ ClientCalls 2 (PushToQueue ''b'') # replicate 4 (ClientRuns 2) @ replicate 5 WorkerRuns"

theorem mq_service_runs_on_threads_witness:
  "let cs = [Send ''a'', Send ''b'', TaskRuns 5 0] in
     m_toMqMessageQueue (run_calls mq_step mq_active cs) = Some [''b'']
   \<and> List.map_filter handed_payload (run_outs mq_step mq_active cs) = [''a'']"
proof -
  have q: "tq_trace one_sent task_queue0 = [Puts ''a'', Puts ''b'', Takes ''a'']"
    "tasks_processed (tq_schedule one_sent task_queue0) = [''a'']"
    "in_hand (m_workerThread (tq_schedule one_sent task_queue0)) = []"
    "m_taskQueue (tq_schedule one_sent task_queue0) = [''b'']"
    by (simp_all add: one_sent_def tq_run_simps numeral_eq_Suc)
  have "m_toMqMessageQueue mq_active = Some []"
    by (simp add: mq_active_def mq_activate_def outcome_simps Let_def)
  from mq_service_runs_on_threads [OF this, of one_sent "\<lambda>_. (5, 0)"] show ?thesis
    by (simp add: q Let_def)
qed

end
