(* ===== verification/Mqtt_History.thy ===== *)
theory Mqtt_History
  imports Mqtt_Correct
begin

text \<open>
  \<^verbatim>\<open>MqttService\<close> against the contract of \<^verbatim>\<open>include/IMqttService.h\<close> as a client sees it: which
  handlers a message is given to, by the history of the calls alone.
\<close>

section \<open>A client by its history\<close>

text \<open>
  What a client of \<^verbatim>\<open>IMqttService\<close> has to know: whether there is an MQTT client, and the handler
  of each filter. A subscription counts when the library accepted the request, whatever the broker
  answers later, and stays until an accepted unsubscription, also when the client is destroyed.
\<close>

type_synonym 'h pubsub = "nat option \<times> (topic \<Rightarrow> 'h on_message option)"

fun pubsub_step :: "'h pubsub \<Rightarrow> 'h mqtt_call \<Rightarrow> 'h pubsub" where
  "pubsub_step (client, subs) (Create clientId cp r) = (if client = None then cr_handle r else client, subs)"
| "pubsub_step (client, subs) (Destroy clientId d left) = (left, subs)"
| "pubsub_step (client, subs) (Deactivate d left) = (left, subs)"
| "pubsub_step (client, subs) (Subscribe topic qos onSub onMsg r) =
     (client, if client \<noteq> None \<and> rr_code r = MQTTASYNC_SUCCESS then subs(topic \<mapsto> onMsg) else subs)"
| "pubsub_step (client, subs) (SubscribeLegacy topic qos r) =
     (client, if client \<noteq> None \<and> rr_code r = MQTTASYNC_SUCCESS then subs(topic \<mapsto> MsgLegacy) else subs)"
| "pubsub_step (client, subs) (Unsubscribe topic h r) =
     (client, if client \<noteq> None \<and> rr_code r = MQTTASYNC_SUCCESS then subs(topic := None) else subs)"
| "pubsub_step p c = p"

definition pubsub_view :: "'h mqtt \<Rightarrow> 'h pubsub" where
  "pubsub_view s = (m_client s, sm_find (m_onMessageHndlMap s))"

lemma step_pubsub: "mqtt_inv s \<Longrightarrow> pubsub_view (state_of (mqtt_step s c)) = pubsub_step (pubsub_view s) c"
proof (cases c)
  case (Register slot hndl)
  then show ?thesis by (cases slot) (simp_all add: pubsub_view_def outcome_simps)
qed (auto simp: pubsub_view_def mqtt_inv_def mqtt_op_simps sm_find_assign sm_find_erase fun_eq_iff
    split: mqtt_splits)

interpretation history: call_refinement mqtt_step "\<lambda>_. True" mqtt_inv pubsub_view pubsub_step
  by unfold_locales (simp_all add: mqtt_step_inv step_pubsub)

text \<open>Clients that subscribe with filters whose meaning the tests implement, and with a handler.\<close>

fun plain_call :: "'h mqtt_call \<Rightarrow> bool" where
  "plain_call (Subscribe topic qos onSub onMsg r) = (plain_filter topic \<and> onMsg \<noteq> MsgUser None)"
| "plain_call (SubscribeLegacy topic qos r) = plain_filter topic"
| "plain_call c = True"

definition plain_subs :: "'h pubsub \<Rightarrow> bool" where
  "plain_subs p \<longleftrightarrow> (\<forall>flt hndl. snd p flt = Some hndl \<longrightarrow> plain_filter flt \<and> hndl \<noteq> MsgUser None)"

lemma plain_subs_step: "plain_subs p \<Longrightarrow> plain_call c \<Longrightarrow> plain_subs (pubsub_step p c)"
  by (cases p; cases c) (auto simp: plain_subs_def)

lemma plain_subs_run: "plain_subs p \<Longrightarrow> list_all plain_call cs \<Longrightarrow> plain_subs (foldl pubsub_step p cs)"
  by (induction cs arbitrary: p) (simp_all only: foldl.simps list.pred_inject plain_subs_step)

text \<open>
  C1: the history decides who hears a message. Take any run of calls of clients and callbacks of the
  library since the start in which every subscription names a nonempty filter that either has no \<^verbatim>\<open>#\<close>,
  or is \<^verbatim>\<open>p/#\<close> for a \<^verbatim>\<open>p\<close> without wildcards, and has a handler that is not empty; and a message on a nonempty topic without wildcards. It calls, once each
  and in the order of the filters, the handlers of exactly those filters that deliver its topic and
  whose last accepted request is a subscription: the handler of the latest one, refused subscriptions
  and failed unsubscriptions included. Delivering is matching level by level, also of a topic that
  starts with \<^verbatim>\<open>$\<close>, but \<^verbatim>\<open>p/#\<close> does not deliver the topic \<^verbatim>\<open>p\<close> itself. Creating, connecting, losing and destroying the client in between
  changes nothing of it.
\<close>

theorem mqtt_delivers_by_history:
  fixes cs :: "'h mqtt_call list"
  assumes "list_all plain_call cs" and "topic_name topic" and "topic \<noteq> []"
  shows "let s = run_calls mqtt_step mqtt0 cs; subs = snd (foldl pubsub_step (None, Map.empty) cs);
      flts = sorted_list_of_set {flt. subs flt \<noteq> None \<and> delivers topic flt}
    in mqtt_msgarrvd topic (int (length topic)) msg s = (Inr (),
        if flts = [] then [NoHandlerFor topic]
        else concat (map (\<lambda>flt. message_calls s topic msg (the (subs flt))) flts), s)"
proof -
  let ?s = "run_calls mqtt_step mqtt0 cs" and ?subs = "snd (foldl pubsub_step (None, Map.empty) cs)"
  have inv: "mqtt_inv ?s" by (rule sends.run_keeps) (simp_all add: mqtt_inv_def mqtt0_def list_all_iff)
  have "pubsub_view ?s = foldl pubsub_step (pubsub_view mqtt0) cs"
    by (rule history.run_abs) (simp_all add: mqtt_inv_def mqtt0_def list_all_iff)
  moreover have "pubsub_view (mqtt0 :: 'h mqtt) = (None, Map.empty)"
    by (simp add: pubsub_view_def mqtt0_def fun_eq_iff)
  ultimately have "pubsub_view ?s = foldl pubsub_step (None, Map.empty) cs" by (simp only:)
  from arg_cong [OF this, of snd] have subs: "sm_find (m_onMessageHndlMap ?s) = ?subs" by (simp add: pubsub_view_def)
  have "plain_subs (foldl pubsub_step (None, Map.empty) cs)"
    by (rule plain_subs_run [OF _ assms(1)]) (simp add: plain_subs_def)
  then have "\<forall>it \<in> set (m_onMessageHndlMap ?s). plain_filter (fst it) \<and> snd it \<noteq> MsgUser None"
    using inv by (auto simp: plain_subs_def mqtt_inv_def simp flip: subs sm_find_Some)
  note called = message_dispatch [OF assms(2,3) this]
  have "sm_inv (m_onMessageHndlMap ?s)" using inv by (simp add: mqtt_inv_def)
  note its = sm_filter_keys [OF this, of "delivers topic", unfolded subs]
  show ?thesis unfolding Let_def called its by (simp add: comp_def)
qed

definition chat_history :: "nat mqtt_call list" where
  "chat_history = (let ok = \<lparr>rr_code = 0, rr_token = 1\<rparr> in
     [Create ''c'' default_ConnectionPars \<lparr>cr_create = 0, cr_handle = Some 1, cr_setConnected = 0, cr_setCallbacks = 0\<rparr>,
      Subscribe ''a/#'' 1 (SubUser (Some 1)) (MsgUser (Some 2)) ok, Subscribe ''a/+'' 1 (SubUser (Some 1)) (MsgUser (Some 3)) ok,
      Subscribe ''b'' 1 (SubUser (Some 1)) (MsgUser (Some 4)) ok, CbSubscribeFailure (Some 1),
      Unsubscribe ''a/#'' (Some 5) ok, Subscribe ''a/+'' 1 (SubUser (Some 1)) (MsgUser (Some 6)) ok])"

theorem mqtt_delivers_by_history_witness:
  "outs_of (mqtt_msgarrvd ''a/b'' 3 ''m'' (run_calls mqtt_step mqtt0 chat_history)) = [OnMessage 6 ''a/b'' ''m'']"
proof -
  have "plain_filter ''a/#''"
    unfolding plain_filter_def by (rule conjI, simp, rule disjI2, rule exI [of _ "''a''"])
      (simp add: topic_name_def)
  then have "list_all plain_call chat_history" by (simp add: chat_history_def plain_filter_def Let_def)
  note by_history = mqtt_delivers_by_history [OF this, of "''a/b''" "''m''"]
  have subs: "snd (foldl pubsub_step (None, Map.empty) chat_history)
      = [''a/+'' \<mapsto> MsgUser (Some 6), ''b'' \<mapsto> MsgUser (Some 4)]"
    by (auto simp: chat_history_def Let_def)
  have "{flt. snd (foldl pubsub_step (None, Map.empty) chat_history) flt \<noteq> None \<and> delivers ''a/b'' flt} = {''a/+''}"
    unfolding subs by (auto simp: delivers_def levels_match_def)
  with by_history show ?thesis unfolding subs
    by (simp add: topic_name_def message_calls_def call_onMessage_def Let_def)
qed

end
