(* ===== verification/Message_Link.thy ===== *)
theory Message_Link
  imports Mq_Message
begin

text \<open>
  Two instances of \<open>Mq_Message\<close>, joined by a message queue of the operating system. The queue itself
  is not code of the repository: what is assumed of it is that the messages that arrive are a first
  part of those handed to it.
\<close>

section \<open>The receiver\<close>









section \<open>Properties\<close>




end
