(* ===== verification/Ws_Link.thy ===== *)
theory Ws_Link
  imports Ws_Client Ws_Service
begin

text \<open>
  The web socket client of \<open>Ws_Client\<close> joined to the server of \<open>Ws_Service\<close> by a connection, in both
  directions. The connection is not code of the repository: what is assumed of it is that the texts that
  arrive are a first part of those handed to it, and from the server to the client, where the
  endpoint may refuse a message, that they are some of them in their order.
\<close>

section \<open>The peer of the connection\<close>

text \<open>The server as long as one connection, and no other, has this name, and the calls that keep it so.\<close>

definition one_peer :: "connection_hdl \<Rightarrow> string \<Rightarrow> 'h ws_service \<Rightarrow> bool" where
  "one_peer hdl connId s \<longleftrightarrow> ws_inv s \<and> (\<forall>h. getConnId h s = Some connId \<longleftrightarrow> h = hdl)"

fun keeps_peer :: "connection_hdl \<Rightarrow> string \<Rightarrow> 'h ws_call \<Rightarrow> bool" where
  "keeps_peer hdl connId (WsReports (Opened h p)) = (cp_connId p \<noteq> connId)"
| "keeps_peer hdl connId (WsReports (Closed h)) = (h \<noteq> hdl)"
| "keeps_peer hdl connId (Stop listening) = False"
| "keeps_peer hdl connId (DeactivateWs listening) = False"
| "keeps_peer hdl connId c = True"

lemma one_peer_table:
  assumes "one_peer hdl connId s" and "m_connectionsStrMap t = m_connectionsStrMap s"
  shows "one_peer hdl connId t"
  using assms by (simp add: one_peer_def ws_inv_def getConnId_def)

lemma one_peer_step:
  assumes "one_peer hdl connId s" and "keeps_peer hdl connId c"
  shows "one_peer hdl connId (state_of (ws_step s c))"
proof (cases c)
  case (WsReports report)
  have inv: "sm_inv (m_connectionsStrMap s)" using assms(1) by (simp add: one_peer_def ws_inv_def)
  have "ws_inv (state_of (ws_step s (WsReports report)))"
    using assms(1) by (intro ws_step_inv) (simp add: one_peer_def)
  then show ?thesis using assms WsReports
    by (cases report) (auto simp: one_peer_def ws_op_defs sm_find_insert [OF inv] sm_find_erase
        outcome_simps Let_def dest: spec [of _ hdl] split: option.split)
next
  case (RegisterWs slot hndl)
  then show ?thesis by (intro one_peer_table [OF assms(1)], cases slot) (simp_all add: outcome_simps)
qed (use assms(2) in \<open>auto intro!: one_peer_table [OF assms(1)] simp: ws_activate_frame ws_sendMessage_def
    ws_start_def ws_attach_def ws_detach_def outcome_simps split: option.split\<close>)

section \<open>From the client to the server\<close>

text \<open>The client as long as its connection is the one with this handle.\<close>

fun same_connection :: "connection_hdl \<Rightarrow> 'h wsc_call \<Rightarrow> bool" where
  "same_connection con (OnOpen hdl server connecting) = (hdl = con)"
| "same_connection con c = True"

fun wsc_accepted :: "'h wsc_call \<Rightarrow> string option" where
  "wsc_accepted (wsc_call.Send msg) = Some msg"
| "wsc_accepted (wsc_call.SendBytes msg) = Some msg"
| "wsc_accepted c = None"

fun wsc_sent :: "connection_hdl \<Rightarrow> 'h wsc_out \<Rightarrow> string option" where
  "wsc_sent con (WscSend hdl msg) = (if hdl = Some con then Some msg else None)"
| "wsc_sent con out = None"

text \<open>The server as long as somebody takes texts, too.\<close>

definition ws_serves :: "connection_hdl \<Rightarrow> string \<Rightarrow> 'h ws_service \<Rightarrow> bool" where
  "ws_serves hdl connId s \<longleftrightarrow> one_peer hdl connId s \<and> Ws_Service.m_server s \<noteq> None
     \<and> Ws_Service.m_messageStrHandlerFunc s \<noteq> None"

fun drops_texts :: "'h ws_call \<Rightarrow> bool" where
  "drops_texts (RegisterWs slot hndl) = (slot = MessageStrHandler \<and> hndl = None)"
| "drops_texts c = False"

fun ws_arriving :: "connection_hdl \<Rightarrow> 'h ws_call \<Rightarrow> string option" where
  "ws_arriving hdl (WsReports (Received h payload)) = (if h = hdl then Some payload else None)"
| "ws_arriving hdl c = None"

fun ws_handled :: "string \<Rightarrow> 'h ws_out \<Rightarrow> string option" where
  "ws_handled connId (WsMessageStr h msg c) = (if c = connId then Some msg else None)"
| "ws_handled connId out = None"

lemma wsc_link_step:
  assumes "m_connection_hdl s = Some con" and "same_connection con c"
  shows "m_connection_hdl (state_of (wsc_step s c)) = Some con"
    and "List.map_filter (wsc_sent con) (outs_of (wsc_step s c)) = List.map_filter wsc_accepted [c]"
proof -
  have returns: "List.map_filter (wsc_sent con) (map WscConnectReturns cons) = []" for cons
    by (induction cons) simp_all
  have "m_connection_hdl (state_of (wsc_step s c)) = Some con
    \<and> List.map_filter (wsc_sent con) (outs_of (wsc_step s c)) = List.map_filter wsc_accepted [c]"
  proof (cases c)
    case (Register slot hndl)
    with assms show ?thesis by (cases slot) (simp_all add: outcome_simps)
  qed (use assms in \<open>auto simp: wsc_op_defs outcome_simps returns split: option.split\<close>)
  then show "m_connection_hdl (state_of (wsc_step s c)) = Some con"
    and "List.map_filter (wsc_sent con) (outs_of (wsc_step s c)) = List.map_filter wsc_accepted [c]"
    by blast+
qed

lemma ws_serves_step:
  assumes "Ws_Service.m_server s \<noteq> None" and "Ws_Service.m_messageStrHandlerFunc s \<noteq> None" and "\<not> drops_texts c"
  shows "Ws_Service.m_server (state_of (ws_step s c)) \<noteq> None
    \<and> Ws_Service.m_messageStrHandlerFunc (state_of (ws_step s c)) \<noteq> None"
proof (cases c)
  case (WsReports report)
  with assms show ?thesis by (cases report) (auto simp: ws_op_defs outcome_simps Let_def split: option.split)
next
  case (RegisterWs slot hndl)
  with assms show ?thesis by (cases slot) (simp_all add: outcome_simps)
qed (use assms in \<open>auto simp: ws_op_defs outcome_simps Let_def split: option.split sum.split\<close>)

lemma send_to_handles: "List.map_filter (ws_handled connId) (send_to msg name conns) = []"
  by (induction conns) (auto simp: send_to_def split: option.split)

lemma ws_handles_step:
  assumes "ws_serves hdl connId s"
  shows "List.map_filter (ws_handled connId) (outs_of (ws_step s c)) = map msgPayload (List.map_filter (ws_arriving hdl) [c])"
proof (cases c)
  case (WsReports report)
  with assms show ?thesis by (cases report) (auto simp: ws_serves_def one_peer_def ws_op_defs outcome_simps Let_def
        dest: spec [of _ hdl] split: option.split)
next
  case (SendMessage msg name)
  then show ?thesis by (simp add: ws_sendMessage_def send_to_handles outcome_simps)
next
  case (ActivateWs doc reply)
  then show ?thesis by (auto simp: ws_activate_def ws_start_def Let_def outcome_simps split: sum.split option.split)
next
  case (RegisterWs slot hndl)
  then show ?thesis by (simp add: outcome_simps)
qed (auto simp: ws_start_def ws_stop_def ws_deactivate_def ws_attach_def ws_detach_def outcome_simps comp_def
    List.map_filter_def split: option.split)

lemma ws_link_step:
  assumes "ws_serves hdl connId s" and "keeps_peer hdl connId c \<and> \<not> drops_texts c"
  shows "ws_serves hdl connId (state_of (ws_step s c))"
  using assms ws_serves_step [of s c] one_peer_step [of hdl connId s c] by (simp add: ws_serves_def del: ws_step.simps)

interpretation ws_link: message_link
    wsc_step "same_connection con" "\<lambda>s. m_connection_hdl s = Some con"
    ws_step "\<lambda>c. keeps_peer hdl connId c \<and> \<not> drops_texts c" "ws_serves hdl connId"
    wsc_accepted "\<lambda>_. []" "wsc_sent con" "ws_arriving hdl" msgPayload "ws_handled connId"
  for con hdl connId
  by unfold_locales (simp_all only: wsc_link_step ws_link_step ws_handles_step append_Nil append_Nil2 simp_thms)

section \<open>From the server to the client\<close>

text \<open>The server as long as it is started; the peer has a name that is not the one of everybody.\<close>

definition ws_speaks :: "connection_hdl \<Rightarrow> string \<Rightarrow> 'h ws_service \<Rightarrow> bool" where
  "ws_speaks hdl connId s \<longleftrightarrow> one_peer hdl connId s \<and> connId \<noteq> [] \<and> m_runThd s"

text \<open>What is sent to this peer, by its name or to everybody, and what the service hands on for it.\<close>

fun ws_accepted :: "string \<Rightarrow> 'h ws_call \<Rightarrow> string option" where
  "ws_accepted connId (SendMessage msg name) = (if name = [] \<or> name = connId then Some msg else None)"
| "ws_accepted connId c = None"

fun ws_sent :: "connection_hdl \<Rightarrow> 'h ws_out \<Rightarrow> string option" where
  "ws_sent hdl (WsSend h msg) = (if h = hdl then Some msg else None)"
| "ws_sent hdl out = None"

text \<open>The client takes texts of any handle.\<close>

fun wsc_arriving :: "'h wsc_call \<Rightarrow> string option" where
  "wsc_arriving (OnMessage hdl payload) = Some payload"
| "wsc_arriving c = None"

fun wsc_handled :: "'h wsc_out \<Rightarrow> string option" where
  "wsc_handled (WscMessageStr h payload) = Some payload"
| "wsc_handled out = None"

fun wsc_drops_texts :: "'h wsc_call \<Rightarrow> bool" where
  "wsc_drops_texts (Register slot hndl) = (slot = WscMessageStrSlot \<and> hndl = None)"
| "wsc_drops_texts c = False"

lemma broadcast_reaches:
  "sm_inv conns \<Longrightarrow> List.map_filter (ws_sent hdl) (map (\<lambda>it. WsSend (fst it) msg) conns)
     = (if sm_find conns hdl = None then [] else [msg])"
proof (induction conns)
  case (Cons it conns)
  then have "sm_find conns hdl = None" if "fst it = hdl"
    using that by (auto simp: sm_inv_Cons sm_find_None sm_keys_def)
  with Cons show ?case by (cases it) (auto simp: sm_inv_Cons)
qed simp

lemma sent_to_peer:
  assumes "one_peer hdl connId s" and "connId \<noteq> []"
  shows "List.map_filter (ws_sent hdl) (send_to msg name (m_connectionsStrMap s))
    = (if name = [] \<or> name = connId then [msg] else [])"
proof -
  have inv: "sm_inv (m_connectionsStrMap s)" using assms(1) by (simp add: one_peer_def ws_inv_def)
  have peer: "(h, connId) \<in> set (m_connectionsStrMap s) \<longleftrightarrow> h = hdl" for h
    using assms(1) by (simp add: one_peer_def getConnId_def sm_find_Some [OF inv])
  show ?thesis
  proof (cases "name = []")
    case True
    have "sm_find (m_connectionsStrMap s) hdl \<noteq> None"
      using assms(1) by (auto simp: one_peer_def getConnId_def)
    with True show ?thesis by (simp add: send_to_def broadcast_reaches [OF inv])
  next
    case False
    show ?thesis
    proof (cases "getHndl name (m_connectionsStrMap s)")
      case None
      have "connId \<in> snd ` set (m_connectionsStrMap s)" using peer [of hdl] by force
      with None have "name \<noteq> connId" by (auto simp: getHndl_None)
      with None False show ?thesis by (simp add: send_to_def)
    next
      case (Some h)
      note found = getHndl_Some [OF Some]
      have "h = hdl \<longleftrightarrow> name = connId"
        using found peer [of h] peer [of hdl] sm_find_Some [OF inv, of hdl] by (metis option.inject)
      with Some False show ?thesis by (simp add: send_to_def)
    qed
  qed
qed

lemma ws_speaks_step:
  assumes "ws_speaks hdl connId s" and "keeps_peer hdl connId c"
  shows "ws_speaks hdl connId (state_of (ws_step s c))"
    and "List.map_filter (ws_sent hdl) (outs_of (ws_step s c)) = List.map_filter (ws_accepted connId) [c]"
proof -
  have "m_runThd (state_of (ws_step s c))
    \<and> List.map_filter (ws_sent hdl) (outs_of (ws_step s c)) = List.map_filter (ws_accepted connId) [c]"
  proof (cases c)
    case (WsReports report)
    with assms show ?thesis by (cases report) (auto simp: ws_speaks_def ws_op_defs outcome_simps Let_def split: option.split)
  next
    case (SendMessage msg name)
    with assms show ?thesis by (simp add: ws_speaks_def ws_sendMessage_def sent_to_peer [of hdl connId s] outcome_simps)
  next
    case (RegisterWs slot hndl)
    with assms show ?thesis by (cases slot) (simp_all add: ws_speaks_def outcome_simps)
  qed (use assms in \<open>auto simp: ws_speaks_def ws_activate_def ws_configure_def ws_start_def ws_attach_def ws_detach_def
      outcome_simps Let_def split: option.split sum.split\<close>)
  then show "ws_speaks hdl connId (state_of (ws_step s c))"
    and "List.map_filter (ws_sent hdl) (outs_of (ws_step s c)) = List.map_filter (ws_accepted connId) [c]"
    using assms one_peer_step [of hdl connId s c] by (simp_all add: ws_speaks_def del: ws_step.simps)
qed

lemma wsc_hears_step:
  assumes "Ws_Client.m_messageStrHandlerFunc s \<noteq> None" and "\<not> wsc_drops_texts c"
  shows "Ws_Client.m_messageStrHandlerFunc (state_of (wsc_step s c)) \<noteq> None"
    and "List.map_filter wsc_handled (outs_of (wsc_step s c)) = List.map_filter wsc_arriving [c]"
proof -
  have returns: "List.map_filter wsc_handled (map WscConnectReturns cons) = []" for cons
    by (induction cons) simp_all
  have "Ws_Client.m_messageStrHandlerFunc (state_of (wsc_step s c)) \<noteq> None
    \<and> List.map_filter wsc_handled (outs_of (wsc_step s c)) = List.map_filter wsc_arriving [c]"
  proof (cases c)
    case (Register slot hndl)
    with assms show ?thesis by (cases slot) (simp_all add: outcome_simps)
  qed (use assms in \<open>auto simp: wsc_op_defs outcome_simps returns split: option.split\<close>)
  then show "Ws_Client.m_messageStrHandlerFunc (state_of (wsc_step s c)) \<noteq> None"
    and "List.map_filter wsc_handled (outs_of (wsc_step s c)) = List.map_filter wsc_arriving [c]"
    by blast+
qed

interpretation ws_answer: message_link
    ws_step "keeps_peer hdl connId" "ws_speaks hdl connId"
    wsc_step "\<lambda>c. \<not> wsc_drops_texts c" "\<lambda>s. Ws_Client.m_messageStrHandlerFunc s \<noteq> None"
    "ws_accepted connId" "\<lambda>_. []" "ws_sent hdl" wsc_arriving "\<lambda>m. m" wsc_handled
  for hdl connId
  by unfold_locales
     (simp_all only: ws_speaks_step wsc_hears_step append_Nil append_Nil2 list.map_ident not_False_eq_True)

section \<open>Properties\<close>

text \<open>
  C20: what the client sends its server hears, cut at zero bytes. Take any run of the client of
  \<^verbatim>\<open>WebsocketCppClientService\<close> on one connection, and any run of \<^verbatim>\<open>WebsocketCppService\<close> that keeps
  the peer of this connection, the only one of its name, in its table. If the texts that arrive are a
  first part of those the client handed to the library, the handler of the server gets, for this
  connection, a first part of the texts and byte messages sent by the clients of the client, in
  order, each of them up to its first zero byte.
\<close>

theorem ws_end_to_end:
  assumes "m_connection_hdl s = Some con" and "list_all (same_connection con) cs"
    and "ws_serves hdl connId t" and "list_all (\<lambda>c. keeps_peer hdl connId c \<and> \<not> drops_texts c) ds"
    and "prefix (List.map_filter (ws_arriving hdl) ds) (List.map_filter (wsc_sent con) (run_outs wsc_step s cs))"
  shows "prefix (List.map_filter (ws_handled connId) (run_outs ws_step t ds)) (map msgPayload (List.map_filter wsc_accepted cs))"
  using ws_link.end_to_end [OF assms] by simp

definition ws_serving :: "nat ws_service" where
  "ws_serving = ws_running\<lparr>m_connectionsStrMap := [(4, ''a''), (7, ''b'')], Ws_Service.m_messageStrHandlerFunc := Some 1\<rparr>"

theorem ws_end_to_end_witness:
  "List.map_filter (ws_handled ''b'') (run_outs ws_step ws_serving [WsReports (Received 7 ''hi''), WsReports (Received 4 ''x'')])
     = [''hi'']
   \<and> prefix [''hi''] (map msgPayload (List.map_filter wsc_accepted
       ([wsc_call.Send ''hi'', wsc_call.Ping, wsc_call.SendBytes ''yo''] :: nat wsc_call list)))"
proof -
  let ?s = "ws_client0\<lparr>m_connection_hdl := Some 3\<rparr> :: nat ws_client"
    and ?cs = "[wsc_call.Send ''hi'', wsc_call.Ping, wsc_call.SendBytes ''yo''] :: nat wsc_call list"
    and ?ds = "[WsReports (Received 7 ''hi''), WsReports (Received 4 ''x'')] :: nat ws_call list"
  have "List.map_filter (wsc_sent 3) (run_outs wsc_step ?s ?cs) = [''hi'', ''yo'']"
    by (simp add: wsc_op_defs ws_client0_def outcome_simps)
  moreover have "ws_serves 7 ''b'' ws_serving"
    by (simp add: ws_serves_def one_peer_def ws_serving_def ws_running_def ws_inv_def sm_inv_Cons getConnId_def)
  ultimately have "prefix (List.map_filter (ws_handled ''b'') (run_outs ws_step ws_serving ?ds))
      (map msgPayload (List.map_filter wsc_accepted ?cs))"
    using ws_end_to_end [of ?s 3 ?cs 7 "''b''" ws_serving ?ds] by (simp del: ws_step.simps wsc_step.simps)
  moreover have "List.map_filter (ws_handled ''b'') (run_outs ws_step ws_serving ?ds) = [''hi'']"
    by (simp add: ws_serving_def ws_running_def ws_service0_def ws_on_message_def getConnId_def msgPayload_def
        of_c_str_no_zero outcome_simps)
  ultimately show ?thesis by simp
qed

text \<open>
  C21: What the server sends its peer hears, in order. Take any run of a started \<^verbatim>\<open>WebsocketCppService\<close>
  that keeps the peer, the only one of its name, and any run of a client with a handler for texts. If
  the texts that arrive are some of those the service handed to the endpoint for this peer, in their
  order (the endpoint may refuse one), the handler of the client gets some of the texts that were
  sent to the peer's name or to everybody, in their order, and nothing that was sent to others only.
\<close>

theorem ws_answer_end_to_end:
  assumes "ws_speaks hdl connId s" and "list_all (keeps_peer hdl connId) cs"
    and "Ws_Client.m_messageStrHandlerFunc t \<noteq> None" and "list_all (\<lambda>c. \<not> wsc_drops_texts c) ds"
    and "subseq (List.map_filter wsc_arriving ds) (List.map_filter (ws_sent hdl) (run_outs ws_step s cs))"
  shows "subseq (List.map_filter wsc_handled (run_outs wsc_step t ds)) (List.map_filter (ws_accepted connId) cs)"
  using ws_answer.end_to_end_lossy [OF assms] by simp

theorem ws_answer_end_to_end_witness:
  "List.map_filter wsc_handled (run_outs wsc_step (ws_client0\<lparr>Ws_Client.m_messageStrHandlerFunc := Some (5 :: nat)\<rparr>)
     [OnMessage 3 ''all'', OnMessage 3 ''you'']) = [''all'', ''you'']
   \<and> subseq [''all'', ''you''] (List.map_filter (ws_accepted ''b'')
       ([SendMessage ''all'' [], SendMessage ''me'' ''a'', SendMessage ''lost'' ''b'', SendMessage ''you'' ''b''] :: nat ws_call list))"
proof -
  let ?t = "ws_client0\<lparr>Ws_Client.m_messageStrHandlerFunc := Some 5\<rparr> :: nat ws_client"
    and ?ds = "[OnMessage 3 ''all'', OnMessage 3 ''you''] :: nat wsc_call list"
    and ?cs = "[SendMessage ''all'' [], SendMessage ''me'' ''a'', SendMessage ''lost'' ''b'', SendMessage ''you'' ''b''] :: nat ws_call list"
  have "List.map_filter (ws_sent 7) (run_outs ws_step ws_serving ?cs) = [''all'', ''lost'', ''you'']"
    by (simp add: ws_serving_def ws_running_def ws_sendMessage_def send_to_def outcome_simps)
  moreover have "ws_speaks 7 ''b'' ws_serving"
    by (simp add: ws_speaks_def one_peer_def ws_serving_def ws_running_def ws_inv_def sm_inv_Cons getConnId_def)
  ultimately have "subseq (List.map_filter wsc_handled (run_outs wsc_step ?t ?ds)) (List.map_filter (ws_accepted ''b'') ?cs)"
    using ws_answer_end_to_end [of 7 "''b''" ws_serving ?cs ?t ?ds] by (simp del: ws_step.simps wsc_step.simps)
  moreover have "List.map_filter wsc_handled (run_outs wsc_step ?t ?ds) = [''all'', ''you'']"
    by (simp add: ws_client0_def wsc_on_message_def outcome_simps)
  ultimately show ?thesis by simp
qed

end
