(* ===== verification/Ws_Stop.thy ===== *)
theory Ws_Stop
  imports Ws_Service
begin

text \<open>
  \<^verbatim>\<open>stop\<close> and \<^verbatim>\<open>runThd\<close> of \<^verbatim>\<open>src/WebsocketCppService/WebsocketCppService.cpp\<close> on their threads.
  \<open>Ws_Service\<close> takes a stop as one operation. Here it is a sequence of steps, between which the
  endpoint, whose handlers run on the thread of \<^verbatim>\<open>runThd\<close>, reports what happens to connections.
\<close>

section \<open>Threads\<close>

text \<open>
  Points of \<^verbatim>\<open>stop\<close>: not running, before \<^verbatim>\<open>is_listening\<close>, before the copy of the table, with
  connections still to close, at the join. Points of \<^verbatim>\<open>runThd\<close>: no thread, the loop condition,
  in \<^verbatim>\<open>run\<close>, its end, and the end of the process.
\<close>

datatype stop_pc = S_None | S_Listen | S_Copy | S_Close "(connection_hdl, string) std_map" | S_Join

datatype run_pc = R_None | R_Loop | R_Run | R_Done | R_Terminated

record 'h ws_threads =
  ws_imp :: "'h ws_service"
  ws_stop_pc :: stop_pc
  ws_thd :: run_pc

type_synonym 'h ws_thr_outcome = "(ws_error, unit, 'h ws_out, 'h ws_threads) outcome"

text \<open>One step of \<^verbatim>\<open>stop\<close>, with the answer of \<^verbatim>\<open>is_listening\<close>; the join waits for the thread.\<close>

fun stop_step :: "bool \<Rightarrow> stop_pc \<Rightarrow> 'h ws_threads \<Rightarrow> 'h ws_thr_outcome" where
  "stop_step is_listening S_None s = returns () (if m_runThd (ws_imp s)
     then s\<lparr>ws_imp := (ws_imp s)\<lparr>m_runThd := False\<rparr>, ws_stop_pc := S_Listen\<rparr> else s)"
| "stop_step is_listening S_Listen s =
     emits (if is_listening then [WsStopListening] else []) (s\<lparr>ws_stop_pc := S_Copy\<rparr>)"
| "stop_step is_listening S_Copy s = returns () (s\<lparr>ws_stop_pc := S_Close (m_connectionsStrMap (ws_imp s))\<rparr>)"
| "stop_step is_listening (S_Close (con # cons)) s =
     emits [WsClose (fst con) (snd con) close_data] (s\<lparr>ws_stop_pc := S_Close cons\<rparr>)"
| "stop_step is_listening (S_Close []) s = returns ()
     (s\<lparr>ws_imp := (ws_imp s)\<lparr>m_connectionsStrMap := []\<rparr>, ws_stop_pc := S_Join\<rparr>)"
| "stop_step is_listening S_Join s = returns () (if ws_thd s = R_None \<or> ws_thd s = R_Done
     then s\<lparr>ws_stop_pc := S_None, ws_thd := R_None\<rparr> else s)"

text \<open>
  One step of the thread, with how \<^verbatim>\<open>run\<close> ends if it is in it. An exception of another type than
  the one caught ends the process.
\<close>

datatype run_answer = RunReturns | RunThrows | RunThrowsOther

fun run_step :: "run_answer \<Rightarrow> run_pc \<Rightarrow> 'h ws_threads \<Rightarrow> 'h ws_thr_outcome" where
  "run_step answer R_Loop s = returns () (s\<lparr>ws_thd := if m_runThd (ws_imp s) then R_Run else R_Done\<rparr>)"
| "run_step answer R_Run s = returns () (s\<lparr>ws_thd := if answer = RunThrowsOther then R_Terminated else R_Loop\<rparr>)"
| "run_step answer pc s = returns () s"

text \<open>
  An operation of the service. Assigning a thread to a \<^verbatim>\<open>std::thread\<close> that is still joinable
  ends the process.
\<close>

definition on_service :: "'h ws_call \<Rightarrow> 'h ws_threads \<Rightarrow> 'h ws_thr_outcome" where
  "on_service c s = (let r = ws_step (ws_imp s) c in
     (result_of r, outs_of r, s\<lparr>ws_imp := state_of r, ws_thd := if WsRunThread \<notin> set (outs_of r) then ws_thd s
        else if ws_thd s = R_None then R_Loop else R_Terminated\<rparr>))"

text \<open>
  What clients call, what the endpoint reports from within \<^verbatim>\<open>run\<close>, and the steps of \<^verbatim>\<open>stop\<close>, called
  by one client at a time, and of the thread.
\<close>

datatype 'h ws_act =
    StartCalled listen_reply
  | SendCalled string string
  | RegisterCalled ws_slot "'h option"
  | Reported ws_report
  | StopGoes bool
  | RunGoes run_answer

fun ws_thr_step :: "'h ws_threads \<Rightarrow> 'h ws_act \<Rightarrow> 'h ws_thr_outcome" where
  "ws_thr_step s (StartCalled reply) = (if ws_thd s = R_Terminated then returns () s else on_service (Start reply) s)"
| "ws_thr_step s (SendCalled msg connId) =
     (if ws_thd s = R_Terminated then returns () s else on_service (SendMessage msg connId) s)"
| "ws_thr_step s (RegisterCalled slot hndl) =
     (if ws_thd s = R_Terminated then returns () s else on_service (RegisterWs slot hndl) s)"
| "ws_thr_step s (Reported report) = (if ws_thd s = R_Run then on_service (WsReports report) s else returns () s)"
| "ws_thr_step s (StopGoes is_listening) =
     (if ws_thd s = R_Terminated then returns () s else stop_step is_listening (ws_stop_pc s) s)"
| "ws_thr_step s (RunGoes answer) = run_step answer (ws_thd s) s"

section \<open>A stop that nobody interrupts\<close>

lemma stop_closes:
  "ws_stop_pc s = S_Close cons \<Longrightarrow> ws_thd s \<noteq> R_Terminated \<Longrightarrow>
   run_outs ws_thr_step s (replicate (Suc (length cons)) (StopGoes l))
     = map (\<lambda>con. WsClose (fst con) (snd con) close_data) cons
   \<and> run_calls ws_thr_step s (replicate (Suc (length cons)) (StopGoes l))
     = s\<lparr>ws_imp := (ws_imp s)\<lparr>m_connectionsStrMap := []\<rparr>, ws_stop_pc := S_Join\<rparr>"
proof (induction cons arbitrary: s)
  case (Cons con cons)
  then show ?case using Cons.IH [of "s\<lparr>ws_stop_pc := S_Close cons\<rparr>"] by (simp add: outcome_simps)
qed (simp add: outcome_simps)

section \<open>The flag and the threads\<close>

definition ws_threads_inv :: "'h ws_threads \<Rightarrow> bool" where
  "ws_threads_inv s \<longleftrightarrow> ws_thd s = R_Terminated
     \<or> (if ws_stop_pc s = S_None then (if m_runThd (ws_imp s) then ws_thd s \<in> {R_Loop, R_Run} else ws_thd s = R_None)
        else \<not> m_runThd (ws_imp s) \<and> ws_thd s \<noteq> R_None)"

text \<open>What the operations do to the flag and to the thread.\<close>

lemma on_service_frame:
  "ws_stop_pc (state_of (on_service c s)) = ws_stop_pc s"
  "ws_imp (state_of (on_service c s)) = state_of (ws_step (ws_imp s) c)"
  "outs_of (on_service c s) = outs_of (ws_step (ws_imp s) c)"
  by (simp_all add: on_service_def Let_def)

lemma quiet_operations:
  "WsRunThread \<notin> set (outs_of (ws_step s (WsReports report)))"
  "m_runThd (state_of (ws_step s (WsReports report))) = m_runThd s"
  "WsRunThread \<notin> set (outs_of (ws_step s (SendMessage msg connId)))"
  "state_of (ws_step s (SendMessage msg connId)) = s"
  "WsRunThread \<notin> set (outs_of (ws_step s (RegisterWs slot hndl)))"
  "m_runThd (state_of (ws_step s (RegisterWs slot hndl))) = m_runThd s"
  "m_connectionsStrMap (state_of (ws_step s (RegisterWs slot hndl))) = m_connectionsStrMap s"
proof -
  show "WsRunThread \<notin> set (outs_of (ws_step s (WsReports report)))"
    and "m_runThd (state_of (ws_step s (WsReports report))) = m_runThd s"
    by (cases report; auto simp: ws_op_defs outcome_simps Let_def split: option.split)+
  show "WsRunThread \<notin> set (outs_of (ws_step s (SendMessage msg connId)))"
    and "state_of (ws_step s (SendMessage msg connId)) = s"
    by (auto simp: ws_sendMessage_def send_to_def outcome_simps split: option.split)
  show "WsRunThread \<notin> set (outs_of (ws_step s (RegisterWs slot hndl)))"
    and "m_runThd (state_of (ws_step s (RegisterWs slot hndl))) = m_runThd s"
    and "m_connectionsStrMap (state_of (ws_step s (RegisterWs slot hndl))) = m_connectionsStrMap s"
    by (cases slot; simp add: outcome_simps)+
qed

lemma on_service_quiet:
  "ws_thd (state_of (on_service (WsReports report) s)) = ws_thd s"
  "ws_thd (state_of (on_service (SendMessage msg connId) s)) = ws_thd s"
  "ws_thd (state_of (on_service (RegisterWs slot hndl) s)) = ws_thd s"
  by (simp_all add: on_service_def Let_def quiet_operations del: ws_step.simps)

lemma started_thread:
  "ws_thd (state_of (on_service (Start reply) s)) = (if m_server (ws_imp s) = None \<or> m_runThd (ws_imp s) then ws_thd s
     else if ws_thd s = R_None then R_Loop else R_Terminated)"
  "m_runThd (state_of (ws_step t (Start reply))) = (m_server t \<noteq> None \<or> m_runThd t)"
  "m_connectionsStrMap (state_of (ws_step t (Start reply))) = m_connectionsStrMap t"
  by (auto simp: on_service_def ws_start_def Let_def outcome_simps split: option.split)

lemmas thr_frame = on_service_frame on_service_quiet quiet_operations started_thread

lemma stop_step_inv:
  "ws_threads_inv s \<Longrightarrow> ws_thd s \<noteq> R_Terminated \<Longrightarrow> ws_threads_inv (state_of (stop_step l (ws_stop_pc s) s))"
proof (cases "ws_stop_pc s")
  case (S_Close cons)
  then show "ws_threads_inv s \<Longrightarrow> ws_thd s \<noteq> R_Terminated \<Longrightarrow> ?thesis"
    by (cases cons) (auto simp: ws_threads_inv_def outcome_simps)
qed (auto simp: ws_threads_inv_def outcome_simps)

lemma ws_threads_step: "ws_threads_inv s \<Longrightarrow> ws_threads_inv (state_of (ws_thr_step s a))"
proof (cases a)
  case (StopGoes l)
  then show "ws_threads_inv s \<Longrightarrow> ?thesis" by (simp add: stop_step_inv outcome_simps)
next
  case (RunGoes answer)
  then show "ws_threads_inv s \<Longrightarrow> ?thesis"
    by (cases "ws_thd s") (auto simp: ws_threads_inv_def outcome_simps)
qed (auto simp: ws_threads_inv_def thr_frame outcome_simps simp del: ws_step.simps split: if_splits)

interpretation ws_threads: call_sequence ws_thr_step "\<lambda>_. True" ws_threads_inv
  by unfold_locales (rule ws_threads_step)

section \<open>A connection opened while the service stops\<close>

text \<open>
  After the copy, until the thread leaves \<^verbatim>\<open>run\<close>: this connection is not one of those to close,
  and once the table is cleared it is not in it.
\<close>

definition left_open :: "connection_hdl \<Rightarrow> 'h ws_threads \<Rightarrow> bool" where
  "left_open hdl s \<longleftrightarrow> (ws_thd s = R_Run \<or> ws_thd s = R_Terminated)
     \<and> (case ws_stop_pc s of S_Close cons \<Rightarrow> hdl \<notin> fst ` set cons
        | S_Join \<Rightarrow> sm_find (m_connectionsStrMap (ws_imp s)) hdl = None | _ \<Rightarrow> False)"

fun elsewhere :: "connection_hdl \<Rightarrow> 'h ws_act \<Rightarrow> bool" where
  "elsewhere hdl (Reported (Opened h p)) = (h \<noteq> hdl)"
| "elsewhere hdl (RunGoes answer) = False"
| "elsewhere hdl a = True"

fun not_closing :: "connection_hdl \<Rightarrow> 'h ws_out \<Rightarrow> bool" where
  "not_closing hdl (WsClose h descr data) = (h \<noteq> hdl)"
| "not_closing hdl out = True"

lemma not_closing_operations:
  "list_all (not_closing hdl) (outs_of (ws_step s (WsReports report)))"
  "list_all (not_closing hdl) (outs_of (ws_step s (SendMessage msg connId)))"
  "list_all (not_closing hdl) (outs_of (ws_step s (RegisterWs slot hndl)))"
  "list_all (not_closing hdl) (outs_of (ws_step s (Start reply)))"
proof -
  show "list_all (not_closing hdl) (outs_of (ws_step s (WsReports report)))"
    by (cases report; simp add: ws_op_defs outcome_simps Let_def split: option.split)
  show "list_all (not_closing hdl) (outs_of (ws_step s (SendMessage msg connId)))"
    by (auto simp: ws_sendMessage_def send_to_def outcome_simps list_all_iff split: option.split)
  show "list_all (not_closing hdl) (outs_of (ws_step s (RegisterWs slot hndl)))"
    by (simp add: outcome_simps)
  show "list_all (not_closing hdl) (outs_of (ws_step s (Start reply)))"
    by (simp add: ws_start_def outcome_simps split: option.split)
qed

lemma elsewhere_table:
  assumes "elsewhere hdl (Reported report)" and "ws_inv s" and "sm_find (m_connectionsStrMap s) hdl = None"
  shows "sm_find (m_connectionsStrMap (state_of (ws_step s (WsReports report)))) hdl = None"
  using assms by (cases report) (auto simp: ws_op_defs ws_inv_def sm_find_insert sm_find_erase outcome_simps Let_def
    split: option.split)

definition left_open_inv :: "connection_hdl \<Rightarrow> 'h ws_threads \<Rightarrow> bool" where
  "left_open_inv hdl s \<longleftrightarrow> left_open hdl s \<and> ws_threads_inv s \<and> ws_inv (ws_imp s)"

lemma left_open_step:
  assumes "left_open_inv hdl s" and "elsewhere hdl a"
  shows "left_open_inv hdl (state_of (ws_thr_step s a))"
    and "list_all (not_closing hdl) (outs_of (ws_thr_step s a))"
proof -
  have inv: "ws_inv (ws_imp s)" "ws_threads_inv s" "left_open hdl s"
    using assms(1) by (simp_all add: left_open_inv_def)
  show "list_all (not_closing hdl) (outs_of (ws_thr_step s a))"
  proof (cases a)
    case (StopGoes l)
    show ?thesis
    proof (cases "ws_stop_pc s")
      case (S_Close cons)
      with StopGoes inv(3) show ?thesis by (cases cons) (auto simp: left_open_def outcome_simps)
    qed (simp_all add: StopGoes outcome_simps)
  next
    case (RunGoes answer)
    with assms(2) show ?thesis by simp
  qed (simp_all add: on_service_frame not_closing_operations outcome_simps del: ws_step.simps)
  have "ws_inv (ws_imp (state_of (ws_thr_step s a)))"
  proof (cases a)
    case (StopGoes l)
    have "ws_inv (ws_imp (state_of (stop_step l pc s)))" for pc
      by (cases "(l, pc, s)" rule: stop_step.cases) (use inv(1) in \<open>auto simp: ws_inv_def outcome_simps\<close>)
    with StopGoes inv(1) show ?thesis by (simp add: outcome_simps)
  next
    case (RunGoes answer)
    with assms(2) show ?thesis by simp
  qed (use inv(1) in \<open>simp_all add: on_service_frame ws_step_inv outcome_simps del: ws_step.simps\<close>)
  moreover have "left_open hdl (state_of (ws_thr_step s a))"
  proof (cases a)
    case (StopGoes l)
    show ?thesis
    proof (cases "ws_stop_pc s")
      case (S_Close cons)
      with StopGoes inv(3) show ?thesis by (cases cons) (auto simp: left_open_def outcome_simps)
    qed (use StopGoes inv(3) in \<open>auto simp: left_open_def outcome_simps\<close>)
  next
    case (RunGoes answer)
    with assms(2) show ?thesis by simp
  next
    case (Reported report)
    with inv assms(2) elsewhere_table [of hdl report "ws_imp s"] show ?thesis
      by (auto simp: left_open_def thr_frame outcome_simps simp del: ws_step.simps split: stop_pc.splits)
  qed (use inv in \<open>auto simp: left_open_def ws_threads_inv_def thr_frame outcome_simps
      simp del: ws_step.simps split: stop_pc.splits\<close>)
  ultimately show "left_open_inv hdl (state_of (ws_thr_step s a))"
    using ws_threads_step [OF inv(2)] by (simp add: left_open_inv_def)
qed

interpretation left_open: observed_sequence ws_thr_step "elsewhere hdl" "left_open_inv hdl" "not_closing hdl" for hdl
  by unfold_locales (simp_all only: left_open_step)

section \<open>A stop whose thread has ended\<close>

text \<open>What a stop has left to do when the thread has ended.\<close>

fun stop_remaining :: "stop_pc \<Rightarrow> (connection_hdl, string) std_map \<Rightarrow> nat" where
  "stop_remaining S_None conns = 0"
| "stop_remaining S_Listen conns = 4 + length conns"
| "stop_remaining S_Copy conns = 3 + length conns"
| "stop_remaining (S_Close cons) conns = 2 + length cons"
| "stop_remaining S_Join conns = 1"

definition ending :: "'h ws_threads \<Rightarrow> bool" where
  "ending s \<longleftrightarrow> \<not> m_runThd (ws_imp s) \<and> ws_thd s = (if ws_stop_pc s = S_None then R_None else R_Done)"

fun starts :: "'h ws_act \<Rightarrow> bool" where
  "starts (StartCalled reply) = True"
| "starts a = False"

fun stop_goes :: "'h ws_act \<Rightarrow> bool" where
  "stop_goes (StopGoes l) = True"
| "stop_goes a = False"

abbreviation left_to_do :: "'h ws_threads \<Rightarrow> nat" where
  "left_to_do s \<equiv> stop_remaining (ws_stop_pc s) (m_connectionsStrMap (ws_imp s))"

lemma ending_stop_step:
  assumes "ending s"
  shows "ending (state_of (stop_step l (ws_stop_pc s) s))"
    and "left_to_do (state_of (stop_step l (ws_stop_pc s) s)) = left_to_do s - 1"
proof -
  have "ending (state_of (stop_step l (ws_stop_pc s) s))
    \<and> left_to_do (state_of (stop_step l (ws_stop_pc s) s)) = left_to_do s - 1"
  proof (cases "ws_stop_pc s")
    case (S_Close cons)
    with assms show ?thesis by (cases cons) (auto simp: ending_def outcome_simps)
  qed (use assms in \<open>auto simp: ending_def outcome_simps\<close>)
  then show "ending (state_of (stop_step l (ws_stop_pc s) s))"
    and "left_to_do (state_of (stop_step l (ws_stop_pc s) s)) = left_to_do s - 1" by blast+
qed

lemma ending_step:
  assumes "ending s" and "\<not> starts a"
  shows "ending (state_of (ws_thr_step s a))"
    and "left_to_do (state_of (ws_thr_step s a)) = left_to_do s - (if stop_goes a then 1 else 0)"
proof -
  have alive: "ws_thd s \<noteq> R_Terminated" "ws_thd s \<noteq> R_Run" "ws_thd s \<noteq> R_Loop"
    using assms(1) by (auto simp: ending_def)
  have "ending (state_of (ws_thr_step s a))
    \<and> left_to_do (state_of (ws_thr_step s a)) = left_to_do s - (if stop_goes a then 1 else 0)"
  proof (cases a)
    case (StopGoes l)
    with ending_stop_step [OF assms(1), of l] alive show ?thesis by simp
  next
    case (RunGoes answer)
    with assms(1) alive show ?thesis by (cases "ws_thd s") (simp_all add: outcome_simps)
  qed (use assms alive in \<open>auto simp: ending_def thr_frame outcome_simps simp del: ws_step.simps\<close>)
  then show "ending (state_of (ws_thr_step s a))"
    and "left_to_do (state_of (ws_thr_step s a)) = left_to_do s - (if stop_goes a then 1 else 0)" by blast+
qed

lemma ending_run:
  "ending s \<Longrightarrow> list_all (\<lambda>a. \<not> starts a) as \<Longrightarrow>
   ending (run_calls ws_thr_step s as) \<and> left_to_do (run_calls ws_thr_step s as) = left_to_do s - count_if stop_goes as"
proof (induction as arbitrary: s)
  case (Cons a as)
  then have "ending (state_of (ws_thr_step s a))"
    and "left_to_do (state_of (ws_thr_step s a)) = left_to_do s - (if stop_goes a then 1 else 0)"
    by (simp_all add: ending_step del: ws_thr_step.simps)
  with Cons.IH [of "state_of (ws_thr_step s a)"] Cons.prems(2) show ?case
    by (simp del: ws_thr_step.simps)
qed simp

section \<open>Properties\<close>

text \<open>
  A stop left alone is the stop of the service. From a started service whose thread runs, the
  steps of \<^verbatim>\<open>stop\<close> with nothing in between tell the endpoint what \<open>ws_stop\<close> does and leave the
  service as it does, at the join; the join returns as soon as \<^verbatim>\<open>run\<close> has ended and the thread
  has looked at the flag.
\<close>

theorem ws_stop_threads_refine:
  assumes "ws_stop_pc s = S_None" and "ws_thd s = R_Run" and "m_runThd (ws_imp s)" and "answer \<noteq> RunThrowsOther"
  shows "let stops = replicate (4 + length (m_connectionsStrMap (ws_imp s))) (StopGoes l);
      t = run_calls ws_thr_step s stops;
      u = run_calls ws_thr_step t [RunGoes answer, RunGoes answer, StopGoes l]
    in run_outs ws_thr_step s stops = outs_of (ws_stop l (ws_imp s))
      \<and> ws_imp t = state_of (ws_stop l (ws_imp s)) \<and> ws_stop_pc t = S_Join
      \<and> u = s\<lparr>ws_imp := ws_imp t, ws_thd := R_None\<rparr>"
proof -
  let ?con = "m_connectionsStrMap (ws_imp s)"
  let ?s3 = "s\<lparr>ws_imp := (ws_imp s)\<lparr>m_runThd := False\<rparr>, ws_stop_pc := S_Close ?con\<rparr>"
  have split: "replicate (4 + length ?con) (StopGoes l) = replicate 3 (StopGoes l) @ replicate (Suc (length ?con)) (StopGoes l)"
    by (simp add: numeral_eq_Suc flip: replicate_add)
  have "run_calls ws_thr_step s (replicate 3 (StopGoes l)) = ?s3"
    "run_outs ws_thr_step s (replicate 3 (StopGoes l)) = (if l then [WsStopListening] else [])"
    using assms(1-3) by (simp_all add: numeral_3_eq_3 outcome_simps)
  moreover have "ws_stop_pc ?s3 = S_Close ?con" "ws_thd ?s3 \<noteq> R_Terminated" using assms(2) by simp_all
  note stop_closes [OF this, of l]
  ultimately show ?thesis using assms
    by (simp add: split run_calls_append run_outs_append ws_stop_def outcome_simps Let_def
        del: replicate.simps)
qed

definition ws_live :: "nat ws_threads" where
  "ws_live = \<lparr>ws_imp = ws_running\<lparr>m_connectionsStrMap := [(4, ''a'')], m_openHandlerFunc := Some 8\<rparr>,
     ws_stop_pc = S_None, ws_thd = R_Run\<rparr>"

theorem ws_stop_threads_refine_witness:
  "run_outs ws_thr_step ws_live (replicate 5 (StopGoes True)) = [WsStopListening, WsClose 4 ''a'' close_data]"
  using ws_stop_threads_refine [of ws_live RunReturns True]
  by (simp add: ws_live_def ws_running_def ws_stop_def outcome_simps Let_def del: ws_thr_step.simps replicate.simps)

text \<open>
  C23: a stop returns once \<^verbatim>\<open>run\<close> has ended. When the thread of a stopping service has left its loop,
  then after as many steps of the stop as it has left, at most four and one for each connection, and
  whatever clients call in between other than \<^verbatim>\<open>start\<close>, the stop has returned and joined the thread.
\<close>

theorem ws_stop_returns:
  assumes "ws_threads_inv s" and "ws_stop_pc s \<noteq> S_None" and "ws_thd s = R_Done"
    and "list_all (\<lambda>a. \<not> starts a) as"
    and "stop_remaining (ws_stop_pc s) (m_connectionsStrMap (ws_imp s)) \<le> count_if stop_goes as"
  shows "let t = run_calls ws_thr_step s as in ws_stop_pc t = S_None \<and> ws_thd t = R_None \<and> \<not> isStarted (ws_imp t)"
proof -
  have "ending s" using assms(1-3) by (simp add: ws_threads_inv_def ending_def)
  note ran = ending_run [OF this assms(4)]
  moreover have "ws_stop_pc t = S_None" if "left_to_do t = 0" for t :: "'a ws_threads"
    using that by (cases "ws_stop_pc t") simp_all
  ultimately show ?thesis using assms(5) by (simp add: ending_def isStarted_def Let_def)
qed

theorem ws_stop_returns_witness:
  "let s = ws_live\<lparr>ws_imp := (ws_imp ws_live)\<lparr>m_runThd := False\<rparr>, ws_stop_pc := S_Copy, ws_thd := R_Done\<rparr>;
     t = run_calls ws_thr_step s [StopGoes True, StopGoes True, SendCalled ''m'' [], StopGoes True, StopGoes True]
   in ws_stop_pc t = S_None \<and> ws_thd t = R_None"
proof -
  let ?s = "ws_live\<lparr>ws_imp := (ws_imp ws_live)\<lparr>m_runThd := False\<rparr>, ws_stop_pc := S_Copy, ws_thd := R_Done\<rparr>"
  have "ws_threads_inv ?s" by (simp add: ws_threads_inv_def)
  from ws_stop_returns [OF this, of "[StopGoes True, StopGoes True, SendCalled ''m'' [], StopGoes True, StopGoes True]"]
  show ?thesis by (simp add: ws_live_def Let_def del: ws_thr_step.simps)
qed

text \<open>
  C22: a connection opened while the service stops is never closed, and blocks the stop. When a
  connection opens after \<^verbatim>\<open>stop\<close> has copied the table, its opening is reported to the clients; but
  whatever follows until \<^verbatim>\<open>run\<close> ends (which the library does not do while a connection is open),
  the endpoint is never told to close it and \<^verbatim>\<open>stop\<close> does not return. Once the table is cleared its
  messages reach nobody and its end is reported to nobody.
\<close>

theorem ws_stop_leaves_connection:
  assumes "ws_threads_inv s" and "ws_inv (ws_imp s)" and "ws_thd s = R_Run"
    and "ws_stop_pc s = S_Close cons" and "hdl \<notin> fst ` set cons"
    and "m_server (ws_imp s) \<noteq> None" and "m_openHandlerFunc (ws_imp s) = Some h"
    and "list_all (elsewhere hdl) cs"
  shows "let opened = ws_thr_step s (Reported (Opened hdl p)); t = run_calls ws_thr_step (state_of opened) cs
    in outs_of opened = [WsOpened h (cp_connId p)]
      \<and> list_all (not_closing hdl) (run_outs ws_thr_step (state_of opened) cs)
      \<and> ws_stop_pc t \<noteq> S_None
      \<and> (ws_stop_pc t = S_Join \<longrightarrow> outs_of (ws_thr_step t (Reported (Received hdl m))) = []
          \<and> outs_of (ws_thr_step t (Reported (Closed hdl))) = [])"
proof -
  let ?opened = "ws_thr_step s (Reported (Opened hdl p))"
  let ?t = "run_calls ws_thr_step (state_of ?opened) cs"
  have told: "outs_of ?opened = [WsOpened h (cp_connId p)]" "ws_stop_pc (state_of ?opened) = S_Close cons"
    "ws_thd (state_of ?opened) = R_Run" "ws_imp (state_of ?opened) = state_of (ws_step (ws_imp s) (WsReports (Opened hdl p)))"
    using assms(3-7) by (simp_all add: thr_frame del: ws_step.simps) (simp_all add: ws_on_open_def outcome_simps)
  have "left_open_inv hdl (state_of ?opened)"
    using told assms(5) ws_threads_step [OF assms(1)] ws_step_inv [OF assms(2)]
    by (simp add: left_open_inv_def left_open_def del: ws_thr_step.simps ws_step.simps)
  from left_open.run_keeps [OF this assms(8)] left_open.run_visible [OF this assms(8)]
  have t: "left_open hdl ?t" and quiet: "list_all (not_closing hdl) (run_outs ws_thr_step (state_of ?opened) cs)"
    by (simp_all add: left_open_inv_def)
  have "ws_stop_pc ?t \<noteq> S_None" using t by (auto simp: left_open_def)
  moreover have "outs_of (ws_thr_step ?t (Reported (Received hdl m))) = []
      \<and> outs_of (ws_thr_step ?t (Reported (Closed hdl))) = []" if "ws_stop_pc ?t = S_Join"
    using t that by (simp add: left_open_def on_service_frame ws_on_message_def ws_on_close_def getConnId_def
        outcome_simps Let_def)
  ultimately show ?thesis unfolding Let_def using told(1) quiet by blast
qed

theorem ws_stop_leaves_connection_witness:
  "let t = run_calls ws_thr_step ws_live (replicate 3 (StopGoes True) @ [Reported (Opened 7 (params_of ''b'')),
       StopGoes True, StopGoes True, StopGoes True])
   in ws_stop_pc t \<noteq> S_None \<and> outs_of (ws_thr_step t (Reported (Received 7 ''m''))) = []"
proof -
  let ?s = "run_calls ws_thr_step ws_live (replicate 3 (StopGoes True))"
  have s: "?s = ws_live\<lparr>ws_imp := (ws_imp ws_live)\<lparr>m_runThd := False\<rparr>, ws_stop_pc := S_Close [(4, ''a'')]\<rparr>"
    by (simp add: numeral_3_eq_3 ws_live_def ws_running_def outcome_simps)
  have "ws_threads_inv ?s" "ws_inv (ws_imp ?s)"
    unfolding s by (simp_all add: ws_threads_inv_def ws_inv_def ws_live_def ws_running_def sm_inv_Cons)
  from ws_stop_leaves_connection [OF this, of "[(4, ''a'')]" 7 8 "[StopGoes True, StopGoes True, StopGoes True]"
      "params_of ''b''" "''m''"]
  show ?thesis
    unfolding run_calls_append s
    by (simp add: ws_live_def ws_running_def ws_service0_def Let_def thr_frame params_of_def ws_on_open_def
        outcome_simps on_service_def)
qed

text \<open>
  C24: the flag and the thread agree, and a start during a stop ends the process. From a service
  without a thread, over any run of calls, reports and steps of the threads in any order, unless the
  process has ended: while no stop runs, the service is started exactly when it has its thread; and
  while one runs, a \<^verbatim>\<open>start\<close> assigns a thread to the one not yet joined.
\<close>

theorem ws_flag_matches_thread:
  assumes "\<not> m_runThd imp"
  shows "let s = run_calls ws_thr_step \<lparr>ws_imp = imp, ws_stop_pc = S_None, ws_thd = R_None\<rparr> cs in
    ws_thd s = R_Terminated
    \<or> (if ws_stop_pc s = S_None then isStarted (ws_imp s) = (ws_thd s \<noteq> R_None)
       else m_server (ws_imp s) = None \<or> ws_thd (state_of (ws_thr_step s (StartCalled reply))) = R_Terminated)"
proof -
  have "ws_threads_inv (run_calls ws_thr_step \<lparr>ws_imp = imp, ws_stop_pc = S_None, ws_thd = R_None\<rparr> cs)"
    using assms by (intro ws_threads.run_keeps) (simp_all add: ws_threads_inv_def list_all_iff)
  then show ?thesis
    by (auto simp: ws_threads_inv_def isStarted_def Let_def started_thread simp del: ws_step.simps split: if_splits)
qed

theorem ws_flag_matches_thread_witness:
  "let s = run_calls ws_thr_step \<lparr>ws_imp = ws_running\<lparr>m_runThd := False\<rparr>, ws_stop_pc = S_None, ws_thd = R_None\<rparr>
      [StartCalled Listening, RunGoes RunReturns, StopGoes True]
   in ws_thd (state_of (ws_thr_step s (StartCalled Listening))) = R_Terminated"
  using ws_flag_matches_thread [of "ws_running\<lparr>m_runThd := False\<rparr>"
      "[StartCalled Listening, RunGoes RunReturns, StopGoes True]" Listening]
  by (simp add: ws_running_def on_service_def ws_start_def outcome_simps Let_def)

end
