(* ===== verification/Command_Calls.thy ===== *)
theory Command_Calls
  imports Command_Service Step_Systems
begin

text \<open>
  The calls of \<^verbatim>\<open>src/CommandService/CommandService.cpp\<close>: what the framework, the components that
  register commands and the command line call, and the object they see through it, a map in which
  the first registration of a name stands, with a flag that is set once.
\<close>

section \<open>Calls\<close>

text \<open>\<open>RunCommand\<close> is \<^verbatim>\<open>doCmd\<close> of the command found under a name, as the command line runs it.\<close>

datatype 'c command_call =
    ActivateCommands | DeactivateCommands
  | AddCommand string 'c
  | RemoveCommand string
  | RunCommand string string
  | RunDefault string

definition command_deactivate :: "'c command_service \<Rightarrow> 'c command_service" where
  "command_deactivate s = s"

definition do_found ::
  "('c, 'o) command_env \<Rightarrow> 'c command option \<Rightarrow> string \<Rightarrow> 'c command_service \<Rightarrow> (string, 'c, 'o) cmd_outcome"
where
  "do_found env found params s = (case found of Some cmd \<Rightarrow> command_do env cmd params s | None \<Rightarrow> returns [] s)"

fun command_step ::
  "('c, 'o) command_env \<Rightarrow> 'c command_service \<Rightarrow> 'c command_call \<Rightarrow> (string, 'c, 'o) cmd_outcome"
where
  "command_step env s ActivateCommands = returns [] (command_activate s)"
| "command_step env s DeactivateCommands = returns [] (command_deactivate s)"
| "command_step env s (AddCommand n c) = returns [] (snd (addCommand n (Registered c) s))"
| "command_step env s (RemoveCommand n) = returns [] (snd (removeCommand n s))"
| "command_step env s (RunCommand n params) = do_found env (findCommand n s) params s"
| "command_step env s (RunDefault params) = do_found env (getDefaultCommand s) params s"

section \<open>The registry by its history\<close>

text \<open>The map, the default command and the flag.\<close>

type_synonym 'c registry = "(string \<Rightarrow> 'c command option) \<times> 'c command option \<times> bool"

definition first_wins :: "string \<Rightarrow> 'c command \<Rightarrow> (string \<Rightarrow> 'c command option) \<Rightarrow> string \<Rightarrow> 'c command option" where
  "first_wins n c m = (if m n = None then m(n \<mapsto> c) else m)"

fun registry_step :: "'c registry \<Rightarrow> 'c command_call \<Rightarrow> 'c registry" where
  "registry_step (m, d, q) ActivateCommands =
     (first_wins ''q'' QuitCommand (first_wins ''h'' HelpCommand m), Some HelpCommand, q)"
| "registry_step (m, d, q) DeactivateCommands = (m, d, q)"
| "registry_step (m, d, q) (AddCommand n c) = (first_wins n (Registered c) m, d, q)"
| "registry_step (m, d, q) (RemoveCommand n) = (m(n := None), d, q)"
| "registry_step (m, d, q) (RunCommand n params) = (m, d, q \<or> m n = Some QuitCommand)"
| "registry_step (m, d, q) (RunDefault params) = (m, d, q \<or> d = Some QuitCommand)"

definition registry_view :: "'c command_service \<Rightarrow> 'c registry" where
  "registry_view s = (\<lambda>n. findCommand n s, getDefaultCommand s, isQuiting s)"

lemma add_view:
  assumes "registry_inv s"
  shows "(\<lambda>n. findCommand n (snd (addCommand m c s))) = first_wins m c (\<lambda>n. findCommand n s)"
  using assms by (auto simp: first_wins_def registry.lookup_add fun_eq_iff)

lemma registry_frame:
  "getDefaultCommand (snd (addCommand n c s)) = getDefaultCommand s" "isQuiting (snd (addCommand n c s)) = isQuiting s"
  "getDefaultCommand (snd (removeCommand n s)) = getDefaultCommand s" "isQuiting (snd (removeCommand n s)) = isQuiting s"
  by (simp_all add: addCommand_def removeCommand_def getDefaultCommand_def isQuiting_def case_prod_unfold Let_def)

lemma activate_view:
  assumes "registry_inv s"
  shows "registry_inv (command_activate s)"
    and "registry_view (command_activate s) = registry_step (registry_view s) ActivateCommands"
proof -
  let ?s = "s\<lparr>m_defaultCmd := Some HelpCommand\<rparr>"
  have inv: "registry_inv ?s" using assms by (simp add: registry_inv_def)
  note inv1 = registry.wf_add [OF inv, of "''h''" HelpCommand]
  then show "registry_inv (command_activate s)" by (simp add: command_activate_def registry.wf_add Let_def)
  have "findCommand n ?s = findCommand n s" for n by (simp add: findCommand_def)
  then show "registry_view (command_activate s) = registry_step (registry_view s) ActivateCommands"
    by (simp add: registry_view_def command_activate_def Let_def add_view [OF inv1] add_view [OF inv] registry_frame)
       (simp add: getDefaultCommand_def isQuiting_def)
qed

lemma do_found_state:
  "state_of (do_found env found params s) = (if found = Some QuitCommand then setQuit s else s)"
proof (cases found)
  case (Some cmd)
  then show ?thesis by (cases cmd) (simp_all add: do_found_def outcome_simps case_prod_unfold Let_def)
qed (simp add: do_found_def outcome_simps)

lemma setQuit_view:
  "registry_inv (setQuit s) = registry_inv s"
  "registry_view (setQuit s) = (\<lambda>n. findCommand n s, getDefaultCommand s, True)"
  by (simp_all add: registry_view_def registry_inv_def setQuit_def findCommand_def getDefaultCommand_def isQuiting_def)

lemma command_step_view:
  assumes "registry_inv s"
  shows "registry_inv (state_of (command_step env s c))"
    and "registry_view (state_of (command_step env s c)) = registry_step (registry_view s) c"
proof -
  show "registry_inv (state_of (command_step env s c))"
    using assms by (cases c) (simp_all add: activate_view do_found_state setQuit_view registry.wf_add registry.wf_remove
        command_deactivate_def outcome_simps)
  show "registry_view (state_of (command_step env s c)) = registry_step (registry_view s) c"
    using assms by (cases c) (simp_all add: activate_view do_found_state setQuit_view command_deactivate_def outcome_simps,
        auto simp: registry_view_def add_view registry_frame registry.lookup_remove fun_eq_iff)
qed

interpretation registry_history: call_refinement "command_step env" "\<lambda>_. True" registry_inv registry_view registry_step
  for env
  by unfold_locales (simp_all only: command_step_view)

section \<open>Properties\<close>

text \<open>
  C28: the registry is what its history makes of it. Whatever was called since the start, in
  whatever order, with whatever the commands of other components do, a name finds the command
  registered first since its last removal; help and quit are there from the first activation on unless
  their names were taken or removed; and the service quits exactly when a command was run that was
  the quit command when it was found.
\<close>

theorem command_registry_by_history:
  fixes cs :: "'c command_call list"
  shows "registry_view (run_calls (command_step env) command_service0 cs) = foldl registry_step (Map.empty, None, False) cs"
proof -
  have "registry_inv (command_service0 :: 'c command_service)" by (simp add: registry_inv_def command_service0_def)
  from registry_history.run_abs [OF this, of cs env]
  have "registry_view (run_calls (command_step env) command_service0 cs) = foldl registry_step (registry_view command_service0) cs"
    by (simp add: list_all_iff)
  moreover have "registry_view (command_service0 :: 'c command_service) = (Map.empty, None, False)"
    by (simp add: registry_view_def command_service0_def findCommand_def getDefaultCommand_def isQuiting_def)
  ultimately show ?thesis by simp
qed

end
