(* ===== verification/Msg_Cmd_Life.thy ===== *)
theory Msg_Cmd_Life
  imports Msg_Cmd Step_Systems
begin

text \<open>
  The two examples as components: \<^verbatim>\<open>src/examples/MsgCmd/MsgCmd.cpp\<close> and
  \<^verbatim>\<open>src/examples/MsgCmdEcho/MsgCmdEcho.cpp\<close> with the interfaces the launcher attaches, what they
  call on them when they are activated and deactivated, and what is left of it in the services of
  \<open>Command_Service\<close> and \<open>Mq_Message\<close>. An interface is known by a number.
\<close>

section \<open>The components\<close>

type_synonym iface = nat

text \<open>Calls of the interfaces, and what goes to the standard output.\<close>

datatype client_out =
    CallsAddCommand iface string
  | CallsRemoveCommand iface string
  | CallsRegisterHandler iface
  | CallsUnregisterHandler iface
  | CallsSendMessage iface bytes
  | PrintsOut string

text \<open>The one error: an interface that is not attached is called through a null pointer.\<close>

datatype client_error = NotAttached

record msgcmd =
  m_iLaunchService :: "iface option"
  m_iMessageService :: "iface option"
  m_iCommandService :: "iface option"

type_synonym msgcmd_outcome = "(client_error, unit, client_out, msgcmd) outcome"

definition msgcmd0 :: msgcmd where
  "msgcmd0 = \<lparr>m_iLaunchService = None, m_iMessageService = None, m_iCommandService = None\<rparr>"

definition on_iface :: "iface option \<Rightarrow> (iface \<Rightarrow> client_out) \<Rightarrow> 's \<Rightarrow> (client_error, unit, client_out, 's) outcome" where
  "on_iface attached call s = (case attached of None \<Rightarrow> throws NotAttached s | Some i \<Rightarrow> emits [call i] s)"

definition mc_activate :: "msgcmd \<Rightarrow> msgcmd_outcome" where
  "mc_activate s = and_then (on_iface (m_iCommandService s) (\<lambda>i. CallsAddCommand i ''c'') s)
     (\<lambda>_ s1. on_iface (m_iMessageService s1) CallsRegisterHandler s1)"

definition mc_deactivate :: "msgcmd \<Rightarrow> msgcmd_outcome" where
  "mc_deactivate s = and_then (on_iface (m_iCommandService s) (\<lambda>i. CallsRemoveCommand i ''c'') s)
     (\<lambda>_ s1. on_iface (m_iMessageService s1) CallsUnregisterHandler s1)"

text \<open>The handler given to the message service.\<close>

definition mc_handler :: "bytes \<Rightarrow> msgcmd \<Rightarrow> msgcmd_outcome" where
  "mc_handler msg s = emits [PrintsOut (''received: '' @ newline @ msg @ newline)] s"

text \<open>The command sends through the interface that is attached when it is run.\<close>

definition mc_sends :: "bytes \<Rightarrow> msgcmd \<Rightarrow> msgcmd_outcome" where
  "mc_sends msg s = on_iface (m_iMessageService s) (\<lambda>i. CallsSendMessage i msg) s"

definition mc_attach_command :: "iface \<Rightarrow> msgcmd \<Rightarrow> msgcmd" where
  "mc_attach_command iface s = s\<lparr>m_iCommandService := Some iface\<rparr>"

definition mc_detach_command :: "iface \<Rightarrow> msgcmd \<Rightarrow> msgcmd" where
  "mc_detach_command iface s = (if m_iCommandService s = Some iface then s\<lparr>m_iCommandService := None\<rparr> else s)"

definition mc_attach_message :: "iface \<Rightarrow> msgcmd \<Rightarrow> msgcmd" where
  "mc_attach_message iface s = s\<lparr>m_iMessageService := Some iface\<rparr>"

definition mc_detach_message :: "iface \<Rightarrow> msgcmd \<Rightarrow> msgcmd" where
  "mc_detach_message iface s = (if m_iMessageService s = Some iface then s\<lparr>m_iMessageService := None\<rparr> else s)"

definition mc_attach_launch :: "iface \<Rightarrow> msgcmd \<Rightarrow> msgcmd" where
  "mc_attach_launch iface s = s\<lparr>m_iLaunchService := Some iface\<rparr>"

definition mc_detach_launch :: "iface \<Rightarrow> msgcmd \<Rightarrow> msgcmd" where
  "mc_detach_launch iface s = (if m_iLaunchService s = Some iface then s\<lparr>m_iLaunchService := None\<rparr> else s)"

text \<open>The echo has one interface; its state is the pointer to it.\<close>

type_synonym msgcmd_echo = "iface option"

type_synonym echo_outcome = "(client_error, unit, client_out, msgcmd_echo) outcome"

definition echo_activate :: "msgcmd_echo \<Rightarrow> echo_outcome" where
  "echo_activate s = on_iface s CallsRegisterHandler s"

definition echo_deactivate :: "msgcmd_echo \<Rightarrow> echo_outcome" where
  "echo_deactivate s = on_iface s CallsUnregisterHandler s"

definition echo_handler :: "bytes \<Rightarrow> msgcmd_echo \<Rightarrow> echo_outcome" where
  "echo_handler msg s = on_iface s (\<lambda>i. CallsSendMessage i msg) s"

definition echo_attach :: "iface \<Rightarrow> msgcmd_echo \<Rightarrow> msgcmd_echo" where
  "echo_attach iface s = Some iface"

definition echo_detach :: "iface \<Rightarrow> msgcmd_echo \<Rightarrow> msgcmd_echo" where
  "echo_detach iface s = (if s = Some iface then None else s)"

text \<open>The calls of the framework, of the command line and of the message service.\<close>

datatype msgcmd_call =
    AttachCommand iface | DetachCommand iface | AttachMessage iface | DetachMessage iface
  | AttachLaunch iface | DetachLaunch iface | ActivateMc | DeactivateMc | ModifyMc
  | HandlesMessage bytes | SendsMessage bytes

fun mc_step :: "msgcmd \<Rightarrow> msgcmd_call \<Rightarrow> msgcmd_outcome" where
  "mc_step s (AttachCommand iface) = returns () (mc_attach_command iface s)"
| "mc_step s (DetachCommand iface) = returns () (mc_detach_command iface s)"
| "mc_step s (AttachMessage iface) = returns () (mc_attach_message iface s)"
| "mc_step s (DetachMessage iface) = returns () (mc_detach_message iface s)"
| "mc_step s (AttachLaunch iface) = returns () (mc_attach_launch iface s)"
| "mc_step s (DetachLaunch iface) = returns () (mc_detach_launch iface s)"
| "mc_step s ActivateMc = mc_activate s"
| "mc_step s DeactivateMc = mc_deactivate s"
| "mc_step s ModifyMc = returns () s"
| "mc_step s (HandlesMessage msg) = mc_handler msg s"
| "mc_step s (SendsMessage msg) = mc_sends msg s"

datatype msgcmd_echo_call =
  AttachEcho iface | DetachEcho iface | ActivateEcho | DeactivateEcho | ModifyEcho | EchoesMessage bytes

fun echo_comp_step :: "msgcmd_echo \<Rightarrow> msgcmd_echo_call \<Rightarrow> echo_outcome" where
  "echo_comp_step s (AttachEcho iface) = returns () (echo_attach iface s)"
| "echo_comp_step s (DetachEcho iface) = returns () (echo_detach iface s)"
| "echo_comp_step s ActivateEcho = echo_activate s"
| "echo_comp_step s DeactivateEcho = echo_deactivate s"
| "echo_comp_step s ModifyEcho = returns () s"
| "echo_comp_step s (EchoesMessage msg) = echo_handler msg s"

lemmas mc_defs = mc_activate_def mc_deactivate_def mc_handler_def mc_sends_def mc_attach_command_def
  mc_detach_command_def mc_attach_message_def mc_detach_message_def mc_attach_launch_def mc_detach_launch_def
  on_iface_def outcome_simps

text \<open>The interfaces it needs are there, from the attaching on until one of them is detached.\<close>

definition mc_attached :: "msgcmd \<Rightarrow> bool" where
  "mc_attached s \<longleftrightarrow> m_iCommandService s \<noteq> None \<and> m_iMessageService s \<noteq> None"

fun detaches :: "msgcmd_call \<Rightarrow> bool" where
  "detaches (DetachCommand iface) = True"
| "detaches (DetachMessage iface) = True"
| "detaches c = False"

interpretation mc_attached: call_sequence mc_step "\<lambda>c. \<not> detaches c" mc_attached
proof unfold_locales
  fix s c
  assume "mc_attached s" and "\<not> detaches c"
  then show "mc_attached (state_of (mc_step s c))"
    by (cases c) (auto simp: mc_attached_def mc_defs)
qed

lemma attached_never_fails: "mc_attached s \<Longrightarrow> \<not> detaches c \<Longrightarrow> result_of (mc_step s c) = Inr ()"
  by (cases c) (auto simp: mc_attached_def mc_defs)

section \<open>The services\<close>

text \<open>
  What the calls of a client do to the command service and to the message service, whose
  interfaces are the given ones; the client brings its command and its handler.
\<close>

fun commands_after ::
  "iface \<Rightarrow> 'c command \<Rightarrow> client_out list \<Rightarrow> 'c command_service \<Rightarrow> 'c command_service"
where
  "commands_after i cmd [] s = s"
| "commands_after i cmd (CallsAddCommand j n # outs) s =
     commands_after i cmd outs (if j = i then snd (addCommand n cmd s) else s)"
| "commands_after i cmd (CallsRemoveCommand j n # outs) s =
     commands_after i cmd outs (if j = i then snd (removeCommand n s) else s)"
| "commands_after i cmd (out # outs) s = commands_after i cmd outs s"

fun messages_after :: "iface \<Rightarrow> 'h \<Rightarrow> client_out list \<Rightarrow> 'h mq_service \<Rightarrow> 'h mq_service" where
  "messages_after i h [] s = s"
| "messages_after i h (CallsRegisterHandler j # outs) s =
     messages_after i h outs (if j = i then state_of (registerMessageHandler h s) else s)"
| "messages_after i h (CallsUnregisterHandler j # outs) s =
     messages_after i h outs (if j = i then state_of (unregisterMessageHandler s) else s)"
| "messages_after i h (CallsSendMessage j msg # outs) s =
     messages_after i h outs (if j = i then state_of (sendMessage msg s) else s)"
| "messages_after i h (out # outs) s = messages_after i h outs s"

lemma commands_after_append:
  "commands_after i cmd (outs @ outs') s = commands_after i cmd outs' (commands_after i cmd outs s)"
  by (induction i cmd outs s rule: commands_after.induct) simp_all

lemma messages_after_append:
  "messages_after i h (outs @ outs') s = messages_after i h outs' (messages_after i h outs s)"
  by (induction i h outs s rule: messages_after.induct) simp_all

text \<open>An attached component: what it calls.\<close>

lemma attached_life:
  assumes "m_iCommandService s = Some ci" and "m_iMessageService s = Some mi"
  shows "mc_activate s = (Inr (), [CallsAddCommand ci ''c'', CallsRegisterHandler mi], s)"
    and "mc_deactivate s = (Inr (), [CallsRemoveCommand ci ''c'', CallsUnregisterHandler mi], s)"
  using assms by (simp_all add: mc_activate_def mc_deactivate_def on_iface_def and_then_def emits_def)

text \<open>The handler of the echo is what \<open>echo_step\<close> does with each message.\<close>

lemma echo_handler_echoes:
  "messages_after i h (outs_of (echo_handler msg (echo_attach i s))) ms = state_of (echo_all [msg] ms)"
  by (simp add: echo_handler_def echo_attach_def on_iface_def sendMessage_def outcome_simps split: option.split)

section \<open>Properties\<close>

text \<open>
  The message command never meets a missing interface. Once both are attached, no call of the
  framework, of the command line or of the message service ends in a null pointer until one of them
  is detached.
\<close>

theorem msgcmd_never_fails:
  assumes "mc_attached s" and "list_all (\<lambda>c. \<not> detaches c) cs" and "\<not> detaches c"
  shows "result_of (mc_step (run_calls mc_step s cs) c) = Inr ()"
  using attached_never_fails [OF mc_attached.run_keeps [OF assms(1,2)] assms(3)] .

definition msgcmd_attached :: msgcmd where
  "msgcmd_attached = mc_attach_message 2 (mc_attach_command 1 msgcmd0)"

theorem msgcmd_never_fails_witness:
  "result_of (mc_step (run_calls mc_step msgcmd_attached [ActivateMc, AttachMessage 3]) (SendsMessage ''m'')) = Inr ()"
  by (rule msgcmd_never_fails)
     (simp_all add: mc_attached_def msgcmd_attached_def mc_attach_message_def mc_attach_command_def)

text \<open>
  C29: a life of the message command in its services. Activated, its command stands under \<^verbatim>\<open>c\<close>
  unless another had the name, which then stays, and its handler is the one of the message service,
  whoever had it. Deactivated, there is no command \<^verbatim>\<open>c\<close> and no handler, its own or another's;
  every other command, and the waiting messages, are as they were.
\<close>

theorem msgcmd_life:
  assumes "registry_inv cs" and "m_iCommandService s = Some ci" and "m_iMessageService s = Some mi"
  shows "let up = outs_of (mc_activate s); down = outs_of (mc_deactivate s);
      cs1 = commands_after ci cmd up cs; cs2 = commands_after ci cmd down cs1;
      ms1 = messages_after mi h up ms; ms2 = messages_after mi h down ms1
    in findCommand ''c'' cs1 = (case findCommand ''c'' cs of Some other \<Rightarrow> Some other | None \<Rightarrow> Some cmd)
      \<and> m_messageHandlerFunc ms1 = Some h
      \<and> (\<forall>n. findCommand n cs2 = (if n = ''c'' then None else findCommand n cs))
      \<and> ms2 = ms\<lparr>m_messageHandlerFunc := None\<rparr>"
  using assms(1) attached_life [OF assms(2,3)]
  by (auto simp: Let_def registry.lookup_add registry.lookup_remove registry.wf_add registerMessageHandler_def
      unregisterMessageHandler_def outcome_simps split: option.split)

theorem msgcmd_life_witness:
  "let cs = snd (addCommand ''c'' (Registered 5) (command_activate command_service0)) :: nat command_service in
   findCommand ''c'' (commands_after 1 (Registered 6) (outs_of (mc_activate msgcmd_attached)) cs) = Some (Registered 5)
   \<and> findCommand ''c'' (commands_after 1 (Registered 6) (outs_of (mc_deactivate msgcmd_attached))
       (commands_after 1 (Registered 6) (outs_of (mc_activate msgcmd_attached)) cs)) = None"
proof -
  let ?cs = "snd (addCommand ''c'' (Registered 5) (command_activate command_service0)) :: nat command_service"
  have "registry_inv (command_service0 :: nat command_service)" by (simp add: registry_inv_def command_service0_def)
  then have "registry_inv ?cs" unfolding command_activate_def Let_def
    by (intro registry.wf_add) (simp add: registry_inv_def)
  moreover have "findCommand ''c'' ?cs = Some (Registered 5)"
    by (simp add: command_activate_def command_service0_def addCommand_def findCommand_def sm_insert_def)
  moreover have "m_iCommandService msgcmd_attached = Some 1" "m_iMessageService msgcmd_attached = Some 2"
    by (simp_all add: msgcmd_attached_def mc_attach_message_def mc_attach_command_def)
  ultimately show ?thesis
    using msgcmd_life [of ?cs msgcmd_attached 1 2 "Registered 6" "0 :: nat" mq_service0] by (auto simp: Let_def)
qed

text \<open>
  One message service serves one of its clients. With the echo active on a message service, the
  message command activated on it takes the echo's messages, and deactivated leaves the echo, which
  is still active, without any: a message that is received then finds no handler.
\<close>

theorem msgcmd_silences_echo:
  assumes "m_iCommandService s = Some ci" and "m_iMessageService s = Some mi"
    and "m_listenThread ms = L_Read" and "m_runListenThread ms" and "msg \<noteq> []"
  shows "let echo = messages_after mi he (outs_of (echo_activate (echo_attach mi None))) ms;
      up = messages_after mi hc (outs_of (mc_activate s)) echo;
      down = messages_after mi hc (outs_of (mc_deactivate s)) up;
      received = MqReceive (m_localMqHandle ms) (m_bufsize ms)
    in outs_of (mq_step echo (ListenReads (Some msg) desc res thr)) = [received, OnMqMessage he msg]
      \<and> outs_of (mq_step up (ListenReads (Some msg) desc res thr)) = [received, OnMqMessage hc msg]
      \<and> outs_of (mq_step down (ListenReads (Some msg) desc res thr)) = [received, NoMqHandler]"
  using assms(3-5) attached_life [OF assms(1,2)]
  by (simp add: echo_activate_def echo_attach_def on_iface_def registerMessageHandler_def unregisterMessageHandler_def
      listen_read_def readMq_def outcome_simps Let_def)

theorem msgcmd_silences_echo_witness:
  "let echo = messages_after 2 7 (outs_of (echo_activate (echo_attach 2 None))) mq_reading;
      up = messages_after 2 8 (outs_of (mc_activate msgcmd_attached)) echo
   in NoMqHandler \<in> set (outs_of (mq_step (messages_after 2 8 (outs_of (mc_deactivate msgcmd_attached)) up)
        (ListenReads (Some ''m'') 0 0 False)))"
proof -
  have "m_iCommandService msgcmd_attached = Some 1" "m_iMessageService msgcmd_attached = Some 2"
    by (simp_all add: msgcmd_attached_def mc_attach_message_def mc_attach_command_def)
  from msgcmd_silences_echo [OF this mq_reading_sel(1,2), of "''m''" 7 8 0 0 False]
  show ?thesis by (simp add: Let_def del: mq_step.simps)
qed

end
