(* ===== verification/Ws_Connect.thy ===== *)
theory Ws_Connect
  imports Ws_Client
begin

text \<open>
  The threads of \<^verbatim>\<open>src/WebsocketCppClientService/WebsocketCppClientService.cpp\<close>. \<open>Ws_Client\<close> takes
  its member functions and the handlers of the library as operations. Here they are steps of the
  threads that run them, with \<^verbatim>\<open>m_connectedMux\<close>, the condition \<^verbatim>\<open>m_connectedCondition\<close> a connect
  sleeps in, and the handlers of the user, which are called with the mutex held and may call the
  service themselves.
\<close>

section \<open>State\<close>

datatype wsc_thread = LibThread | ClientThread nat

text \<open>
  The operations that take the mutex; \<^verbatim>\<open>connect\<close> with the connection \<^verbatim>\<open>get_connection\<close> makes, none
  on an error.
\<close>

datatype wsc_op = OpConnect string "connection_hdl option" | OpClose | OpIsConnected

text \<open>
  Points of such an operation: the lock, the body with the mutex held, the test of the condition
  with the mutex held, asleep in it, woken and waiting for the mutex.
\<close>

datatype call_pc =
    T_Lock wsc_op | T_Section wsc_op | T_Check connection_hdl | T_Asleep connection_hdl | T_Woken connection_hdl

datatype wsc_report =
    R_Open connection_hdl string
  | R_Fail connection_hdl string string
  | R_Close connection_hdl nat string string
  | R_Message connection_hdl string

text \<open>
  A handler of the user: for an opened or a closed connection, called with the mutex held, or for a
  message, called without it, with the payload if the handler for bytes is still to come.
\<close>

datatype user_handler = H_Locked | H_Message "string option"

text \<open>
  Points of the thread that runs the library: in the library, at the lock of a handler, in its body,
  in a handler of the user, in an operation called by one.
\<close>

datatype lib_pc =
    L_Run | L_Lock wsc_report | L_Section wsc_report | L_User user_handler | L_Nested user_handler call_pc

datatype wsc_client_pc = C_Out | C_In call_pc

text \<open>\<open>wt_connecting\<close> are the connections whose state is \<^verbatim>\<open>connecting\<close>.\<close>

record 'h wsc_threads =
  wt_imp :: "'h ws_client"
  wt_mux :: "wsc_thread option"
  wt_lib :: lib_pc
  wt_clients :: "nat \<Rightarrow> wsc_client_pc"
  wt_connecting :: "connection_hdl set"

definition wsc_threads0 :: "'h wsc_threads" where
  "wsc_threads0 = \<lparr>wt_imp = ws_client0, wt_mux = None, wt_lib = L_Run, wt_clients = (\<lambda>_. C_Out), wt_connecting = {}\<rparr>"

section \<open>Operations\<close>

fun wakes :: "call_pc \<Rightarrow> call_pc" where
  "wakes (T_Asleep con) = T_Woken con"
| "wakes pc = pc"

fun wakes_client :: "wsc_client_pc \<Rightarrow> wsc_client_pc" where
  "wakes_client (C_In pc) = C_In (wakes pc)"
| "wakes_client C_Out = C_Out"

fun wakes_lib :: "lib_pc \<Rightarrow> lib_pc" where
  "wakes_lib (L_Nested h pc) = L_Nested h (wakes pc)"
| "wakes_lib pc = pc"

text \<open>\<^verbatim>\<open>notify_all\<close>.\<close>

definition wsc_notify_all :: "'h wsc_threads \<Rightarrow> 'h wsc_threads" where
  "wsc_notify_all s = s\<lparr>wt_lib := wakes_lib (wt_lib s), wt_clients := (\<lambda>c. wakes_client (wt_clients s c))\<rparr>"

text \<open>
  One step of an operation: what it calls, where it is then (nowhere when it has returned) and the
  state; none when it is blocked or asleep.
\<close>

fun call_step ::
  "wsc_thread \<Rightarrow> call_pc \<Rightarrow> 'h wsc_threads \<Rightarrow> ('h wsc_out list \<times> call_pc option \<times> 'h wsc_threads) option"
where
  "call_step th (T_Lock op) s =
     (if wt_mux s = None then Some ([], Some (T_Section op), s\<lparr>wt_mux := Some th\<rparr>) else None)"
| "call_step th (T_Section (OpConnect uri answer)) s = Some (let imp = wt_imp s in
     if m_connected imp then ([WscWarnConnected (m_uri imp) uri], None, s\<lparr>wt_mux := None\<rparr>)
     else case answer of
         None \<Rightarrow> ([WscGetConnection uri], None, s\<lparr>wt_imp := imp\<lparr>m_uri := uri\<rparr>, wt_mux := None\<rparr>)
       | Some con \<Rightarrow> ([WscGetConnection uri, WscConnect con], Some (T_Check con),
           s\<lparr>wt_imp := imp\<lparr>m_uri := uri\<rparr>, wt_connecting := insert con (wt_connecting s)\<rparr>))"
| "call_step th (T_Section OpClose) s = Some ([WscClose (m_connection_hdl (wt_imp s))], None,
     (wsc_notify_all s)\<lparr>wt_imp := (wt_imp s)\<lparr>m_connected := False\<rparr>, wt_mux := None\<rparr>)"
| "call_step th (T_Section OpIsConnected) s = Some ([], None, s\<lparr>wt_mux := None\<rparr>)"
| "call_step th (T_Check con) s = Some (if con \<in> wt_connecting s
     then ([], Some (T_Asleep con), s\<lparr>wt_mux := None\<rparr>)
     else ([WscConnectReturns con], None, s\<lparr>wt_mux := None\<rparr>))"
| "call_step th (T_Asleep con) s = None"
| "call_step th (T_Woken con) s =
     (if wt_mux s = None then Some ([], Some (T_Check con), s\<lparr>wt_mux := Some th\<rparr>) else None)"

section \<open>The thread of the library\<close>

text \<open>The body of a handler, by the operation of \<open>Ws_Client\<close>.\<close>

fun report_call :: "wsc_report \<Rightarrow> 'h wsc_call" where
  "report_call (R_Open con server) = OnOpen con server (\<lambda>_. True)"
| "report_call (R_Fail con server reason) = OnFail con server reason (\<lambda>_. True)"
| "report_call (R_Close con code name reason) = OnClose con code name reason (\<lambda>_. True)"
| "report_call (R_Message con payload) = OnMessage con payload"

text \<open>A handler of the user runs if the body has called one.\<close>

definition report_section :: "wsc_report \<Rightarrow> 'h wsc_threads \<Rightarrow> 'h wsc_out list \<times> 'h wsc_threads" where
  "report_section rep s = (let r = wsc_step (wt_imp s) (report_call rep); t = (wsc_notify_all s)\<lparr>wt_imp := state_of r\<rparr>
     in (outs_of r, if outs_of r = [] then t\<lparr>wt_mux := None, wt_lib := L_Run\<rparr> else t\<lparr>wt_lib := L_User H_Locked\<rparr>))"

text \<open>Where a thread is after a step of the operation it is in.\<close>

fun client_after :: "call_pc option \<Rightarrow> wsc_client_pc" where
  "client_after (Some pc) = C_In pc"
| "client_after None = C_Out"

fun lib_after :: "user_handler \<Rightarrow> call_pc option \<Rightarrow> lib_pc" where
  "lib_after h (Some pc) = L_Nested h pc"
| "lib_after h None = L_User h"

text \<open>The second half of \<^verbatim>\<open>on_message\<close>.\<close>

definition message_bytes :: "string \<Rightarrow> 'h wsc_threads \<Rightarrow> 'h wsc_out list \<times> 'h wsc_threads" where
  "message_bytes payload s = (case m_messageHandlerFunc (wt_imp s) of
       Some h \<Rightarrow> ([WscMessage h payload], s\<lparr>wt_lib := L_User (H_Message None)\<rparr>)
     | None \<Rightarrow> ([], s\<lparr>wt_lib := L_Run\<rparr>))"

fun lib_step :: "lib_pc \<Rightarrow> 'h wsc_threads \<Rightarrow> ('h wsc_out list \<times> 'h wsc_threads) option" where
  "lib_step L_Run s = None"
| "lib_step (L_Lock rep) s =
     (if wt_mux s = None then Some ([], s\<lparr>wt_mux := Some LibThread, wt_lib := L_Section rep\<rparr>) else None)"
| "lib_step (L_Section rep) s = Some (report_section rep s)"
| "lib_step (L_User H_Locked) s = Some ([], s\<lparr>wt_mux := None, wt_lib := L_Run\<rparr>)"
| "lib_step (L_User (H_Message None)) s = Some ([], s\<lparr>wt_lib := L_Run\<rparr>)"
| "lib_step (L_User (H_Message (Some payload))) s = Some (message_bytes payload s)"
| "lib_step (L_Nested h pc) s = (case call_step LibThread pc s of
       None \<Rightarrow> None
     | Some (outs, pc', t) \<Rightarrow> Some (outs, t\<lparr>wt_lib := lib_after h pc'\<rparr>))"

text \<open>
  A report of the library. \<^verbatim>\<open>on_open\<close> stores the handle before it takes the mutex; \<^verbatim>\<open>on_message\<close>
  does not take it.
\<close>

fun lib_reports :: "wsc_report \<Rightarrow> 'h wsc_threads \<Rightarrow> 'h wsc_out list \<times> 'h wsc_threads" where
  "lib_reports (R_Open con server) s =
     ([], s\<lparr>wt_imp := (wt_imp s)\<lparr>m_connection_hdl := Some con\<rparr>, wt_lib := L_Lock (R_Open con server)\<rparr>)"
| "lib_reports (R_Message con payload) s = (case m_messageStrHandlerFunc (wt_imp s) of
       Some h \<Rightarrow> ([WscMessageStr h payload], s\<lparr>wt_lib := L_User (H_Message (Some payload))\<rparr>)
     | None \<Rightarrow> message_bytes payload s)"
| "lib_reports rep s = ([], s\<lparr>wt_lib := L_Lock rep\<rparr>)"

section \<open>Actions\<close>

text \<open>
  The state of a connection leaves \<^verbatim>\<open>connecting\<close> in the library, on its thread. The calls that take
  no mutex are one step.
\<close>

datatype 'h wsc_action =
    LibSettles connection_hdl
  | LibReports wsc_report
  | LibRuns
  | HandlerCalls wsc_op
  | ClientCalls nat wsc_op
  | ClientRuns nat
  | Unlocked "'h wsc_call"
  | SpuriousWakeup wsc_thread

fun takes_no_mutex :: "'h wsc_call \<Rightarrow> bool" where
  "takes_no_mutex (Send msg) = True"
| "takes_no_mutex (SendBytes msg) = True"
| "takes_no_mutex Ping = True"
| "takes_no_mutex (Register slot hndl) = True"
| "takes_no_mutex c = False"

fun wsc_act :: "'h wsc_action \<Rightarrow> 'h wsc_threads \<Rightarrow> ('h wsc_out list \<times> 'h wsc_threads) option" where
  "wsc_act (LibSettles con) s =
     (if wt_lib s = L_Run then Some ([], s\<lparr>wt_connecting := wt_connecting s - {con}\<rparr>) else None)"
| "wsc_act (LibReports rep) s = (if wt_lib s = L_Run then Some (lib_reports rep s) else None)"
| "wsc_act LibRuns s = lib_step (wt_lib s) s"
| "wsc_act (HandlerCalls op) s = (case wt_lib s of
       L_User h \<Rightarrow> Some ([], s\<lparr>wt_lib := L_Nested h (T_Lock op)\<rparr>)
     | _ \<Rightarrow> None)"
| "wsc_act (ClientCalls c op) s = (if wt_clients s c = C_Out
     then Some ([], s\<lparr>wt_clients := (wt_clients s)(c := C_In (T_Lock op))\<rparr>) else None)"
| "wsc_act (ClientRuns c) s = (case wt_clients s c of
       C_Out \<Rightarrow> None
     | C_In pc \<Rightarrow> (case call_step (ClientThread c) pc s of
           None \<Rightarrow> None
         | Some (outs, pc', t) \<Rightarrow> Some (outs, t\<lparr>wt_clients := (wt_clients t)(c := client_after pc')\<rparr>)))"
| "wsc_act (Unlocked call) s = (if takes_no_mutex call
     then Some (outs_of (wsc_step (wt_imp s) call), s\<lparr>wt_imp := state_of (wsc_step (wt_imp s) call)\<rparr>) else None)"
| "wsc_act (SpuriousWakeup LibThread) s = Some ([], s\<lparr>wt_lib := wakes_lib (wt_lib s)\<rparr>)"
| "wsc_act (SpuriousWakeup (ClientThread c)) s =
     Some ([], s\<lparr>wt_clients := (wt_clients s)(c := wakes_client (wt_clients s c))\<rparr>)"

text \<open>Actions that cannot be taken are skipped.\<close>

definition wsc_thr_step :: "'h wsc_threads \<Rightarrow> 'h wsc_action \<Rightarrow> (unit, unit, 'h wsc_out, 'h wsc_threads) outcome" where
  "wsc_thr_step s a = (case wsc_act a s of Some (outs, t) \<Rightarrow> emits outs t | None \<Rightarrow> returns () s)"

section \<open>The mutex\<close>

fun call_holds :: "call_pc \<Rightarrow> bool" where
  "call_holds (T_Section op) = True"
| "call_holds (T_Check con) = True"
| "call_holds pc = False"

fun client_holds :: "wsc_client_pc \<Rightarrow> bool" where
  "client_holds (C_In pc) = call_holds pc"
| "client_holds C_Out = False"

fun lib_holds :: "lib_pc \<Rightarrow> bool" where
  "lib_holds (L_Section rep) = True"
| "lib_holds (L_User h) = (h = H_Locked)"
| "lib_holds (L_Nested h pc) = (h = H_Locked \<or> call_holds pc)"
| "lib_holds pc = False"

text \<open>Within a handler that holds the mutex, an operation never gets past its lock.\<close>

fun nested_ok :: "lib_pc \<Rightarrow> bool" where
  "nested_ok (L_Nested H_Locked (T_Lock op)) = True"
| "nested_ok (L_Nested H_Locked pc) = False"
| "nested_ok pc = True"

lemma nested_ok_simps [simp]: "nested_ok (L_Nested h (T_Lock op))" "h \<noteq> H_Locked \<Longrightarrow> nested_ok (L_Nested h pc)"
  by (cases h; simp)+

definition wt_inv :: "'h wsc_threads \<Rightarrow> bool" where
  "wt_inv s \<longleftrightarrow> (wt_mux s = Some LibThread \<longleftrightarrow> lib_holds (wt_lib s))
     \<and> (\<forall>c. wt_mux s = Some (ClientThread c) \<longleftrightarrow> client_holds (wt_clients s c)) \<and> nested_ok (wt_lib s)"

lemma call_holds_wakes [simp]: "call_holds (wakes pc) = call_holds pc"
  by (cases pc) simp_all

lemma client_holds_wakes [simp]: "client_holds (wakes_client pc) = client_holds pc"
  by (cases pc) simp_all

lemma lib_wakes [simp]: "lib_holds (wakes_lib pc) = lib_holds pc" "nested_ok (wakes_lib pc) = nested_ok pc"
proof -
  show "lib_holds (wakes_lib pc) = lib_holds pc" by (cases pc) simp_all
  show "nested_ok (wakes_lib pc) = nested_ok pc"
  proof (cases pc)
    case (L_Nested h p)
    then show ?thesis by (cases h; cases p) simp_all
  qed simp_all
qed

lemma wsc_notify_all_sel [simp]:
  "wt_imp (wsc_notify_all s) = wt_imp s" "wt_mux (wsc_notify_all s) = wt_mux s"
  "wt_connecting (wsc_notify_all s) = wt_connecting s"
  "wt_lib (wsc_notify_all s) = wakes_lib (wt_lib s)" "wt_clients (wsc_notify_all s) c = wakes_client (wt_clients s c)"
  by (simp_all add: wsc_notify_all_def)

text \<open>What a step of an operation does to the mutex, and what it leaves alone.\<close>

lemma call_step_mux:
  assumes "call_step th pc s = Some (outs, pc', t)"
  shows "if call_holds pc then wt_mux t = (case pc' of Some p \<Rightarrow> if call_holds p then wt_mux s else None | None \<Rightarrow> None)
      else wt_mux s = None \<and> wt_mux t = Some th \<and> (\<exists>p. pc' = Some p \<and> call_holds p)"
    and "wt_lib t = wt_lib s \<or> wt_lib t = wakes_lib (wt_lib s)"
    and "wt_clients t = wt_clients s \<or> wt_clients t = (\<lambda>c. wakes_client (wt_clients s c))"
  using assms by (cases "(th, pc, s)" rule: call_step.cases;
    auto simp: wsc_notify_all_def Let_def split: if_splits option.splits)+

lemma call_step_keeps:
  assumes "call_step th pc s = Some (outs, pc', t)"
  shows "lib_holds (wt_lib t) = lib_holds (wt_lib s)" "nested_ok (wt_lib t) = nested_ok (wt_lib s)"
    and "client_holds (wt_clients t c) = client_holds (wt_clients s c)"
  using call_step_mux(2,3) [OF assms] by auto

lemma wt_inv_client:
  assumes "wt_inv s" and "wt_clients s c = C_In pc" and step: "call_step (ClientThread c) pc s = Some (outs, pc', t)"
  shows "wt_inv (t\<lparr>wt_clients := (wt_clients t)(c := client_after pc')\<rparr>)"
proof -
  have own: "wt_mux s = Some (ClientThread c) \<longleftrightarrow> call_holds pc" using assms(1,2) by (simp add: wt_inv_def)
  have free: "wt_mux s = None \<Longrightarrow> \<not> lib_holds (wt_lib s) \<and> \<not> client_holds (wt_clients s c')" for c'
    using assms(1) by (auto simp: wt_inv_def)
  have held: "wt_mux s = Some (ClientThread c) \<Longrightarrow> \<not> lib_holds (wt_lib s) \<and> (client_holds (wt_clients s c') \<longleftrightarrow> c' = c)" for c'
    using assms(1) unfolding wt_inv_def by (metis option.inject wsc_thread.distinct(1) wsc_thread.inject)
  from call_step_mux(1) [OF step] own free held show ?thesis
    using assms(1) unfolding wt_inv_def
    by (cases pc') (auto simp: call_step_keeps [OF step] split: if_splits)
qed

lemma wt_inv_nested:
  assumes "wt_inv s" and "wt_lib s = L_Nested h pc" and step: "call_step LibThread pc s = Some (outs, pc', t)"
  shows "wt_inv (t\<lparr>wt_lib := lib_after h pc'\<rparr>)"
proof -
  have own: "wt_mux s = Some LibThread \<longleftrightarrow> h = H_Locked \<or> call_holds pc" using assms(1,2) by (simp add: wt_inv_def)
  have "h \<noteq> H_Locked"
  proof
    assume "h = H_Locked"
    with assms(1,2) obtain op where "pc = T_Lock op" by (cases pc) (auto simp: wt_inv_def)
    with own \<open>h = H_Locked\<close> step show False by simp
  qed
  have others: "\<not> client_holds (wt_clients s c)" if "wt_mux s = None \<or> wt_mux s = Some LibThread" for c
    using assms(1) that by (auto simp: wt_inv_def)
  from call_step_mux(1) [OF step] own others \<open>h \<noteq> H_Locked\<close> show ?thesis
    using assms(1) unfolding wt_inv_def
    by (cases pc') (auto simp: call_step_keeps [OF step] split: if_splits)
qed

lemma wt_inv_lib:
  assumes "wt_inv s" and "lib_step (wt_lib s) s = Some (outs, t)"
  shows "wt_inv t"
proof (cases "wt_lib s")
  case (L_Nested h pc)
  with assms wt_inv_nested show ?thesis by (auto split: option.splits)
next
  case (L_User h)
  with assms show ?thesis
    by (cases "(wt_lib s, s)" rule: lib_step.cases) (auto simp: wt_inv_def message_bytes_def split: option.splits)
qed (use assms in \<open>auto simp: wt_inv_def report_section_def Let_def split: if_splits\<close>)

lemma wt_inv_act:
  assumes "wt_inv s" and "wsc_act a s = Some (outs, t)"
  shows "wt_inv t"
proof (cases a)
  case LibRuns
  with assms wt_inv_lib show ?thesis by simp
next
  case (ClientRuns c)
  with assms wt_inv_client show ?thesis by (auto split: wsc_client_pc.splits option.splits simp del: client_after.simps)
next
  case (LibReports rep)
  with assms show ?thesis by (cases rep) (auto simp: wt_inv_def message_bytes_def split: if_splits option.splits)
next
  case (HandlerCalls op)
  with assms show ?thesis by (auto simp: wt_inv_def split: lib_pc.splits)
next
  case (SpuriousWakeup th)
  with assms show ?thesis by (cases th) (auto simp: wt_inv_def split: if_splits)
qed (use assms in \<open>auto simp: wt_inv_def split: if_splits\<close>)

lemma wsc_thr_step_cases:
  assumes "wsc_act a s = None \<Longrightarrow> P s" and "\<And>outs t. wsc_act a s = Some (outs, t) \<Longrightarrow> P t"
  shows "P (state_of (wsc_thr_step s a))"
  using assms by (auto simp: wsc_thr_step_def outcome_simps split: option.split)

lemma wt_inv_start: "wt_inv wsc_threads0"
  by (simp add: wt_inv_def wsc_threads0_def)

interpretation wt: call_sequence wsc_thr_step "\<lambda>_. True" wt_inv
  by unfold_locales (auto intro: wsc_thr_step_cases wt_inv_act)

lemma wt_inv_run: "wt_inv s \<Longrightarrow> wt_inv (run_calls wsc_thr_step s acts)"
  by (rule wt.run_keeps) (simp_all add: list_all_iff)

section \<open>The operations take effect one at a time\<close>

text \<open>The operations of \<open>Ws_Client\<close> that take effect in an action.\<close>

fun op_calls :: "wsc_op \<Rightarrow> 'h wsc_call list" where
  "op_calls (OpConnect uri answer) = [Connect uri (map_option (\<lambda>con. (con, True)) answer)]"
| "op_calls OpClose = [Close (\<lambda>_. True)]"
| "op_calls OpIsConnected = []"

fun pc_effects :: "call_pc \<Rightarrow> 'h wsc_call list" where
  "pc_effects (T_Section op) = op_calls op"
| "pc_effects pc = []"

fun lib_effects :: "lib_pc \<Rightarrow> 'h wsc_call list" where
  "lib_effects (L_Section rep) = [report_call rep]"
| "lib_effects (L_Nested h pc) = pc_effects pc"
| "lib_effects pc = []"

fun effects :: "'h wsc_action \<Rightarrow> 'h wsc_threads \<Rightarrow> 'h wsc_call list" where
  "effects LibRuns s = lib_effects (wt_lib s)"
| "effects (ClientRuns c) s = (case wt_clients s c of C_In pc \<Rightarrow> pc_effects pc | C_Out \<Rightarrow> [])"
| "effects (Unlocked call) s = (if takes_no_mutex call then [call] else [])"
| "effects a s = []"

fun thr_history :: "'h wsc_threads \<Rightarrow> 'h wsc_action list \<Rightarrow> 'h wsc_call list" where
  "thr_history s [] = []"
| "thr_history s (a # acts) = effects a s @ thr_history (state_of (wsc_thr_step s a)) acts"

text \<open>
  What the threads see of the client is what the operations make of it. The handle of an opening
  connection is stored before its handler has the mutex.
\<close>

fun opening_hdl :: "lib_pc \<Rightarrow> connection_hdl option" where
  "opening_hdl (L_Lock (R_Open con server)) = Some con"
| "opening_hdl (L_Section (R_Open con server)) = Some con"
| "opening_hdl pc = None"

definition same_client :: "'h wsc_threads \<Rightarrow> 'h ws_client \<Rightarrow> bool" where
  "same_client s b \<longleftrightarrow>
     (wt_imp s)\<lparr>waiting_connects := [], m_connection_hdl := None\<rparr> = b\<lparr>waiting_connects := [], m_connection_hdl := None\<rparr>
     \<and> m_connection_hdl (wt_imp s) = (case opening_hdl (wt_lib s) of Some con \<Rightarrow> Some con | None \<Rightarrow> m_connection_hdl b)"

lemma same_client_fields:
  "same_client s b \<longleftrightarrow> m_uri (wt_imp s) = m_uri b \<and> Ws_Client.m_server (wt_imp s) = Ws_Client.m_server b
     \<and> m_error_reason (wt_imp s) = m_error_reason b \<and> m_connected (wt_imp s) = m_connected b
     \<and> Ws_Client.m_messageHandlerFunc (wt_imp s) = Ws_Client.m_messageHandlerFunc b
     \<and> Ws_Client.m_messageStrHandlerFunc (wt_imp s) = Ws_Client.m_messageStrHandlerFunc b
     \<and> Ws_Client.m_openHandlerFunc (wt_imp s) = Ws_Client.m_openHandlerFunc b
     \<and> Ws_Client.m_closeHandlerFunc (wt_imp s) = Ws_Client.m_closeHandlerFunc b
     \<and> m_connection_hdl (wt_imp s) = (case opening_hdl (wt_lib s) of Some con \<Rightarrow> Some con | None \<Rightarrow> m_connection_hdl b)"
  unfolding same_client_def by (cases "wt_imp s"; cases b) (auto simp: ws_client.defs)

lemma opening_wakes [simp]: "opening_hdl (wakes_lib pc) = opening_hdl pc"
  by (cases pc) simp_all

text \<open>An operation does the same on both sides and leaves the thread of the library in its handler.\<close>

lemma call_step_same:
  assumes "call_step th pc s = Some (outs, pc', t)" and "same_client s b"
  shows "same_client t (run_calls wsc_step b (pc_effects pc))"
  using assms by (cases "(th, pc, s)" rule: call_step.cases)
    (clarsimp simp: same_client_fields wsc_op_defs outcome_simps Let_def cong: option.case_cong
      split: if_split_asm option.split_asm)+

lemma same_client_moves:
  "same_client (s\<lparr>wt_clients := cl\<rparr>) b = same_client s b"
  "opening_hdl (wt_lib s) = opening_hdl pc \<Longrightarrow> same_client (s\<lparr>wt_lib := pc\<rparr>) b = same_client s b"
  by (simp_all add: same_client_fields)

lemma lib_reports_same:
  assumes "wt_lib s = L_Run" and "same_client s b"
  shows "same_client (snd (lib_reports rep s)) b"
  using assms by (cases rep) (auto simp: same_client_fields message_bytes_def split: option.splits)

lemma report_section_same:
  assumes "wt_lib s = L_Section rep" and "same_client s b"
  shows "same_client (snd (report_section rep s)) (run_calls wsc_step b [report_call rep])"
  using assms by (cases rep)
    (auto simp: same_client_fields report_section_def Let_def wsc_op_defs outcome_simps split: option.splits)

lemma lib_step_same:
  assumes "lib_step (wt_lib s) s = Some (outs, t)" and "same_client s b"
  shows "same_client t (run_calls wsc_step b (lib_effects (wt_lib s)))"
proof (cases "wt_lib s")
  case (L_Nested h pc)
  with assms(1) obtain pc' t' where step: "call_step LibThread pc s = Some (outs, pc', t')"
    and t: "t = t'\<lparr>wt_lib := lib_after h pc'\<rparr>" by (auto split: option.splits)
  have "opening_hdl (wt_lib t') = opening_hdl (lib_after h pc')"
    using call_step_mux(2) [OF step] L_Nested by (cases pc') auto
  with call_step_same [OF step assms(2)] L_Nested t show ?thesis by (simp add: same_client_moves)
next
  case (L_Section rep)
  with assms report_section_same [OF L_Section assms(2)] show ?thesis by simp
next
  case (L_Lock rep)
  with assms show ?thesis by (cases rep) (auto simp: same_client_fields split: if_splits)
next
  case (L_User h)
  with assms show ?thesis
    by (cases "(wt_lib s, s)" rule: lib_step.cases) (auto simp: same_client_fields message_bytes_def split: option.splits)
qed (use assms in simp)

lemma register_same:
  "same_client s b \<Longrightarrow> same_client (s\<lparr>wt_imp := wsc_register slot hndl (wt_imp s)\<rparr>) (wsc_register slot hndl b)"
  by (cases slot) (simp_all add: same_client_fields cong: option.case_cong)

lemma wsc_act_same:
  assumes "wsc_act a s = Some (outs, t)" and "same_client s b"
  shows "same_client t (run_calls wsc_step b (effects a s))"
proof (cases a)
  case LibRuns
  with assms lib_step_same show ?thesis by simp
next
  case (ClientRuns c)
  with assms call_step_same show ?thesis
    by (auto simp: same_client_moves split: wsc_client_pc.splits option.splits)
next
  case (LibReports rep)
  with assms lib_reports_same [of s b rep] show ?thesis by (auto split: if_splits)
next
  case (Unlocked call)
  with assms show ?thesis
    by (cases call rule: takes_no_mutex.cases)
      (auto simp: register_same same_client_moves wsc_op_defs outcome_simps split: if_splits)
next
  case (HandlerCalls op)
  with assms show ?thesis by (auto simp: same_client_fields split: lib_pc.splits)
next
  case (SpuriousWakeup th)
  with assms show ?thesis by (cases th) (auto simp: same_client_fields)
qed (use assms in \<open>auto simp: same_client_fields split: if_splits\<close>)

lemma call_blocked: "call_step th pc s = None \<Longrightarrow> pc_effects pc = []"
  by (cases "(th, pc, s)" rule: call_step.cases) auto

lemma effects_blocked:
  assumes "wsc_act a s = None"
  shows "effects a s = []"
proof (cases a)
  case LibRuns
  with assms show ?thesis
    by (cases "(wt_lib s, s)" rule: lib_step.cases) (auto simp: call_blocked split: option.splits)
next
  case (ClientRuns c)
  with assms show ?thesis by (auto simp: call_blocked split: wsc_client_pc.splits option.splits)
qed (use assms in \<open>auto split: if_splits\<close>)

lemma wsc_thr_run_same:
  "same_client s b \<Longrightarrow> same_client (run_calls wsc_thr_step s acts) (run_calls wsc_step b (thr_history s acts))"
proof (induction acts arbitrary: s b)
  case (Cons a acts)
  have "same_client (state_of (wsc_thr_step s a)) (run_calls wsc_step b (effects a s))"
    using Cons.prems
    by (cases "wsc_act a s") (auto simp: wsc_thr_step_def outcome_simps effects_blocked wsc_act_same)
  from Cons.IH [OF this] show ?case by (simp add: run_calls_append)
qed simp

section \<open>No connect is forgotten\<close>

text \<open>An operation that will make the connection \<open>con\<close>, and one that sleeps on it.\<close>

fun makes :: "connection_hdl \<Rightarrow> call_pc \<Rightarrow> bool" where
  "makes con (T_Lock (OpConnect uri answer)) = (answer = Some con)"
| "makes con (T_Section (OpConnect uri answer)) = (answer = Some con)"
| "makes con pc = False"

definition all_calls :: "(call_pc \<Rightarrow> bool) \<Rightarrow> 'h wsc_threads \<Rightarrow> bool" where
  "all_calls P s \<longleftrightarrow> (\<forall>c pc. wt_clients s c = C_In pc \<longrightarrow> P pc) \<and> (\<forall>h pc. wt_lib s = L_Nested h pc \<longrightarrow> P pc)"

definition asleep_on :: "connection_hdl \<Rightarrow> 'h wsc_threads \<Rightarrow> bool" where
  "asleep_on con s \<longleftrightarrow> \<not> all_calls (\<lambda>pc. pc \<noteq> T_Asleep con) s"

definition settled :: "connection_hdl \<Rightarrow> 'h wsc_threads \<Rightarrow> bool" where
  "settled con s \<longleftrightarrow> con \<notin> wt_connecting s \<and> all_calls (\<lambda>pc. \<not> makes con pc) s"

fun op_makes :: "connection_hdl \<Rightarrow> wsc_op \<Rightarrow> bool" where
  "op_makes con (OpConnect uri answer) = (answer = Some con)"
| "op_makes con op = False"

fun connects_to :: "connection_hdl \<Rightarrow> 'h wsc_action \<Rightarrow> bool" where
  "connects_to con (HandlerCalls op) = op_makes con op"
| "connects_to con (ClientCalls c op) = op_makes con op"
| "connects_to con a = False"

lemma makes_wakes [simp]: "makes con (wakes pc) = makes con pc" "wakes pc \<noteq> T_Asleep con" "T_Asleep con \<noteq> wakes pc"
  by (cases pc; simp)+

lemma makes_op [simp]: "makes con (T_Lock op) = op_makes con op" "makes con (T_Section op) = op_makes con op"
  by (cases op; simp)+

lemma wakes_eq [simp]: "wakes_client p = C_In pc \<longleftrightarrow> (\<exists>q. p = C_In q \<and> pc = wakes q)"
    "wakes_lib l = L_Nested h pc \<longleftrightarrow> (\<exists>q. l = L_Nested h q \<and> pc = wakes q)"
  by (cases p; auto) (cases l; auto)

definition told :: "connection_hdl \<Rightarrow> 'h wsc_threads \<Rightarrow> bool" where
  "told con s \<longleftrightarrow> settled con s \<and> \<not> asleep_on con s"

lemmas told_defs = told_def settled_def asleep_on_def all_calls_def

lemma call_step_told:
  assumes "call_step th pc s = Some (outs, pc', t)" and "con \<notin> wt_connecting s" and "\<not> makes con pc"
  shows "con \<notin> wt_connecting t" and "pc' = Some p \<Longrightarrow> \<not> makes con p \<and> p \<noteq> T_Asleep con"
  using assms by (cases "(th, pc, s)" rule: call_step.cases; auto simp: Let_def split: if_splits option.splits)+

text \<open>What holds at the points of all operations, before and after a step of one of them.\<close>

lemma call_step_others:
  assumes "call_step th pc s = Some (outs, pc', t)" and "all_calls P s" and wakes: "\<And>pc. P pc \<Longrightarrow> P (wakes pc)"
  shows "all_calls P t"
proof -
  from assms(2) wakes have "P pc" if "wt_clients t c = C_In pc" for c pc
    using call_step_mux(3) [OF assms(1)] that by (auto simp: all_calls_def)
  moreover have "P pc" if "wt_lib t = L_Nested h pc" for h pc
    using call_step_mux(2) [OF assms(1)] assms(2) wakes that unfolding all_calls_def by (metis wakes_eq(2))
  ultimately show ?thesis by (simp add: all_calls_def)
qed

lemma all_calls_after:
  assumes "all_calls P t" and "\<And>p. pc' = Some p \<Longrightarrow> P p"
  shows "all_calls P (t\<lparr>wt_clients := (wt_clients t)(c := client_after pc')\<rparr>)"
    and "all_calls P (t\<lparr>wt_lib := lib_after h pc'\<rparr>)"
  using assms by (cases pc'; auto simp: all_calls_def)+

lemma told_calls:
  "told con s \<longleftrightarrow> con \<notin> wt_connecting s \<and> all_calls (\<lambda>pc. \<not> makes con pc \<and> pc \<noteq> T_Asleep con) s"
  by (auto simp: told_defs)

lemma told_client:
  assumes step: "call_step (ClientThread c) pc s = Some (outs, pc', t)" and "wt_clients s c = C_In pc" and "told con s"
  shows "told con (t\<lparr>wt_clients := (wt_clients t)(c := client_after pc')\<rparr>)"
proof -
  have "con \<notin> wt_connecting s" "\<not> makes con pc" using assms(2,3) by (auto simp: told_calls all_calls_def)
  from call_step_told [OF step this] assms(3) show ?thesis
    by (auto simp: told_calls intro!: all_calls_after call_step_others [OF step])
qed

lemma told_nested:
  assumes step: "call_step LibThread pc s = Some (outs, pc', t)" and "wt_lib s = L_Nested h pc" and "told con s"
  shows "told con (t\<lparr>wt_lib := lib_after h pc'\<rparr>)"
proof -
  have "con \<notin> wt_connecting s" "\<not> makes con pc" using assms(2,3) by (auto simp: told_calls all_calls_def)
  from call_step_told [OF step this] assms(3) show ?thesis
    by (auto simp: told_calls intro!: all_calls_after call_step_others [OF step])
qed

lemma report_section_told: "wt_lib s = L_Section rep \<Longrightarrow> settled con s \<Longrightarrow> told con (snd (report_section rep s))"
  by (auto simp: told_defs report_section_def Let_def)

lemma lib_reports_lib: "wt_lib (snd (lib_reports rep s)) \<noteq> L_Nested h pc" if "wt_lib s = L_Run"
  using that by (cases rep) (auto simp: message_bytes_def split: option.splits)

lemma lib_reports_told: "told con (snd (lib_reports rep s)) = told con s" if "wt_lib s = L_Run"
  using that by (cases rep) (auto simp: told_defs message_bytes_def split: option.splits)

lemma told_act:
  assumes "wsc_act a s = Some (outs, t)" and "told con s" and "\<not> connects_to con a"
  shows "told con t"
proof (cases a)
  case LibRuns
  show ?thesis
  proof (cases "wt_lib s")
    case (L_Nested h pc)
    with assms LibRuns told_nested show ?thesis by (auto split: option.splits)
  next
    case (L_Section rep)
    with assms LibRuns report_section_told [OF L_Section, of con] show ?thesis by (simp add: told_def)
  next
    case (L_User h)
    with assms LibRuns show ?thesis
      by (cases "(wt_lib s, s)" rule: lib_step.cases) (auto simp: told_defs message_bytes_def split: option.splits)
  qed (use assms LibRuns in \<open>auto simp: told_defs split: if_splits\<close>)
next
  case (ClientRuns c)
  with assms told_client show ?thesis by (auto split: wsc_client_pc.splits option.splits)
next
  case (LibReports rep)
  with assms lib_reports_told [of s con rep] show ?thesis by (auto split: if_splits)
next
  case (SpuriousWakeup th)
  with assms show ?thesis by (cases th) (auto simp: told_defs split: if_splits)
qed (use assms in \<open>auto simp: told_defs split: if_splits lib_pc.splits\<close>)

interpretation told: call_sequence wsc_thr_step "\<lambda>a. \<not> connects_to con a" "told con" for con
  by unfold_locales (rule wsc_thr_step_cases; blast intro: told_act)

text \<open>Until the library has told of a settled connection, it stays settled.\<close>

definition telling :: "connection_hdl \<Rightarrow> wsc_report \<Rightarrow> 'h wsc_threads \<Rightarrow> bool" where
  "telling con rep s \<longleftrightarrow> (wt_lib s = L_Lock rep \<or> wt_lib s = L_Section rep) \<and> settled con s \<or> told con s"

lemma settled_client:
  assumes step: "call_step (ClientThread c) pc s = Some (outs, pc', t)" and "wt_clients s c = C_In pc" and "settled con s"
  shows "settled con (t\<lparr>wt_clients := (wt_clients t)(c := client_after pc')\<rparr>)"
proof -
  have "con \<notin> wt_connecting s" "\<not> makes con pc" using assms(2,3) by (auto simp: settled_def all_calls_def)
  from call_step_told [OF step this] assms(3) show ?thesis
    by (auto simp: settled_def intro!: all_calls_after call_step_others [OF step])
qed

lemma telling_act:
  assumes "wsc_act a s = Some (outs, t)" and "telling con rep s" and "\<not> connects_to con a"
  shows "telling con rep t"
proof (cases "told con s")
  case True
  with assms show ?thesis by (simp add: telling_def told_act)
next
  case False
  with assms(2) have lib: "wt_lib s = L_Lock rep \<or> wt_lib s = L_Section rep" and "settled con s"
    by (auto simp: telling_def)
  show ?thesis
  proof (cases a)
    case (ClientRuns c)
    with assms(1) obtain pc pc' t' where step: "call_step (ClientThread c) pc s = Some (outs, pc', t')"
      and pc: "wt_clients s c = C_In pc" and t: "t = t'\<lparr>wt_clients := (wt_clients t')(c := client_after pc')\<rparr>"
      by (auto split: wsc_client_pc.splits option.splits)
    from settled_client [OF step pc \<open>settled con s\<close>] call_step_mux(2) [OF step] lib t show ?thesis
      by (auto simp: telling_def)
  next
    case LibRuns
    with assms lib \<open>settled con s\<close> report_section_told [of s rep con] show ?thesis
      by (auto simp: telling_def settled_def all_calls_def split: if_splits)
  next
    case (SpuriousWakeup th)
    with assms lib \<open>settled con s\<close> show ?thesis
      by (cases th) (auto simp: telling_def settled_def all_calls_def split: if_splits)
  qed (use assms lib \<open>settled con s\<close> in \<open>auto simp: telling_def settled_def all_calls_def split: if_splits\<close>)
qed

interpretation telling: call_sequence wsc_thr_step "\<lambda>a. \<not> connects_to con a" "telling con rep" for con rep
  by unfold_locales (rule wsc_thr_step_cases; blast intro: telling_act)

lemma telling_starts:
  assumes "wt_lib s = L_Run" and "\<forall>c pc. wt_clients s c = C_In pc \<longrightarrow> \<not> makes con pc" and "\<nexists>c payload. rep = R_Message c payload"
  shows "telling con rep (run_calls wsc_thr_step s [LibSettles con, LibReports rep])"
  using assms by (cases rep) (auto simp: telling_def settled_def all_calls_def wsc_thr_step_def outcome_simps)

text \<open>A woken \<^verbatim>\<open>connect\<close> returns when it has the mutex, unless its connection is connecting.\<close>

lemma woken_returns:
  assumes "wt_clients s c = C_In (T_Woken con)" and "con \<notin> wt_connecting s" and "wt_mux s = None"
  shows "run_outs wsc_thr_step s [ClientRuns c, ClientRuns c] = [WscConnectReturns con]"
    and "wt_clients (run_calls wsc_thr_step s [ClientRuns c, ClientRuns c]) c = C_Out"
  using assms by (simp_all add: wsc_thr_step_def outcome_simps)

section \<open>Calls from a handler\<close>

definition handler_stuck :: "wsc_op \<Rightarrow> 'h wsc_threads \<Rightarrow> bool" where
  "handler_stuck op s \<longleftrightarrow> wt_inv s \<and> wt_lib s = L_Nested H_Locked (T_Lock op)"

lemma stuck_client:
  assumes "handler_stuck op s"
  shows "wsc_act (ClientRuns c) s = None"
proof (cases "wt_clients s c")
  case (C_In pc)
  have mux: "wt_mux s = Some LibThread" using assms by (auto simp: handler_stuck_def wt_inv_def)
  moreover have "\<not> call_holds pc" using assms mux C_In unfolding handler_stuck_def wt_inv_def
    by (metis client_holds.simps(1) option.inject wsc_thread.distinct(1))
  ultimately show ?thesis using C_In by (cases "(ClientThread c, pc, s)" rule: call_step.cases) auto
qed simp

lemma stuck_act:
  assumes "wsc_act a s = Some (outs, t)" and "handler_stuck op s"
  shows "handler_stuck op t" and "wt_clients s c \<noteq> C_Out \<Longrightarrow> wt_clients t c \<noteq> C_Out"
proof -
  have lib: "wt_lib s = L_Nested H_Locked (T_Lock op)" and mux: "wt_mux s = Some LibThread"
    using assms(2) by (auto simp: handler_stuck_def wt_inv_def)
  have "wt_inv t" using assms wt_inv_act by (auto simp: handler_stuck_def)
  moreover have "wt_lib t = wt_lib s \<and> (wt_clients s c \<noteq> C_Out \<longrightarrow> wt_clients t c \<noteq> C_Out)"
  proof (cases a)
    case (ClientRuns c')
    with assms(1) show ?thesis unfolding ClientRuns stuck_client [OF assms(2)] by simp
  next
    case (SpuriousWakeup th)
    with assms(1) lib show ?thesis by (cases th; cases "wt_clients s c") (auto split: if_splits)
  qed (use assms(1) lib mux in \<open>auto split: if_splits\<close>)
  ultimately show "handler_stuck op t" "wt_clients s c \<noteq> C_Out \<Longrightarrow> wt_clients t c \<noteq> C_Out"
    using lib by (simp_all add: handler_stuck_def)
qed

definition stuck_with :: "wsc_op \<Rightarrow> nat set \<Rightarrow> 'h wsc_threads \<Rightarrow> bool" where
  "stuck_with op C s \<longleftrightarrow> handler_stuck op s \<and> (\<forall>c\<in>C. wt_clients s c \<noteq> C_Out)"

lemma stuck_with_act: "wsc_act a s = Some (outs, t) \<Longrightarrow> stuck_with op C s \<Longrightarrow> stuck_with op C t"
  unfolding stuck_with_def by (meson stuck_act)

interpretation stuck: call_sequence wsc_thr_step "\<lambda>_. True" "stuck_with op C" for op C
  by unfold_locales (rule wsc_thr_step_cases; blast intro: stuck_with_act)

text \<open>A \<^verbatim>\<open>connect\<close> on the thread of the library: the connection stays connecting.\<close>

fun connects_in :: "connection_hdl \<Rightarrow> connection_hdl set \<Rightarrow> call_pc \<Rightarrow> bool" where
  "connects_in con X (T_Lock op) = op_makes con op"
| "connects_in con X (T_Section op) = op_makes con op"
| "connects_in con X (T_Check con') = (con' = con \<and> con \<in> X)"
| "connects_in con X (T_Asleep con') = (con' = con \<and> con \<in> X)"
| "connects_in con X (T_Woken con') = (con' = con \<and> con \<in> X)"

definition waits_for_itself :: "connection_hdl \<Rightarrow> user_handler \<Rightarrow> 'h wsc_threads \<Rightarrow> bool" where
  "waits_for_itself con h s \<longleftrightarrow> \<not> m_connected (wt_imp s)
     \<and> (\<exists>pc. wt_lib s = L_Nested h pc \<and> connects_in con (wt_connecting s) pc)"

lemma connects_in_wakes [simp]: "connects_in con X (wakes pc) = connects_in con X pc"
  by (cases pc) simp_all

lemma connects_in_mono: "connects_in con X pc \<Longrightarrow> X \<subseteq> Y \<Longrightarrow> connects_in con Y pc"
  by (cases pc) auto

lemma call_step_frame:
  assumes "call_step th pc s = Some (outs, pc', t)"
  shows "wt_connecting s \<subseteq> wt_connecting t" and "m_connected (wt_imp t) \<Longrightarrow> m_connected (wt_imp s)"
  using assms by (cases "(th, pc, s)" rule: call_step.cases; auto simp: Let_def split: if_splits option.splits)+

lemma call_step_connects:
  assumes "call_step th pc s = Some (outs, pc', t)" and "connects_in con (wt_connecting s) pc" and "\<not> m_connected (wt_imp s)"
  shows "\<exists>p. pc' = Some p \<and> connects_in con (wt_connecting t) p"
  using assms by (cases "(th, pc, s)" rule: call_step.cases) (auto simp: Let_def split: if_splits option.splits)

lemma waits_client:
  assumes step: "call_step (ClientThread c) pc s = Some (outs, pc', t)" and "waits_for_itself con h s"
  shows "waits_for_itself con h (t\<lparr>wt_clients := (wt_clients t)(c := client_after pc')\<rparr>)"
proof -
  obtain p where "wt_lib s = L_Nested h p" "connects_in con (wt_connecting s) p" and off: "\<not> m_connected (wt_imp s)"
    using assms(2) by (auto simp: waits_for_itself_def)
  moreover have "wt_lib t = L_Nested h p \<or> wt_lib t = L_Nested h (wakes p)"
    using call_step_mux(2) [OF step] calculation(1) by auto
  ultimately have "\<exists>q. wt_lib t = L_Nested h q \<and> connects_in con (wt_connecting t) q"
    using connects_in_mono call_step_frame(1) [OF step] by auto
  then show ?thesis using call_step_frame(2) [OF step] off by (auto simp: waits_for_itself_def)
qed

lemma unlocked_says: "takes_no_mutex call \<Longrightarrow> wsc_says call = []"
  by (cases call) simp_all

lemma waits_act:
  assumes "wsc_act a s = Some (outs, t)" and "waits_for_itself con h s"
  shows "waits_for_itself con h t"
proof -
  obtain p where lib: "wt_lib s = L_Nested h p" and p: "connects_in con (wt_connecting s) p"
      and off: "\<not> m_connected (wt_imp s)"
    using assms(2) by (auto simp: waits_for_itself_def)
  show ?thesis
  proof (cases a)
    case LibRuns
    with assms(1) lib obtain pc' t' where step: "call_step LibThread p s = Some (outs, pc', t')"
      and t: "t = t'\<lparr>wt_lib := lib_after h pc'\<rparr>" by (auto split: option.splits)
    from call_step_connects [OF step p off] call_step_frame(2) [OF step] off t show ?thesis
      by (auto simp: waits_for_itself_def)
  next
    case (ClientRuns c)
    with assms waits_client show ?thesis by (auto split: wsc_client_pc.splits option.splits)
  next
    case (SpuriousWakeup th)
    with assms(1) lib p off show ?thesis by (cases th) (auto simp: waits_for_itself_def)
  next
    case (Unlocked call)
    with assms(1) lib p off show ?thesis
      by (auto simp: waits_for_itself_def wsc_step_connected unlocked_says simp del: wsc_step.simps split: if_splits)
  qed (use assms(1) lib p off in \<open>auto simp: waits_for_itself_def split: if_splits\<close>)
qed

interpretation waits: call_sequence wsc_thr_step "\<lambda>_. True" "waits_for_itself con h" for con h
  by unfold_locales (rule wsc_thr_step_cases; blast intro: waits_act)

section \<open>Properties\<close>

lemmas thr_eval = wsc_thr_step_def wsc_threads0_def ws_client0_def wsc_notify_all_def report_section_def message_bytes_def
  wsc_op_defs outcome_simps Let_def

text \<open>
  C25: the operations take effect one at a time. However the threads interleave, the client they
  leave is the one the operations of \<open>Ws_Client\<close> leave when each is made at the moment its body
  runs, in that order, apart from the handle of an \<^verbatim>\<open>on_open\<close> that still waits for the mutex; so
  the flag is the last word in that order.
\<close>

theorem ws_threads_one_at_a_time:
  "let s = run_calls wsc_thr_step wsc_threads0 acts; calls = thr_history wsc_threads0 acts
   in same_client s (run_calls wsc_step ws_client0 calls)
     \<and> m_connected (wt_imp s) = last (False # concat (map wsc_says calls))"
proof -
  have "same_client wsc_threads0 ws_client0" by (simp add: wsc_threads0_def same_client_def)
  from wsc_thr_run_same [OF this, of acts] show ?thesis
    by (simp add: Let_def same_client_fields wsc_run_connected) (simp add: ws_client0_def)
qed

text \<open>
  C26: no \<^verbatim>\<open>connect\<close> is forgotten. When the library has settled a connection and reports it, opened,
  failed or closed, while nobody is about to make it, then from the moment the body of its handler
  has run nobody sleeps on it, whatever the threads do; and a client that was woken returns with two
  steps of its own once the mutex is free.
\<close>

theorem ws_connect_not_forgotten:
  assumes "wt_lib s = L_Run" and "\<forall>c pc. wt_clients s c = C_In pc \<longrightarrow> \<not> makes con pc"
    and "\<nexists>c payload. rep = R_Message c payload" and "list_all (\<lambda>a. \<not> connects_to con a) acts"
  shows "let t = run_calls wsc_thr_step s (LibSettles con # LibReports rep # acts)
    in wt_lib t = L_Lock rep \<or> wt_lib t = L_Section rep
      \<or> \<not> asleep_on con t \<and> (wt_clients t c = C_In (T_Woken con) \<and> wt_mux t = None \<longrightarrow>
          run_outs wsc_thr_step t [ClientRuns c, ClientRuns c] = [WscConnectReturns con]
          \<and> wt_clients (run_calls wsc_thr_step t [ClientRuns c, ClientRuns c]) c = C_Out)"
proof -
  have "telling con rep (run_calls wsc_thr_step (run_calls wsc_thr_step s [LibSettles con, LibReports rep]) acts)"
    by (intro telling.run_keeps telling_starts assms)
  then show ?thesis using woken_returns
    by (auto simp: telling_def told_def settled_def Let_def simp del: run_outs.simps)
qed

text \<open>A client that sleeps in \<^verbatim>\<open>connect\<close>, and what it has done.\<close>

definition sleeping_client :: "nat wsc_threads" where
  "sleeping_client = run_calls wsc_thr_step wsc_threads0
     [Unlocked (Register WscOpenSlot (Some 1)), Unlocked (Register WscMessageSlot (Some 2)),
      ClientCalls 0 (OpConnect ''ws'' (Some 7)), ClientRuns 0, ClientRuns 0, ClientRuns 0]"

lemma sleeping_client_eq:
  "sleeping_client = \<lparr>wt_imp = ws_client0\<lparr>m_uri := ''ws'', Ws_Client.m_openHandlerFunc := Some 1, Ws_Client.m_messageHandlerFunc := Some 2\<rparr>,
     wt_mux = None, wt_lib = L_Run, wt_clients = (\<lambda>_. C_Out)(0 := C_In (T_Asleep 7)), wt_connecting = {7}\<rparr>"
  by (simp add: sleeping_client_def thr_eval)

theorem ws_connect_not_forgotten_witness:
  "let t = run_calls wsc_thr_step sleeping_client [LibSettles 7, LibReports (R_Open 7 ''srv''), LibRuns, LibRuns, LibRuns]
   in asleep_on 7 sleeping_client \<and> \<not> asleep_on 7 t
     \<and> run_outs wsc_thr_step t [ClientRuns 0, ClientRuns 0] = [WscConnectReturns 7]"
proof -
  have "asleep_on 7 sleeping_client" by (simp add: sleeping_client_eq asleep_on_def all_calls_def)
  moreover have "list_all (\<lambda>a. \<not> connects_to 7 a) [LibRuns, LibRuns, LibRuns :: nat wsc_action]" by simp
  ultimately show ?thesis
    using ws_connect_not_forgotten [of sleeping_client 7 "R_Open 7 ''srv''" "[LibRuns, LibRuns, LibRuns]" 0]
    by (simp add: sleeping_client_eq thr_eval)
qed

text \<open>
  C27: a handler called with the mutex held must not call back. When the handler for an opened or a
  closed connection calls \<^verbatim>\<open>connect\<close>, \<^verbatim>\<open>close\<close> or \<^verbatim>\<open>isConnected\<close>, the thread of the library waits
  for a mutex it holds itself: it is there whatever happens then, and no client that is or gets into
  one of these operations ever comes out of it.
\<close>

theorem ws_handler_deadlock:
  assumes "wt_lib (run_calls wsc_thr_step wsc_threads0 acts) = L_User H_Locked"
  shows "let s = run_calls wsc_thr_step wsc_threads0 (acts @ HandlerCalls op # acts2); t = run_calls wsc_thr_step s acts3
    in wt_lib t = L_Nested H_Locked (T_Lock op) \<and> wsc_act LibRuns t = None
      \<and> (wt_clients s c \<noteq> C_Out \<longrightarrow> wt_clients t c \<noteq> C_Out)"
proof -
  let ?b = "run_calls wsc_thr_step wsc_threads0 acts"
  let ?s = "run_calls wsc_thr_step ?b (HandlerCalls op # acts2)"
  have "wt_inv ?b" by (rule wt_inv_run [OF wt_inv_start])
  then have "stuck_with op {} (state_of (wsc_thr_step ?b (HandlerCalls op)))"
    using assms by (auto simp: stuck_with_def handler_stuck_def wsc_thr_step_def outcome_simps wt_inv_def)
  then have "stuck_with op {} ?s" using stuck.run_keeps [of op "{}"] by (simp add: list_all_iff)
  then have "stuck_with op {c. wt_clients ?s c \<noteq> C_Out} ?s" by (simp add: stuck_with_def)
  then have t: "stuck_with op {c. wt_clients ?s c \<noteq> C_Out} (run_calls wsc_thr_step ?s acts3)"
    by (rule stuck.run_keeps) (simp add: list_all_iff)
  then have "wt_mux (run_calls wsc_thr_step ?s acts3) = Some LibThread"
    by (auto simp: stuck_with_def handler_stuck_def wt_inv_def)
  with t show ?thesis by (simp add: Let_def run_calls_append stuck_with_def handler_stuck_def)
qed

theorem ws_handler_deadlock_witness:
  "let s = run_calls wsc_thr_step sleeping_client ([LibSettles 7, LibReports (R_Open 7 ''srv''), LibRuns, LibRuns]
       @ HandlerCalls OpIsConnected # [ClientCalls 1 OpClose]);
     t = run_calls wsc_thr_step s [LibRuns, ClientRuns 0, ClientRuns 1]
   in wt_lib t = L_Nested H_Locked (T_Lock OpIsConnected) \<and> wt_clients t 0 \<noteq> C_Out \<and> wt_clients t 1 \<noteq> C_Out"
proof -
  define acts :: "nat wsc_action list" where
    "acts = [Unlocked (Register WscOpenSlot (Some 1)), Unlocked (Register WscMessageSlot (Some 2)),
      ClientCalls 0 (OpConnect ''ws'' (Some 7)), ClientRuns 0, ClientRuns 0, ClientRuns 0,
      LibSettles 7, LibReports (R_Open 7 ''srv''), LibRuns, LibRuns]"
  have run: "run_calls wsc_thr_step wsc_threads0 acts
      = run_calls wsc_thr_step sleeping_client [LibSettles 7, LibReports (R_Open 7 ''srv''), LibRuns, LibRuns]"
    by (simp add: acts_def sleeping_client_def)
  have "wt_lib (run_calls wsc_thr_step wsc_threads0 acts) = L_User H_Locked"
    unfolding run by (simp add: sleeping_client_eq thr_eval)
  from ws_handler_deadlock [OF this, of OpIsConnected "[ClientCalls 1 OpClose]" "[LibRuns, ClientRuns 0, ClientRuns 1]" 0]
    ws_handler_deadlock [OF this, of OpIsConnected "[ClientCalls 1 OpClose]" "[LibRuns, ClientRuns 0, ClientRuns 1]" 1]
  show ?thesis unfolding run_calls_append run
    by (simp add: Let_def) (simp add: sleeping_client_eq thr_eval)
qed

text \<open>
  A handler for messages must not connect. When it calls \<^verbatim>\<open>connect\<close> on a client that is not
  connected, the call waits for a report that only its own thread could take: whatever happens then,
  it has not returned, and no report of the library is taken any more.
\<close>

theorem ws_connect_in_message_handler:
  assumes "wt_lib s = L_User (H_Message payload)" and "\<not> m_connected (wt_imp s)"
  shows "let t = run_calls wsc_thr_step s (HandlerCalls (OpConnect uri (Some con)) # acts)
    in (\<exists>pc. wt_lib t = L_Nested (H_Message payload) pc) \<and> wsc_act (LibReports rep) t = None"
proof -
  have "waits_for_itself con (H_Message payload)
      (state_of (wsc_thr_step s (HandlerCalls (OpConnect uri (Some con)))))"
    using assms by (simp add: waits_for_itself_def wsc_thr_step_def outcome_simps)
  then have "waits_for_itself con (H_Message payload)
      (run_calls wsc_thr_step s (HandlerCalls (OpConnect uri (Some con)) # acts))"
    by (simp add: waits.run_keeps list_all_iff)
  then show ?thesis by (auto simp: waits_for_itself_def Let_def)
qed

theorem ws_connect_in_message_handler_witness:
  "let t = run_calls wsc_thr_step (run_calls wsc_thr_step sleeping_client [LibReports (R_Message 5 ''m'')])
      (HandlerCalls (OpConnect ''ws'' (Some 8)) # [LibRuns, LibRuns, LibRuns, LibSettles 8])
   in (\<exists>pc. wt_lib t = L_Nested (H_Message None) pc) \<and> wsc_act (LibReports (R_Open 8 ''srv'')) t = None"
  by (rule ws_connect_in_message_handler) (simp_all add: sleeping_client_eq thr_eval)

end
