(* ===== verification/Mqtt_Threads.thy ===== *)
theory Mqtt_Threads
  imports Mqtt_Correct
begin

text \<open>
  The threads of \<^verbatim>\<open>src/MqttService/MqttService.cpp\<close>. \<open>Mqtt\<close> takes its member functions and the
  callbacks of the library as operations. Here a request to the library and the registration of its
  handlers are two steps, the callbacks run on any thread of the library, \<^verbatim>\<open>m_subscriptionDataMutex\<close>
  and \<^verbatim>\<open>m_publishDataMutex\<close> are mutexes, and the handlers of the user are called with one of them
  held and may call the service themselves.
\<close>

section \<open>State\<close>

datatype data_mutex = SubscriptionData | PublishData

text \<open>What a request registers under its mutex once the library has accepted it.\<close>

datatype 'h registration =
    RegSubscribe token topic int "'h on_subscribe" "'h on_message"
  | RegUnsubscribe token topic "'h option"
  | RegPublish token "'h PublishContext"

fun reg_mutex :: "'h registration \<Rightarrow> data_mutex" where
  "reg_mutex (RegSubscribe token topic qos onSubscribe onMessage) = SubscriptionData"
| "reg_mutex (RegUnsubscribe token topic onUnsubscribe) = SubscriptionData"
| "reg_mutex (RegPublish token pc) = PublishData"

text \<open>
  A call a callback still has to make. The handlers a context or a subscription holds are known when
  the mutex is taken; the lambda for messages of the obsolete \<^verbatim>\<open>subscribe\<close> reads the two registered
  handlers when it comes to them, and a handler called before may have registered others.
\<close>

datatype 'h pending = Now "'h mqtt_out" | LegacyMessage topic string | LegacyMessageStr topic string

text \<open>
  What a thread is in, innermost first: at the lock of a registration, at the lock of a callback, in
  a handler of the user with the mutex held and the calls of handlers still to be made.
\<close>

datatype 'h frame = At_Register "'h registration" | At_Callback "'h mqtt_call" | In_Handler data_mutex "'h pending list"

record 'h mqtt_threads =
  mt_imp :: "'h mqtt"
  mt_owner :: "data_mutex \<Rightarrow> nat option"
  mt_stack :: "nat \<Rightarrow> 'h frame list"

definition mqtt_threads0 :: "'h mqtt_threads" where
  "mqtt_threads0 = \<lparr>mt_imp = mqtt0, mt_owner = (\<lambda>_. None), mt_stack = (\<lambda>_. [])\<rparr>"

section \<open>Requests\<close>

fun register_data :: "'h registration \<Rightarrow> 'h mqtt \<Rightarrow> 'h mqtt" where
  "register_data (RegSubscribe token topic qos onSubscribe onMessage) s =
     subscribe_register token topic qos onSubscribe onMessage s"
| "register_data (RegUnsubscribe token topic onUnsubscribe) s = s\<lparr>
     m_onMessageHndlMap := sm_erase topic (m_onMessageHndlMap s),
     m_unsubscribeContextMap := sm_assign token
       \<lparr>uc_topic = topic, uc_onUnsubscribeHndl = onUnsubscribe\<rparr> (m_unsubscribeContextMap s)\<rparr>"
| "register_data (RegPublish token pc) s =
     (if length (m_publishContextMap s) > to_size_t (m_bufferSize (cfg s)) then s
      else s\<lparr>m_publishContextMap := sm_assign token pc (m_publishContextMap s)\<rparr>)"

text \<open>
  A member function up to its mutex: the call of the library and what it goes on to register, nothing
  when it throws or returns before. The members that take no mutex have no such part.
\<close>

definition request_when :: "bool \<Rightarrow> 'h mqtt_out \<Rightarrow> 'h registration \<Rightarrow> 'h mqtt \<Rightarrow> 'h mqtt_out list \<times> 'h registration option" where
  "request_when accepted out reg s =
     (if m_client s = None then ([], None) else ([out], if accepted then Some reg else None))"

fun call_request :: "'h mqtt_call \<Rightarrow> 'h mqtt \<Rightarrow> ('h mqtt_out list \<times> 'h registration option) option" where
  "call_request (Subscribe topic qos onSubscribe onMessage r) s = Some (request_when (rr_code r = MQTTASYNC_SUCCESS)
     (PahoSubscribe topic qos) (RegSubscribe (rr_token r) topic qos onSubscribe onMessage) s)"
| "call_request (SubscribeLegacy topic qos r) s = Some (request_when (rr_code r = MQTTASYNC_SUCCESS)
     (PahoSubscribe topic qos) (RegSubscribe (rr_token r) topic qos SubLegacy MsgLegacy) s)"
| "call_request (Unsubscribe topic onUnsubscribe r) s = Some (request_when (rr_code r = MQTTASYNC_SUCCESS)
     (PahoUnsubscribe topic) (RegUnsubscribe (rr_token r) topic onUnsubscribe) s)"
| "call_request (Publish topic qos msg onSend onDelivery r) s = Some (request_when (rr_code r = MQTTASYNC_SUCCESS)
     (PahoSendMessage topic qos msg) (RegPublish (rr_token r) \<lparr>pc_topic = topic, pc_qos = qos, pc_msg = msg,
       pc_onSendHndl = onSend, pc_onDeliveryHndl = onDelivery\<rparr>) s)"
| "call_request (PublishPlain topic qos msg r) s = Some (request_when (rr_code r = MQTTASYNC_SUCCESS)
     (PahoSendMessage topic qos msg) (RegPublish (rr_token r) \<lparr>pc_topic = topic, pc_qos = qos, pc_msg = msg,
       pc_onSendHndl = SendLog, pc_onDeliveryHndl = DeliveryLog\<rparr>) s)"
| "call_request c s = None"

section \<open>Callbacks\<close>

fun is_callback :: "'h mqtt_call \<Rightarrow> bool" where
  "is_callback CbConnect = True"
| "is_callback (CbConnectFailure r) = True"
| "is_callback CbConnected = True"
| "is_callback CbConnlost = True"
| "is_callback (CbSubscribe r) = True"
| "is_callback (CbSubscribeFailure r) = True"
| "is_callback (CbUnsubscribe r) = True"
| "is_callback (CbUnsubscribeFailure r) = True"
| "is_callback (CbSend r) = True"
| "is_callback (CbSendFailure r) = True"
| "is_callback CbDisconnect = True"
| "is_callback CbDisconnectFailure = True"
| "is_callback (CbDelivered token) = True"
| "is_callback (CbMsgarrvd topicName topicLen payload) = True"
| "is_callback c = False"

text \<open>The mutex around the body of a callback.\<close>

fun guard :: "'h mqtt_call \<Rightarrow> data_mutex option" where
  "guard (CbSubscribe r) = Some SubscriptionData"
| "guard (CbSubscribeFailure r) = Some SubscriptionData"
| "guard (CbUnsubscribe r) = Some SubscriptionData"
| "guard (CbUnsubscribeFailure r) = Some SubscriptionData"
| "guard (CbMsgarrvd topicName topicLen payload) = Some SubscriptionData"
| "guard (CbSend r) = (if r = None then None else Some PublishData)"
| "guard (CbSendFailure r) = Some PublishData"
| "guard (CbDelivered token) = Some PublishData"
| "guard c = None"

text \<open>The handlers a callback calls, without the trace of a message nobody handles.\<close>

fun calls_user :: "'h mqtt_out \<Rightarrow> bool" where
  "calls_user (NoHandlerFor topic) = False"
| "calls_user out = True"

section \<open>The calls of a callback\<close>

text \<open>The calls for one test that succeeds; none when the handler is empty, which throws.\<close>

fun message_plan :: "'h on_message \<Rightarrow> topic \<Rightarrow> string \<Rightarrow> 'h pending list option" where
  "message_plan (MsgUser None) topic msg = None"
| "message_plan (MsgUser (Some h)) topic msg = Some [Now (OnMessage h topic msg)]"
| "message_plan MsgLegacy topic msg = Some [LegacyMessage topic msg, LegacyMessageStr topic msg]"

fun dispatch_plan :: "topic \<Rightarrow> string \<Rightarrow> (topic \<times> 'h on_message) list \<Rightarrow> 'h pending list" where
  "dispatch_plan topic msg [] = []"
| "dispatch_plan topic msg (it # its) = (case entry_matches (fst it) topic of
       None \<Rightarrow> []
     | Some [] \<Rightarrow> dispatch_plan topic msg its
     | Some ks \<Rightarrow> (case message_plan (snd it) topic msg of
           None \<Rightarrow> []
         | Some ps \<Rightarrow> concat (map (\<lambda>_. ps) ks) @ dispatch_plan topic msg its))"

fun callback_plan :: "'h mqtt_call \<Rightarrow> 'h mqtt \<Rightarrow> 'h pending list" where
  "callback_plan (CbMsgarrvd topicName topicLen payload) s =
     dispatch_plan (arrived_topic topicName topicLen) payload (m_onMessageHndlMap s)"
| "callback_plan c s = map Now (filter calls_user (outs_of (mqtt_step s c)))"

text \<open>The next call, with the handlers registered now, and the ones after it.\<close>

fun next_call :: "'h mqtt \<Rightarrow> 'h pending list \<Rightarrow> ('h mqtt_out \<times> 'h pending list) option" where
  "next_call s [] = None"
| "next_call s (Now out # ps) = Some (out, ps)"
| "next_call s (LegacyMessage topic msg # ps) = (case m_mqttMessageHandlerFunc s of
     Some h \<Rightarrow> Some (MessageHandler h topic msg, ps) | None \<Rightarrow> next_call s ps)"
| "next_call s (LegacyMessageStr topic msg # ps) = (case m_mqttMessageStrHandlerFunc s of
     Some h \<Rightarrow> Some (MessageStrHandler h topic msg, ps) | None \<Rightarrow> next_call s ps)"

lemma next_call_shorter: "next_call s ps = Some (out, later) \<Longrightarrow> length later < length ps"
  by (induction s ps rule: next_call.induct) (auto split: option.splits)

text \<open>While nobody registers others, the calls made one by one are those of the operation.\<close>

function calls_in_turn :: "'h mqtt \<Rightarrow> 'h pending list \<Rightarrow> 'h mqtt_out list" where
  "calls_in_turn s ps = (case next_call s ps of None \<Rightarrow> [] | Some (out, later) \<Rightarrow> out # calls_in_turn s later)"
  by pat_completeness auto
termination
  by (relation "measure (\<lambda>(s, ps). length ps)") (auto dest: next_call_shorter)

declare calls_in_turn.simps [simp del]

lemma calls_in_turn_simps [simp]:
  "calls_in_turn s [] = []"
  "calls_in_turn s (Now out # ps) = out # calls_in_turn s ps"
  "calls_in_turn s (LegacyMessage topic msg # ps) = (case m_mqttMessageHandlerFunc s of
     Some h \<Rightarrow> [MessageHandler h topic msg] | None \<Rightarrow> []) @ calls_in_turn s ps"
  "calls_in_turn s (LegacyMessageStr topic msg # ps) = (case m_mqttMessageStrHandlerFunc s of
     Some h \<Rightarrow> [MessageStrHandler h topic msg] | None \<Rightarrow> []) @ calls_in_turn s ps"
  by (simp_all add: calls_in_turn.simps split: option.split)

lemma calls_in_turn_append: "calls_in_turn s (ps @ qs) = calls_in_turn s ps @ calls_in_turn s qs"
proof (induction ps)
  case (Cons p ps)
  then show ?case by (cases p) simp_all
qed simp

lemma calls_in_turn_now: "calls_in_turn s (map Now outs) = outs"
  by (induction outs) simp_all

lemma message_plan_calls: "call_onMessage s hndl topic msg = (case message_plan hndl topic msg of
    None \<Rightarrow> Inl BadFunctionCall | Some ps \<Rightarrow> Inr (calls_in_turn s ps))"
  by (cases "(hndl, topic, msg)" rule: message_plan.cases) (simp_all add: call_onMessage_def)

lemma call_for_matches_plan: "call_for_matches s hndl topic msg ks = (if ks = [] then returns () False
    else case message_plan hndl topic msg of None \<Rightarrow> throws BadFunctionCall False
      | Some ps \<Rightarrow> (Inr (), calls_in_turn s (concat (map (\<lambda>_. ps) ks)), True))"
  by (induction ks)
    (auto simp: message_plan_calls calls_in_turn_append returns_def throws_def split: option.split)

lemma dispatch_plan_calls: "calls_in_turn s (dispatch_plan topic msg its) = outs_of (dispatch_loop s topic msg handled its)"
proof (induction its arbitrary: handled)
  case (Cons it its)
  then show ?case
    by (auto simp: call_for_matches_plan and_then_def calls_in_turn_append returns_def throws_def
        split: option.split list.split)
qed (simp add: returns_def)

lemma message_plan_user:
  "message_plan hndl topic msg = Some ps \<Longrightarrow> out \<in> set (calls_in_turn s ps) \<Longrightarrow> calls_user out"
  by (cases "(hndl, topic, msg)" rule: message_plan.cases) (auto split: option.splits)

lemma repeated_calls: "set (calls_in_turn s (concat (map (\<lambda>_. ps) ks))) \<subseteq> set (calls_in_turn s ps)"
  by (induction ks) (auto simp: calls_in_turn_append)

lemma user_calls: "filter calls_user (outs_of (dispatch_loop s topic msg handled its)) = outs_of (dispatch_loop s topic msg handled its)"
  unfolding dispatch_plan_calls [symmetric]
proof (rule filter_True, induction its)
  case (Cons it its)
  then show ?case
    by (auto simp: calls_in_turn_append split: option.split list.split
        dest: message_plan_user repeated_calls [THEN subsetD])
qed simp

lemma callback_plan_calls: "calls_in_turn s (callback_plan c s) = filter calls_user (outs_of (mqtt_step s c))"
  by (cases "(c, s)" rule: callback_plan.cases)
    (simp_all add: calls_in_turn_now mqtt_msgarrvd_def user_calls dispatch_plan_calls [where handled = False] Let_def
      del: mqtt_step.simps(1-30))

section \<open>Steps\<close>

text \<open>
  One step of what a thread is in; none when it is blocked. The maps a callback changes are read by
  others under its mutex only, so they are changed when the body begins, and its handlers are then
  called one after the other, each as it is registered when its turn comes.
\<close>

fun frame_step :: "nat \<Rightarrow> 'h frame \<Rightarrow> 'h frame list \<Rightarrow> 'h mqtt_threads \<Rightarrow> ('h mqtt_out list \<times> 'h mqtt_threads) option" where
  "frame_step th (At_Register reg) rest s =
     (if mt_owner s (reg_mutex reg) = None
      then Some ([], s\<lparr>mt_imp := register_data reg (mt_imp s), mt_stack := (mt_stack s)(th := rest)\<rparr>) else None)"
| "frame_step th (At_Callback c) rest s = (case guard c of
       None \<Rightarrow> None
     | Some m \<Rightarrow> if mt_owner s m \<noteq> None then None else Some
         (let r = mqtt_step (mt_imp s) c; t = s\<lparr>mt_imp := state_of r\<rparr>
          in case next_call (mt_imp t) (callback_plan c (mt_imp s)) of
              None \<Rightarrow> ([], t\<lparr>mt_stack := (mt_stack s)(th := rest)\<rparr>)
            | Some (out, later) \<Rightarrow> ([out], t\<lparr>mt_owner := (mt_owner s)(m := Some th),
                mt_stack := (mt_stack s)(th := In_Handler m later # rest)\<rparr>)))"
| "frame_step th (In_Handler m pending) rest s = Some (case next_call (mt_imp s) pending of
       Some (out, later) \<Rightarrow> ([out], s\<lparr>mt_stack := (mt_stack s)(th := In_Handler m later # rest)\<rparr>)
     | None \<Rightarrow> ([], s\<lparr>mt_owner := (mt_owner s)(m := None), mt_stack := (mt_stack s)(th := rest)\<rparr>))"

text \<open>A thread calls the service from outside or from a handler; the library calls back on a thread of its own.\<close>

datatype 'h mt_action = ApiCall nat "'h mqtt_call" | Callback nat "'h mqtt_call" | Runs nat

fun may_call :: "'h frame list \<Rightarrow> bool" where
  "may_call [] = True"
| "may_call (In_Handler m outs # rest) = True"
| "may_call stack = False"

definition unlocked_step :: "'h mqtt_call \<Rightarrow> 'h mqtt_threads \<Rightarrow> 'h mqtt_out list \<times> 'h mqtt_threads" where
  "unlocked_step c s = (outs_of (mqtt_step (mt_imp s) c), s\<lparr>mt_imp := state_of (mqtt_step (mt_imp s) c)\<rparr>)"

fun mt_act :: "'h mt_action \<Rightarrow> 'h mqtt_threads \<Rightarrow> ('h mqtt_out list \<times> 'h mqtt_threads) option" where
  "mt_act (ApiCall th c) s = (if is_callback c \<or> \<not> may_call (mt_stack s th) then None
     else Some (case call_request c (mt_imp s) of
         None \<Rightarrow> unlocked_step c s
       | Some (outs, None) \<Rightarrow> (outs, s)
       | Some (outs, Some reg) \<Rightarrow> (outs, s\<lparr>mt_stack := (mt_stack s)(th := At_Register reg # mt_stack s th)\<rparr>)))"
| "mt_act (Callback th c) s = (if \<not> is_callback c \<or> mt_stack s th \<noteq> [] then None
     else Some (if guard c = None then unlocked_step c s
       else ([], s\<lparr>mt_stack := (mt_stack s)(th := [At_Callback c])\<rparr>)))"
| "mt_act (Runs th) s = (case mt_stack s th of [] \<Rightarrow> None | f # rest \<Rightarrow> frame_step th f rest s)"

text \<open>Actions that cannot be taken are skipped.\<close>

definition mt_step :: "'h mqtt_threads \<Rightarrow> 'h mt_action \<Rightarrow> (unit, unit, 'h mqtt_out, 'h mqtt_threads) outcome" where
  "mt_step s a = (case mt_act a s of Some (outs, t) \<Rightarrow> emits outs t | None \<Rightarrow> returns () s)"

lemma mt_step_cases:
  assumes "mt_act a s = None \<Longrightarrow> P s" and "\<And>outs t. mt_act a s = Some (outs, t) \<Longrightarrow> P t"
  shows "P (state_of (mt_step s a))"
  using assms by (auto simp: mt_step_def outcome_simps split: option.split)

section \<open>The mutexes\<close>

text \<open>A mutex is owned by the thread that has a handler under it, once.\<close>

fun held_by :: "'h frame list \<Rightarrow> data_mutex list" where
  "held_by [] = []"
| "held_by (In_Handler m outs # rest) = m # held_by rest"
| "held_by (f # rest) = held_by rest"

definition mt_inv :: "'h mqtt_threads \<Rightarrow> bool" where
  "mt_inv s \<longleftrightarrow> (\<forall>th m. count_list (held_by (mt_stack s th)) m = of_bool (mt_owner s m = Some th))"

lemma mt_inv_start: "mt_inv mqtt_threads0"
  by (simp add: mt_inv_def mqtt_threads0_def)

text \<open>A step of a thread leaves the mutexes, takes a free one or gives one back.\<close>

lemma frame_step_held:
  assumes "mt_stack s th = f # rest" and "frame_step th f rest s = Some (outs, t)"
  shows "th' \<noteq> th \<Longrightarrow> mt_stack t th' = mt_stack s th'"
    and "mt_owner t = mt_owner s \<and> held_by (mt_stack t th) = held_by (mt_stack s th)
      \<or> (\<exists>m. mt_owner s m = None \<and> mt_owner t = (mt_owner s)(m := Some th) \<and> held_by (mt_stack t th) = m # held_by (mt_stack s th))
      \<or> (\<exists>m. mt_owner t = (mt_owner s)(m := None) \<and> held_by (mt_stack s th) = m # held_by (mt_stack t th))"
  using assms by (cases "(th, f, rest, s)" rule: frame_step.cases;
    fastforce simp: Let_def split: option.splits if_splits list.splits)+

lemma mt_inv_keeps:
  assumes "mt_inv s" and others: "\<And>th'. th' \<noteq> th \<Longrightarrow> held_by (mt_stack t th') = held_by (mt_stack s th')"
    and "mt_owner t = mt_owner s \<and> held_by (mt_stack t th) = held_by (mt_stack s th)
      \<or> (\<exists>m. mt_owner s m = None \<and> mt_owner t = (mt_owner s)(m := Some th) \<and> held_by (mt_stack t th) = m # held_by (mt_stack s th))
      \<or> (\<exists>m. mt_owner t = (mt_owner s)(m := None) \<and> held_by (mt_stack s th) = m # held_by (mt_stack t th))"
  shows "mt_inv t"
proof -
  have "count_list (held_by (mt_stack t th')) m = of_bool (mt_owner t m = Some th')" for th' m
  proof -
    have inv: "count_list (held_by (mt_stack s th')) m = of_bool (mt_owner s m = Some th')"
        "count_list (held_by (mt_stack s th)) m = of_bool (mt_owner s m = Some th)"
      using assms(1) by (simp_all add: mt_inv_def)
    from assms(3) consider
        (same) "mt_owner t = mt_owner s" "held_by (mt_stack t th) = held_by (mt_stack s th)"
      | (takes) k where "mt_owner s k = None" "mt_owner t = (mt_owner s)(k := Some th)"
          "held_by (mt_stack t th) = k # held_by (mt_stack s th)"
      | (gives) k where "mt_owner t = (mt_owner s)(k := None)" "held_by (mt_stack s th) = k # held_by (mt_stack t th)"
      by blast
    then show ?thesis
    proof cases
      case same
      with inv others show ?thesis by (cases "th' = th") simp_all
    next
      case takes
      with inv others show ?thesis by (cases "th' = th"; cases "m = k") simp_all
    next
      case gives
      have "count_list (held_by (mt_stack s th)) k = of_bool (mt_owner s k = Some th)"
        using assms(1) by (simp only: mt_inv_def)
      with gives(2) have "mt_owner s k = Some th" by (cases "mt_owner s k = Some th") simp_all
      with gives inv others show ?thesis by (cases "th' = th"; cases "m = k") simp_all
    qed
  qed
  then show ?thesis by (simp add: mt_inv_def)
qed

lemma mt_act_inv:
  assumes "mt_inv s" and "mt_act a s = Some (outs, t)"
  shows "mt_inv t"
proof (cases a)
  case (Runs th)
  with assms(2) obtain f rest where step: "mt_stack s th = f # rest" "frame_step th f rest s = Some (outs, t)"
    by (auto split: list.splits)
  show ?thesis
    by (rule mt_inv_keeps [OF assms(1) _ frame_step_held(2) [OF step]]) (simp add: frame_step_held(1) [OF step])
next
  case (ApiCall th c)
  with assms(2) show ?thesis
    by (intro mt_inv_keeps [OF assms(1), of th])
      (auto simp: unlocked_step_def split: if_splits option.splits prod.splits)
next
  case (Callback th c)
  with assms(2) show ?thesis
    by (intro mt_inv_keeps [OF assms(1), of th]) (auto simp: unlocked_step_def split: if_splits)
qed

interpretation mt: call_sequence mt_step "\<lambda>_. True" mt_inv
  by unfold_locales (rule mt_step_cases; blast intro: mt_act_inv)

section \<open>The operations take effect one at a time\<close>

fun destroys_client :: "'h mqtt_call \<Rightarrow> bool" where
  "destroys_client (mqtt_call.Destroy clientId d left) = True"
| "destroys_client (mqtt_call.Deactivate d left) = True"
| "destroys_client _ = False"

text \<open>Only destroying the client, or deactivating the service, takes the handle away.\<close>

interpretation alive: call_sequence mqtt_step "\<lambda>c. \<not> destroys_client c" "\<lambda>s. m_client s \<noteq> None"
proof unfold_locales
  fix s :: "'a mqtt" and c :: "'a mqtt_call"
  assume "m_client s \<noteq> None" and "\<not> destroys_client c"
  then show "m_client (state_of (mqtt_step s c)) \<noteq> None"
  proof (cases c)
    case (Register slot hndl)
    with \<open>m_client s \<noteq> None\<close> show ?thesis by (cases slot) (simp_all add: outcome_simps)
  qed (simp_all add: mqtt_op_simps split: mqtt_splits)
qed

text \<open>A registration is the whole operation, as long as the client is there; the request changes nothing.\<close>

fun reg_call :: "'h registration \<Rightarrow> 'h mqtt_call" where
  "reg_call (RegSubscribe token topic qos onSubscribe onMessage) =
     Subscribe topic qos onSubscribe onMessage \<lparr>rr_code = MQTTASYNC_SUCCESS, rr_token = token\<rparr>"
| "reg_call (RegUnsubscribe token topic onUnsubscribe) =
     Unsubscribe topic onUnsubscribe \<lparr>rr_code = MQTTASYNC_SUCCESS, rr_token = token\<rparr>"
| "reg_call (RegPublish token pc) = Publish (pc_topic pc) (pc_qos pc) (pc_msg pc) (pc_onSendHndl pc)
     (pc_onDeliveryHndl pc) \<lparr>rr_code = MQTTASYNC_SUCCESS, rr_token = token\<rparr>"

lemma publish_context_whole [simp]: "\<lparr>pc_topic = pc_topic pc, pc_qos = pc_qos pc, pc_msg = pc_msg pc,
    pc_onSendHndl = pc_onSendHndl pc, pc_onDeliveryHndl = pc_onDeliveryHndl pc\<rparr> = (pc :: 'h PublishContext)"
  by (cases pc) simp

lemma register_is_call: "m_client s \<noteq> None \<Longrightarrow> state_of (mqtt_step s (reg_call reg)) = register_data reg s"
  by (cases reg) (auto simp: mqtt_data_defs outcome_simps Let_def)

lemma register_client [simp]: "m_client (register_data reg s) = m_client s"
  by (cases reg) (simp_all add: subscribe_register_def)

text \<open>The operations that take effect in an action.\<close>

fun frame_effects :: "'h frame \<Rightarrow> (data_mutex \<Rightarrow> nat option) \<Rightarrow> 'h mqtt_call list" where
  "frame_effects (At_Register reg) owner = (if owner (reg_mutex reg) = None then [reg_call reg] else [])"
| "frame_effects (At_Callback c) owner =
     (case guard c of Some m \<Rightarrow> if owner m = None then [c] else [] | None \<Rightarrow> [])"
| "frame_effects (In_Handler m pending) owner = []"

fun mt_effects :: "'h mt_action \<Rightarrow> 'h mqtt_threads \<Rightarrow> 'h mqtt_call list" where
  "mt_effects (ApiCall th c) s =
     (if is_callback c \<or> \<not> may_call (mt_stack s th) \<or> call_request c (mt_imp s) \<noteq> None then [] else [c])"
| "mt_effects (Callback th c) s = (if \<not> is_callback c \<or> mt_stack s th \<noteq> [] \<or> guard c \<noteq> None then [] else [c])"
| "mt_effects (Runs th) s = (case mt_stack s th of [] \<Rightarrow> [] | f # rest \<Rightarrow> frame_effects f (mt_owner s))"

fun mt_history :: "'h mqtt_threads \<Rightarrow> 'h mt_action list \<Rightarrow> 'h mqtt_call list" where
  "mt_history s [] = []"
| "mt_history s (a # acts) = mt_effects a s @ mt_history (state_of (mt_step s a)) acts"

fun destroys_in :: "'h mt_action \<Rightarrow> bool" where
  "destroys_in (ApiCall th c) = destroys_client c"
| "destroys_in a = False"

definition mt_live :: "'h mqtt_threads \<Rightarrow> bool" where
  "mt_live s \<longleftrightarrow> (\<forall>th reg. At_Register reg \<in> set (mt_stack s th) \<longrightarrow> m_client (mt_imp s) \<noteq> None)"

lemma request_has_client: "call_request c s = Some (outs, Some reg) \<Longrightarrow> m_client s \<noteq> None"
  by (cases "(c, s)" rule: call_request.cases) (auto simp: request_when_def split: if_splits)

lemma callback_keeps: "is_callback c \<Longrightarrow> \<not> destroys_client c"
  by (cases c) simp_all

lemma guard_callback: "guard c = Some m \<Longrightarrow> is_callback c"
  by (cases c) simp_all

lemma frame_step_effects:
  assumes "frame_step th f rest s = Some (outs, t)" and "mt_stack s th = f # rest" and "mt_live s"
  shows "mt_imp t = run_calls mqtt_step (mt_imp s) (frame_effects f (mt_owner s))" and "mt_live t"
proof -
  have client: "m_client (mt_imp s) \<noteq> None" if "f = At_Register reg" for reg
    using assms(2,3) that by (auto simp: mt_live_def dest!: spec [of _ th] spec [of _ reg])
  show imp: "mt_imp t = run_calls mqtt_step (mt_imp s) (frame_effects f (mt_owner s))"
    using assms(1) client by (cases "(th, f, rest, s)" rule: frame_step.cases)
      (auto simp: register_is_call Let_def split: if_splits option.splits list.splits)
  have "m_client (mt_imp t) \<noteq> None" if "m_client (mt_imp s) \<noteq> None"
  proof (cases f)
    case (At_Callback c)
    have "m_client (state_of (mqtt_step (mt_imp s) c)) \<noteq> None" if "guard c \<noteq> None"
      using that \<open>m_client (mt_imp s) \<noteq> None\<close> by (intro alive.step_keeps callback_keeps) (auto dest: guard_callback)
    with At_Callback that show ?thesis unfolding imp by (auto split: option.splits)
  next
    case (At_Register reg)
    with that show ?thesis unfolding imp by (simp add: register_is_call)
  next
    case (In_Handler m outs)
    with that show ?thesis unfolding imp by simp
  qed
  moreover have "At_Register reg \<in> set (mt_stack s th')" if "At_Register reg \<in> set (mt_stack t th')" for th' reg
    using assms(1,2) that by (cases "(th, f, rest, s)" rule: frame_step.cases; cases "th' = th")
      (auto simp: Let_def split: if_splits option.splits list.splits)
  ultimately show "mt_live t" using assms(3) unfolding mt_live_def by metis
qed

lemma mt_act_effects:
  assumes "mt_act a s = Some (outs, t)" and "mt_live s" and "\<not> destroys_in a"
  shows "mt_imp t = run_calls mqtt_step (mt_imp s) (mt_effects a s)" and "mt_live t"
proof -
  have "mt_imp t = run_calls mqtt_step (mt_imp s) (mt_effects a s) \<and> mt_live t"
  proof (cases a)
    case (Runs th)
    with assms(1) obtain f rest where "mt_stack s th = f # rest" "frame_step th f rest s = Some (outs, t)"
      by (auto split: list.splits)
    with frame_step_effects [of th f rest s outs t] assms(2) Runs show ?thesis by simp
  next
    case (Callback th c)
    have keeps: "m_client (state_of (mqtt_step (mt_imp s) c)) \<noteq> None" if "m_client (mt_imp s) \<noteq> None" "is_callback c"
      using that by (intro alive.step_keeps callback_keeps)
    show ?thesis using assms(1,2) Callback keeps
      by (auto simp: mt_live_def unlocked_step_def split: if_splits)
  next
    case (ApiCall th c)
    have keeps: "m_client (state_of (mqtt_step (mt_imp s) c)) \<noteq> None" if "m_client (mt_imp s) \<noteq> None"
      using that assms(3) ApiCall by (intro alive.step_keeps) simp_all
    show ?thesis
    proof (cases "call_request c (mt_imp s)")
      case None
      with assms(1,2) ApiCall keeps show ?thesis by (auto simp: mt_live_def unlocked_step_def split: if_splits)
    next
      case (Some q)
      with assms(1,2) ApiCall show ?thesis
        by (cases q; cases "snd q") (auto simp: mt_live_def dest: request_has_client split: if_splits)
    qed
  qed
  then show "mt_imp t = run_calls mqtt_step (mt_imp s) (mt_effects a s)" "mt_live t" by simp_all
qed

lemma frame_effects_blocked: "frame_step th f rest s = None \<Longrightarrow> frame_effects f (mt_owner s) = []"
  by (cases "(th, f, rest, s)" rule: frame_step.cases) (auto split: if_splits option.splits)

lemma mt_effects_blocked: "mt_act a s = None \<Longrightarrow> mt_effects a s = []"
  by (cases a) (auto simp: frame_effects_blocked split: if_splits list.splits)

lemma mt_run_effects:
  "mt_live s \<Longrightarrow> list_all (\<lambda>a. \<not> destroys_in a) acts \<Longrightarrow>
   mt_imp (run_calls mt_step s acts) = run_calls mqtt_step (mt_imp s) (mt_history s acts)"
proof (induction acts arbitrary: s)
  case (Cons a acts)
  let ?t = "state_of (mt_step s a)"
  have "mt_imp ?t = run_calls mqtt_step (mt_imp s) (mt_effects a s) \<and> mt_live ?t"
    using Cons.prems by (cases "mt_act a s")
      (auto simp: mt_step_def outcome_simps mt_effects_blocked mt_act_effects)
  with Cons show ?case by (simp add: run_calls_append)
qed simp

section \<open>Deadlocks\<close>

text \<open>The mutex a frame waits for.\<close>

fun waits_for :: "'h frame \<Rightarrow> data_mutex option" where
  "waits_for (At_Register reg) = Some (reg_mutex reg)"
| "waits_for (At_Callback c) = guard c"
| "waits_for (In_Handler m outs) = None"

text \<open>Threads each of which waits for a mutex one of them owns.\<close>

definition deadlocked :: "(nat \<Rightarrow> 'h frame list) \<Rightarrow> nat set \<Rightarrow> 'h mqtt_threads \<Rightarrow> bool" where
  "deadlocked stacks D s \<longleftrightarrow> mt_inv s \<and> (\<forall>th\<in>D. mt_stack s th = stacks th
     \<and> (\<exists>f rest m other. stacks th = f # rest \<and> waits_for f = Some m \<and> other \<in> D \<and> mt_owner s m = Some other))"

lemma frame_step_blocked: "waits_for f = Some m \<Longrightarrow> mt_owner s m \<noteq> None \<Longrightarrow> frame_step th f rest s = None"
  by (cases f) auto

lemma deadlocked_blocked: "deadlocked stacks D s \<Longrightarrow> th \<in> D \<Longrightarrow> mt_act (Runs th) s = None"
  by (fastforce simp: deadlocked_def frame_step_blocked)

text \<open>Only its owner gives a mutex back.\<close>

lemma frame_step_owner:
  assumes "mt_inv s" and "mt_stack s th = f # rest" and "frame_step th f rest s = Some (outs, t)"
    and "mt_owner s m = Some other" and "other \<noteq> th"
  shows "mt_owner t m = Some other"
proof -
  from frame_step_held(2) [OF assms(2,3)] consider "mt_owner t = mt_owner s"
    | k where "mt_owner s k = None" "mt_owner t = (mt_owner s)(k := Some th)"
    | k where "mt_owner t = (mt_owner s)(k := None)" "held_by (mt_stack s th) = k # held_by (mt_stack t th)"
    by blast
  then show ?thesis
  proof cases
    case (3 k)
    have "count_list (held_by (mt_stack s th)) k = of_bool (mt_owner s k = Some th)"
      using assms(1) by (simp only: mt_inv_def)
    with 3(2) have "mt_owner s k = Some th" by (cases "mt_owner s k = Some th") simp_all
    with 3(1) assms(4,5) show ?thesis by auto
  qed (use assms(4) in auto)
qed

lemma deadlocked_act:
  assumes "mt_act a s = Some (outs, t)" and dead: "deadlocked stacks D s"
  shows "deadlocked stacks D t"
proof -
  have "mt_inv t" using assms mt_act_inv by (auto simp: deadlocked_def)
  have keep: "deadlocked stacks D t" if "\<And>th. th \<in> D \<Longrightarrow> mt_stack t th = mt_stack s th"
      and "\<And>m other. mt_owner s m = Some other \<Longrightarrow> other \<in> D \<Longrightarrow> mt_owner t m = Some other"
    using dead that \<open>mt_inv t\<close> unfolding deadlocked_def by metis
  show ?thesis
  proof (cases a)
    case (Runs th)
    have "th \<notin> D" using assms(1) deadlocked_blocked [OF dead] Runs by auto
    obtain f rest where step: "mt_stack s th = f # rest" "frame_step th f rest s = Some (outs, t)"
      using assms(1) Runs by (auto split: list.splits)
    show ?thesis
    proof (rule keep)
      show "mt_stack t th' = mt_stack s th'" if "th' \<in> D" for th'
        using frame_step_held(1) [OF step] that \<open>th \<notin> D\<close> by metis
      show "mt_owner t m = Some other" if "mt_owner s m = Some other" "other \<in> D" for m other
        using frame_step_owner [OF _ step that(1)] dead that(2) \<open>th \<notin> D\<close> unfolding deadlocked_def by metis
    qed
  next
    case (ApiCall th c)
    have "th \<notin> D"
    proof
      assume "th \<in> D"
      with dead obtain f rest m where "mt_stack s th = f # rest" "waits_for f = Some m" by (auto simp: deadlocked_def)
      with assms(1) ApiCall show False by (cases f) (auto split: if_splits)
    qed
    with assms(1) ApiCall show ?thesis
      by (intro keep) (auto simp: unlocked_step_def split: if_splits option.splits prod.splits)
  next
    case (Callback th c)
    have "th \<notin> D" using dead assms(1) Callback by (auto simp: deadlocked_def split: if_splits)
    with assms(1) Callback show ?thesis by (intro keep) (auto simp: unlocked_step_def split: if_splits)
  qed
qed

interpretation dead: call_sequence mt_step "\<lambda>_. True" "deadlocked stacks D" for stacks D
  by unfold_locales (rule mt_step_cases; blast intro: deadlocked_act)

lemma mt_inv_run: "mt_inv s \<Longrightarrow> mt_inv (run_calls mt_step s acts)"
  by (rule mt.run_keeps) (simp_all add: list_all_iff)

text \<open>A handler makes its thread the owner of its mutex.\<close>

lemma handler_owns: "mt_inv s \<Longrightarrow> mt_stack s th = In_Handler m outs # rest \<Longrightarrow> mt_owner s m = Some th"
proof -
  assume inv: "mt_inv s" and stack: "mt_stack s th = In_Handler m outs # rest"
  from inv have "count_list (held_by (mt_stack s th)) m = of_bool (mt_owner s m = Some th)" by (simp only: mt_inv_def)
  with stack show ?thesis by (cases "mt_owner s m = Some th") simp_all
qed

section \<open>A discipline without deadlocks\<close>

fun call_mutex :: "'h mqtt_call \<Rightarrow> data_mutex option" where
  "call_mutex (Subscribe topic qos onSubscribe onMessage r) = Some SubscriptionData"
| "call_mutex (SubscribeLegacy topic qos r) = Some SubscriptionData"
| "call_mutex (Unsubscribe topic onUnsubscribe r) = Some SubscriptionData"
| "call_mutex (Publish topic qos msg onSend onDelivery r) = Some PublishData"
| "call_mutex (PublishPlain topic qos msg r) = Some PublishData"
| "call_mutex c = None"

text \<open>
  Handlers for messages and for the results of subscriptions may publish but not subscribe or
  unsubscribe; handlers for the results of publishes do neither.
\<close>

fun call_allowed :: "'h frame list \<Rightarrow> data_mutex option \<Rightarrow> bool" where
  "call_allowed (In_Handler SubscriptionData outs # rest) m = (m \<noteq> Some SubscriptionData)"
| "call_allowed (In_Handler PublishData outs # rest) m = (m = None)"
| "call_allowed stack m = True"

fun disciplined :: "'h mt_action \<Rightarrow> 'h mqtt_threads \<Rightarrow> bool" where
  "disciplined (ApiCall th c) s = call_allowed (mt_stack s th) (call_mutex c)"
| "disciplined a s = True"

definition disciplined_step :: "'h mqtt_threads \<Rightarrow> 'h mqtt_threads \<Rightarrow> bool" where
  "disciplined_step s t \<longleftrightarrow> (\<exists>a outs. disciplined a s \<and> mt_act a s = Some (outs, t))"

fun stack_ok :: "'h frame list \<Rightarrow> bool" where
  "stack_ok [] = True"
| "stack_ok [At_Register reg] = True"
| "stack_ok [At_Callback c] = (guard c \<noteq> None)"
| "stack_ok [In_Handler m outs] = True"
| "stack_ok [At_Register reg, In_Handler m outs] = (reg_mutex reg = PublishData \<and> m = SubscriptionData)"
| "stack_ok stack = False"

definition disc_inv :: "'h mqtt_threads \<Rightarrow> bool" where
  "disc_inv s \<longleftrightarrow> mt_inv s \<and> (\<forall>th. stack_ok (mt_stack s th)) \<and> finite {th. mt_stack s th \<noteq> []}"

lemma call_request_mutex: "call_request c s = Some (outs, Some reg) \<Longrightarrow> call_mutex c = Some (reg_mutex reg)"
  by (cases "(c, s)" rule: call_request.cases) (auto simp: request_when_def split: if_splits)

lemma stack_ok_call:
  assumes "stack_ok stack" and "may_call stack" and "call_allowed stack (Some (reg_mutex reg))"
  shows "stack_ok (At_Register reg # stack)"
proof (cases stack)
  case (Cons f rest)
  with assms(2) obtain m outs where f: "f = In_Handler m outs" by (cases f) auto
  with assms(1) Cons have "rest = []" by (cases rest) auto
  with assms(3) Cons f show ?thesis by (cases m; cases "reg_mutex reg") auto
qed simp

lemma stack_ok_step:
  assumes "stack_ok (f # rest)" and "mt_stack s th = f # rest" and "frame_step th f rest s = Some (outs, t)"
  shows "stack_ok (mt_stack t th)"
  using assms by (cases "(th, f, rest, s)" rule: frame_step.cases; cases "f # rest" rule: stack_ok.cases)
    (auto simp: Let_def split: if_splits option.splits list.splits)

lemma stack_changes:
  assumes "mt_act a s = Some (outs, t)"
  obtains th where "\<And>th'. th' \<noteq> th \<Longrightarrow> mt_stack t th' = mt_stack s th'"
  using assms
proof (cases a)
  case (Runs th)
  with assms obtain f rest where step: "mt_stack s th = f # rest" "frame_step th f rest s = Some (outs, t)"
    by (auto split: list.splits)
  show thesis by (rule that) (rule frame_step_held(1) [OF step])
qed (auto simp: unlocked_step_def intro: that split: if_splits option.splits prod.splits)

lemma disc_inv_step:
  assumes "disc_inv s" and "disciplined a s" and act: "mt_act a s = Some (outs, t)"
  shows "disc_inv t"
proof -
  have "mt_inv t" using assms mt_act_inv by (auto simp: disc_inv_def)
  moreover have "finite {th. mt_stack t th \<noteq> []}"
  proof -
    obtain th where "\<And>th'. th' \<noteq> th \<Longrightarrow> mt_stack t th' = mt_stack s th'" using stack_changes [OF act] by blast
    then have "{th. mt_stack t th \<noteq> []} \<subseteq> insert th {th. mt_stack s th \<noteq> []}" by auto
    with assms(1) show ?thesis unfolding disc_inv_def by (meson finite_insert finite_subset)
  qed
  moreover have "stack_ok (mt_stack t th')" for th'
  proof -
    have ok: "stack_ok (mt_stack s th)" for th using assms(1) by (simp add: disc_inv_def)
    show ?thesis
    proof (cases a)
      case (Runs th)
      with act obtain f rest where step: "mt_stack s th = f # rest" "frame_step th f rest s = Some (outs, t)"
        by (auto split: list.splits)
      show ?thesis
      proof (cases "th' = th")
        case True
        with stack_ok_step [OF _ step] ok [of th] step(1) show ?thesis by simp
      next
        case False
        with frame_step_held(1) [OF step] ok show ?thesis by simp
      qed
    next
      case (Callback th c)
      with act ok show ?thesis by (auto simp: unlocked_step_def split: if_splits)
    next
      case (ApiCall th c)
      show ?thesis
      proof (cases "call_request c (mt_imp s)")
        case (Some q)
        with act ApiCall ok [of th] ok [of th'] assms(2) show ?thesis
          by (cases q; cases "snd q") (auto simp: call_request_mutex stack_ok_call split: if_splits)
      qed (use act ApiCall ok in \<open>auto simp: unlocked_step_def split: if_splits\<close>)
    qed
  qed
  ultimately show ?thesis by (simp add: disc_inv_def)
qed

interpretation disc: interleaving mqtt_threads0 disciplined_step disc_inv
proof unfold_locales
  show "disc_inv mqtt_threads0" by (simp add: disc_inv_def mqtt_threads0_def mt_inv_def)
qed (auto simp: disciplined_step_def intro: disc_inv_step)

fun disciplined_run :: "'h mqtt_threads \<Rightarrow> 'h mt_action list \<Rightarrow> bool" where
  "disciplined_run s [] = True"
| "disciplined_run s (a # acts) = (disciplined a s \<and> disciplined_run (state_of (mt_step s a)) acts)"

lemma disciplined_reaches:
  "reaches disciplined_step r s \<Longrightarrow> disciplined_run s acts \<Longrightarrow> reaches disciplined_step r (run_calls mt_step s acts)"
proof (induction acts arbitrary: s)
  case (Cons a acts)
  have "reaches disciplined_step r (state_of (mt_step s a))"
  proof (cases "mt_act a s")
    case None
    with Cons.prems show ?thesis by (simp add: mt_step_def outcome_simps)
  next
    case (Some q)
    then have "disciplined_step s (state_of (mt_step s a))" using Cons.prems(2)
      by (cases q) (auto simp: disciplined_step_def mt_step_def outcome_simps)
    with Cons.prems(1) show ?thesis by (rule reaches_step)
  qed
  with Cons show ?case by simp
qed simp

text \<open>Some thread that is in something can always go on.\<close>

lemma frame_step_free:
  "stack_ok (f # rest) \<Longrightarrow> waits_for f = None \<or> waits_for f = Some m \<and> mt_owner s m = None \<Longrightarrow> frame_step th f rest s \<noteq> None"
  by (cases "(th, f, rest, s)" rule: frame_step.cases; cases rest) auto

lemma owner_has_handler:
  assumes "disc_inv s" and "mt_owner s m = Some th"
  shows "\<exists>outs. mt_stack s th = [In_Handler m outs]
    \<or> (\<exists>reg. mt_stack s th = [At_Register reg, In_Handler m outs] \<and> m = SubscriptionData \<and> reg_mutex reg = PublishData)"
proof -
  have "count_list (held_by (mt_stack s th)) m = of_bool (mt_owner s m = Some th)"
    using assms(1) unfolding disc_inv_def mt_inv_def by blast
  moreover have "stack_ok (mt_stack s th)" using assms(1) by (simp add: disc_inv_def)
  ultimately show ?thesis using assms(2) by (cases "mt_stack s th" rule: stack_ok.cases) (auto split: if_splits)
qed

lemma disc_progress:
  assumes "disc_inv s" and "mt_stack s th \<noteq> []"
  shows "\<exists>th'. mt_act (Runs th') s \<noteq> None"
proof -
  have free: "mt_act (Runs th) s \<noteq> None" if "mt_stack s th = f # rest"
      and "waits_for f = None \<or> waits_for f = Some m \<and> mt_owner s m = None" for th f rest m
  proof -
    have "stack_ok (mt_stack s th)" using assms(1) by (simp add: disc_inv_def)
    with that have "frame_step th f rest s \<noteq> None" by (intro frame_step_free) simp_all
    with that(1) show ?thesis by simp
  qed
  have handler: "mt_act (Runs th) s \<noteq> None" if "mt_stack s th = [In_Handler m outs]" for th m outs
    by (rule free [OF that]) simp
  have owner: "\<exists>th'. mt_act (Runs th') s \<noteq> None" if "mt_owner s m = Some th" for m th
  proof -
    from owner_has_handler [OF assms(1) that] consider outs where "mt_stack s th = [In_Handler m outs]"
      | outs reg where "mt_stack s th = [At_Register reg, In_Handler m outs]" "m = SubscriptionData" "reg_mutex reg = PublishData"
      by blast
    then show ?thesis
    proof cases
      case 1
      then show ?thesis by (intro exI) (rule handler)
    next
      case 2
      show ?thesis
      proof (cases "mt_owner s PublishData")
        case None
        have "mt_act (Runs th) s \<noteq> None" by (rule free [OF 2(1), where m = PublishData]) (simp add: 2 None)
        then show ?thesis by blast
      next
        case (Some th2)
        from owner_has_handler [OF assms(1) Some] obtain outs2 where "mt_stack s th2 = [In_Handler PublishData outs2]"
          by blast
        then show ?thesis by (intro exI) (rule handler)
      qed
    qed
  qed
  obtain f rest where stack: "mt_stack s th = f # rest" using assms(2) by (cases "mt_stack s th") simp_all
  show ?thesis
  proof (cases "waits_for f")
    case None
    have "mt_act (Runs th) s \<noteq> None" by (rule free [OF stack]) (simp add: None)
    then show ?thesis by blast
  next
    case (Some m)
    show ?thesis
    proof (cases "mt_owner s m")
      case None
      have "mt_act (Runs th) s \<noteq> None" by (rule free [OF stack, where m = m]) (simp add: Some None)
      then show ?thesis by blast
    qed (rule owner)
  qed
qed

text \<open>Left alone, the threads come to an end: first the locks, then the handlers become fewer.\<close>

fun locks_ahead :: "'h frame list \<Rightarrow> nat" where
  "locks_ahead [] = 0"
| "locks_ahead (In_Handler m outs # rest) = locks_ahead rest"
| "locks_ahead (f # rest) = Suc (locks_ahead rest)"

fun handlers_ahead :: "'h frame list \<Rightarrow> nat" where
  "handlers_ahead [] = 0"
| "handlers_ahead (In_Handler m outs # rest) = Suc (length outs) + handlers_ahead rest"
| "handlers_ahead (f # rest) = handlers_ahead rest"

definition work_ahead :: "nat set \<Rightarrow> 'h mqtt_threads \<Rightarrow> nat \<times> nat" where
  "work_ahead T s = (\<Sum>th\<in>T. locks_ahead (mt_stack s th), \<Sum>th\<in>T. handlers_ahead (mt_stack s th))"

lemma frame_step_works:
  assumes "mt_stack s th = f # rest" and "frame_step th f rest s = Some (outs, t)"
  shows "locks_ahead (mt_stack t th) < locks_ahead (mt_stack s th)
    \<or> locks_ahead (mt_stack t th) = locks_ahead (mt_stack s th) \<and> handlers_ahead (mt_stack t th) < handlers_ahead (mt_stack s th)"
  using assms by (cases "(th, f, rest, s)" rule: frame_step.cases)
    (auto simp: Let_def next_call_shorter split: if_splits option.splits list.splits)

lemma work_decreases:
  assumes "finite T" and "\<And>th. th \<notin> T \<Longrightarrow> mt_stack s th = []" and "mt_act (Runs th) s = Some (outs, t)"
  shows "(work_ahead T t, work_ahead T s) \<in> less_than <*lex*> less_than"
proof -
  from assms(3) obtain f rest where step: "mt_stack s th = f # rest" "frame_step th f rest s = Some (outs, t)"
    by (auto split: list.splits)
  have "th \<in> T" using assms(2) [of th] step(1) by fastforce
  have apart: "(\<Sum>th\<in>T. g (mt_stack u th)) = g (mt_stack u th) + (\<Sum>th\<in>T - {th}. g (mt_stack u th))"
    for g :: "'a frame list \<Rightarrow> nat" and u :: "'a mqtt_threads" by (rule sum.remove [OF assms(1) \<open>th \<in> T\<close>])
  have same: "(\<Sum>th\<in>T - {th}. g (mt_stack t th)) = (\<Sum>th\<in>T - {th}. g (mt_stack s th))"
    for g :: "'a frame list \<Rightarrow> nat" using frame_step_held(1) [OF step] by (intro sum.cong) simp_all
  show ?thesis using frame_step_works [OF step] by (auto simp: work_ahead_def apart same)
qed

lemma disc_drains:
  assumes "finite T" and "disc_inv s" and "\<forall>th. th \<notin> T \<longrightarrow> mt_stack s th = []"
  shows "\<exists>ths. \<forall>th. mt_stack (run_calls mt_step s (map Runs ths)) th = []"
  using assms(2,3)
proof (induction "work_ahead T s" arbitrary: s rule: wf_induct_rule [OF wf_lex_prod [OF wf_less_than wf_less_than]])
  case (1 s)
  show ?case
  proof (cases "\<exists>th. mt_stack s th \<noteq> []")
    case True
    then obtain th outs t where act: "mt_act (Runs th) s = Some (outs, t)"
      using disc_progress [OF 1(2)] by fastforce
    have t: "state_of (mt_step s (Runs th)) = t" using act by (simp add: mt_step_def outcome_simps)
    have "disc_inv t" by (rule disc_inv_step [OF 1(2) _ act]) simp
    moreover have "\<forall>th. th \<notin> T \<longrightarrow> mt_stack t th = []"
    proof (intro allI impI)
      fix th' assume "th' \<notin> T"
      with 1(3) have "mt_stack s th' = []" by simp
      moreover have "th' \<noteq> th" using act calculation by auto
      ultimately show "mt_stack t th' = []" using act frame_step_held(1) by (fastforce split: list.splits)
    qed
    ultimately obtain ths where "\<forall>th. mt_stack (run_calls mt_step t (map Runs ths)) th = []"
      using 1(1) [OF work_decreases [OF assms(1) _ act]] 1(3) by blast
    then show ?thesis by (intro exI [of _ "th # ths"]) (simp add: t)
  next
    case False
    then show ?thesis by (intro exI [of _ "[]"]) simp
  qed
qed

lemma request_no_callback: "call_request c s = Some q \<Longrightarrow> \<not> is_callback c"
  by (cases c) simp_all

section \<open>Properties\<close>

text \<open>
  C4: the operations of the MQTT service take effect one at a time. However its clients, the threads
  of the library and the handlers of the user interleave, as long as no call in it is \<^verbatim>\<open>destroy\<close> or
  \<^verbatim>\<open>deactivate\<close>, the state is the one the operations of \<open>Mqtt\<close> leave, each made when its section
  under the mutex runs; so what is proved of runs of operations holds for the threads. (A \<^verbatim>\<open>destroy\<close>
  between a request and its registration is left out because the operation alone, run after the
  \<^verbatim>\<open>destroy\<close>, would be refused, while the thread registers its handler.)
\<close>

theorem mqtt_threads_one_at_a_time:
  assumes "list_all (\<lambda>a. \<not> destroys_in a) acts"
  shows "mt_imp (run_calls mt_step mqtt_threads0 acts) = run_calls mqtt_step mqtt0 (mt_history mqtt_threads0 acts)"
  using mt_run_effects [OF _ assms, of mqtt_threads0] by (simp add: mqtt_threads0_def mt_live_def)

text \<open>A session in which a handler for a subscription and one for a publish are running.\<close>

definition session_acts :: "nat mt_action list" where
  "session_acts =
     [ApiCall 0 (Create ''c'' default_ConnectionPars \<lparr>cr_create = 0, cr_handle = Some 1, cr_setConnected = 0, cr_setCallbacks = 0\<rparr>),
      ApiCall 0 (Subscribe ''t'' 1 (SubUser (Some 2)) (MsgUser (Some 3)) \<lparr>rr_code = 0, rr_token = 5\<rparr>), Runs 0,
      ApiCall 0 (Publish ''t'' 1 ''m'' (SendUser (Some 4)) DeliveryLog \<lparr>rr_code = 0, rr_token = 6\<rparr>), Runs 0,
      Callback 1 (CbSubscribe (Some (5, 1))), Runs 1, Callback 2 (CbSend (Some 6)), Runs 2]"

lemmas mt_eval = mt_step_def request_when_def unlocked_step_def mqtt_op_simps

lemma session_state:
  "mt_stack (run_calls mt_step mqtt_threads0 session_acts) = (\<lambda>_. [])(1 := [In_Handler SubscriptionData []], 2 := [In_Handler PublishData []])"
  "m_client (mt_imp (run_calls mt_step mqtt_threads0 session_acts)) = Some 1"
  by (simp_all add: session_acts_def mqtt_threads0_def mqtt0_def mqtt_config0_def apply_pars_def default_ConnectionPars_def
      to_size_t_def mt_eval fun_eq_iff)

theorem mqtt_threads_one_at_a_time_witness:
  "mt_history mqtt_threads0 session_acts \<noteq> [] \<and>
   m_client (run_calls mqtt_step mqtt0 (mt_history mqtt_threads0 session_acts)) = Some 1"
proof -
  have "list_all (\<lambda>a. \<not> destroys_in a) session_acts" by (simp add: session_acts_def)
  from mqtt_threads_one_at_a_time [OF this] session_state(2)
  have "m_client (run_calls mqtt_step mqtt0 (mt_history mqtt_threads0 session_acts)) = Some 1" by simp
  then show ?thesis by (auto simp: mqtt0_def)
qed

lemma subscribe_results:
  "sm_find (m_subscribeContextMap s) token = None \<Longrightarrow> mqtt_step s (CbSubscribe (Some (token, granted))) = (Inr (), [], s)"
  "sm_find (m_subscribeContextMap s) token = Some \<lparr>sc_topic = topic, sc_qos = qos, sc_onSubscribeHndl = SubUser (Some h)\<rparr> \<Longrightarrow>
   mqtt_step s (CbSubscribe (Some (token, granted))) = (Inr (), [OnSubscribe h topic granted True],
     s\<lparr>m_subscribeContextMap := sm_erase token (m_subscribeContextMap s)\<rparr>)"
  by (simp_all add: mqtt_callback_defs and_then_def emits_def returns_def)

text \<open>
  A subscription can miss its result. When the callback of the library gets ahead of the
  registration it belongs to, it calls nobody and the context stays behind; the other way round the
  handler is told.
\<close>

theorem mqtt_subscription_result_lost:
  assumes "mt_stack s th = At_Register (RegSubscribe token topic qos (SubUser (Some h)) onMessage) # rest"
    and "mt_stack s cb = []" and "mt_owner s SubscriptionData = None"
    and "sm_inv (m_subscribeContextMap (mt_imp s))" and "sm_find (m_subscribeContextMap (mt_imp s)) token = None"
  shows "let result = [Callback cb (CbSubscribe (Some (token, granted))), Runs cb]
    in run_outs mt_step s (result @ [Runs th]) = []
    \<and> sm_find (m_subscribeContextMap (mt_imp (run_calls mt_step s (result @ [Runs th])))) token \<noteq> None
    \<and> run_outs mt_step s (Runs th # result) = [OnSubscribe h topic granted True]
    \<and> sm_find (m_subscribeContextMap (mt_imp (run_calls mt_step s (Runs th # result)))) token = None"
proof -
  have "cb \<noteq> th" using assms(1,2) by auto
  with assms show ?thesis
    by (simp add: mt_step_def subscribe_register_def subscribe_results outcome_simps sm_find_assign sm_find_erase Let_def
        del: mqtt_step.simps)
qed

theorem mqtt_subscription_result_lost_witness:
  "let s = run_calls mt_step mqtt_threads0 (take 2 session_acts)
   in run_outs mt_step s [Callback 1 (CbSubscribe (Some (5, 1))), Runs 1, Runs 0] = []
     \<and> run_outs mt_step s [Runs 0, Callback 1 (CbSubscribe (Some (5, 1))), Runs 1] = [OnSubscribe 2 ''t'' 1 True]"
proof -
  let ?s = "run_calls mt_step mqtt_threads0 (take 2 session_acts)"
  have s: "mt_stack ?s 0 = [At_Register (RegSubscribe 5 ''t'' 1 (SubUser (Some 2)) (MsgUser (Some 3)))]"
      "mt_stack ?s 1 = []" "mt_owner ?s SubscriptionData = None" "m_subscribeContextMap (mt_imp ?s) = []"
    by (simp_all add: session_acts_def mqtt_threads0_def mqtt0_def mqtt_config0_def apply_pars_def default_ConnectionPars_def mt_eval)
  have "sm_inv (m_subscribeContextMap (mt_imp ?s))" "sm_find (m_subscribeContextMap (mt_imp ?s)) 5 = None" unfolding s(4) by simp_all
  from mqtt_subscription_result_lost [OF s(1-3) this, of 1] show ?thesis by (simp only: Let_def append_Cons append_Nil simp_thms)
qed

text \<open>
  C5: a handler must not call what needs the mutex it is called under. When a handler for a message
  or for the result of a subscription subscribes or unsubscribes, or one for the result of a publish
  publishes, and the library accepts it, its thread waits for a mutex it holds: it is there
  whatever happens then, and no callback under that mutex, no message among them, gets through.
\<close>

theorem mqtt_handler_deadlock:
  assumes "mt_stack (run_calls mt_step mqtt_threads0 acts) th = In_Handler m outs # rest"
    and "call_request c (mt_imp (run_calls mt_step mqtt_threads0 acts)) = Some (req, Some reg)" and "reg_mutex reg = m"
  shows "let t = run_calls mt_step mqtt_threads0 (acts @ ApiCall th c # acts2)
    in mt_stack t th = At_Register reg # In_Handler m outs # rest \<and> mt_act (Runs th) t = None
      \<and> (\<forall>cb c2. mt_stack t cb = [At_Callback c2] \<and> guard c2 = Some m \<longrightarrow> mt_act (Runs cb) t = None)"
proof -
  let ?b = "run_calls mt_step mqtt_threads0 acts"
  let ?s = "state_of (mt_step ?b (ApiCall th c))"
  let ?stacks = "\<lambda>_. At_Register reg # In_Handler m outs # rest"
  have inv: "mt_inv ?b" by (rule mt_inv_run [OF mt_inv_start])
  have stack: "mt_stack ?s th = At_Register reg # In_Handler m outs # rest" and owner: "mt_owner ?s = mt_owner ?b"
    using assms(1,2) by (simp_all add: mt_step_def outcome_simps request_no_callback [OF assms(2)])
  have "deadlocked ?stacks {th} ?s"
    using mt.step_keeps [OF inv TrueI, of "ApiCall th c"] stack owner handler_owns [OF inv assms(1)] assms(3)
    by (simp add: deadlocked_def)
  then have dead: "deadlocked ?stacks {th} (run_calls mt_step ?s acts2)"
    by (rule dead.run_keeps) (simp add: list_all_iff)
  then have "mt_owner (run_calls mt_step ?s acts2) m = Some th" using assms(3) by (auto simp: deadlocked_def)
  with dead deadlocked_blocked [OF dead] show ?thesis
    by (auto simp: deadlocked_def Let_def run_calls_append)
qed

theorem mqtt_handler_deadlock_witness:
  "let t = run_calls mt_step mqtt_threads0 (session_acts @ ApiCall 1 (Unsubscribe ''t'' (Some 7) \<lparr>rr_code = 0, rr_token = 8\<rparr>)
      # [Callback 3 (CbMsgarrvd ''t'' 1 ''x'')])
   in mt_act (Runs 1) t = None \<and> mt_stack t 1 \<noteq> []"
proof -
  have stack: "mt_stack (run_calls mt_step mqtt_threads0 session_acts) 1 = [In_Handler SubscriptionData []]"
    by (simp add: session_state)
  have "call_request (Unsubscribe ''t'' (Some 7) \<lparr>rr_code = 0, rr_token = 8\<rparr>) (mt_imp (run_calls mt_step mqtt_threads0 session_acts))
      = Some ([PahoUnsubscribe ''t''], Some (RegUnsubscribe 8 ''t'' (Some 7)))"
    by (simp add: request_when_def session_state(2))
  from mqtt_handler_deadlock [OF stack this, of "[Callback 3 (CbMsgarrvd ''t'' 1 ''x'')]"] show ?thesis
    by (simp add: Let_def del: run_calls.simps mt_act.simps)
qed

text \<open>
  C6: handlers that take the mutexes crosswise deadlock. When a handler for a message publishes while
  on another thread a handler for the result of a publish subscribes, each of which alone may be
  well, both threads wait for each other whatever happens then.
\<close>

theorem mqtt_crossed_handlers_deadlock:
  assumes "mt_stack (run_calls mt_step mqtt_threads0 acts) th1 = In_Handler m1 outs1 # rest1"
    and "mt_stack (run_calls mt_step mqtt_threads0 acts) th2 = In_Handler m2 outs2 # rest2" and "m1 \<noteq> m2"
    and "call_request c1 (mt_imp (run_calls mt_step mqtt_threads0 acts)) = Some (req1, Some reg1)" and "reg_mutex reg1 = m2"
    and "call_request c2 (mt_imp (run_calls mt_step mqtt_threads0 acts)) = Some (req2, Some reg2)" and "reg_mutex reg2 = m1"
  shows "let t = run_calls mt_step mqtt_threads0 (acts @ ApiCall th1 c1 # ApiCall th2 c2 # acts2)
    in mt_stack t th1 = At_Register reg1 # In_Handler m1 outs1 # rest1 \<and> mt_act (Runs th1) t = None
      \<and> mt_stack t th2 = At_Register reg2 # In_Handler m2 outs2 # rest2 \<and> mt_act (Runs th2) t = None"
proof -
  let ?b = "run_calls mt_step mqtt_threads0 acts"
  let ?s = "run_calls mt_step ?b [ApiCall th1 c1, ApiCall th2 c2]"
  have inv: "mt_inv ?b" by (rule mt_inv_run [OF mt_inv_start])
  have owner: "mt_owner ?b m1 = Some th1" "mt_owner ?b m2 = Some th2"
    using handler_owns [OF inv assms(1)] handler_owns [OF inv assms(2)] by simp_all
  let ?stacks = "\<lambda>th. if th = th1 then At_Register reg1 # In_Handler m1 outs1 # rest1 else At_Register reg2 # In_Handler m2 outs2 # rest2"
  have "th2 \<noteq> th1" using assms(1-3) by auto
  then have "mt_stack ?s th1 = ?stacks th1" "mt_stack ?s th2 = ?stacks th2" "mt_owner ?s = mt_owner ?b"
    using assms(1,2,4,6) by (simp_all add: mt_step_def outcome_simps request_no_callback [OF assms(4)] request_no_callback [OF assms(6)])
  with owner assms(5,7) mt_inv_run [OF inv, of "[ApiCall th1 c1, ApiCall th2 c2]"] \<open>th2 \<noteq> th1\<close>
  have "deadlocked ?stacks {th1, th2} ?s" by (simp add: deadlocked_def del: run_calls.simps)
  then have dead: "deadlocked ?stacks {th1, th2} (run_calls mt_step ?s acts2)"
    by (rule dead.run_keeps) (simp add: list_all_iff)
  with deadlocked_blocked [OF dead, of th1] deadlocked_blocked [OF dead, of th2] \<open>th2 \<noteq> th1\<close> show ?thesis
    by (simp add: deadlocked_def Let_def run_calls_append)
qed

theorem mqtt_crossed_handlers_deadlock_witness:
  "let t = run_calls mt_step mqtt_threads0 (session_acts
      @ ApiCall 1 (Publish ''u'' 1 ''m'' SendLog DeliveryLog \<lparr>rr_code = 0, rr_token = 9\<rparr>)
      # ApiCall 2 (Unsubscribe ''t'' (Some 7) \<lparr>rr_code = 0, rr_token = 8\<rparr>) # [Runs 1, Runs 2])
   in mt_act (Runs 1) t = None \<and> mt_act (Runs 2) t = None \<and> mt_stack t 1 \<noteq> [] \<and> mt_stack t 2 \<noteq> []"
proof -
  have stacks: "mt_stack (run_calls mt_step mqtt_threads0 session_acts) 1 = [In_Handler SubscriptionData []]"
      "mt_stack (run_calls mt_step mqtt_threads0 session_acts) 2 = [In_Handler PublishData []]"
    by (simp_all add: session_state)
  have "call_request (Publish ''u'' 1 ''m'' SendLog DeliveryLog \<lparr>rr_code = 0, rr_token = 9\<rparr>) (mt_imp (run_calls mt_step mqtt_threads0 session_acts))
      = Some ([PahoSendMessage ''u'' 1 ''m''], Some (RegPublish 9 \<lparr>pc_topic = ''u'', pc_qos = 1, pc_msg = ''m'',
          pc_onSendHndl = SendLog, pc_onDeliveryHndl = DeliveryLog\<rparr>))"
    "call_request (Unsubscribe ''t'' (Some 7) \<lparr>rr_code = 0, rr_token = 8\<rparr>) (mt_imp (run_calls mt_step mqtt_threads0 session_acts))
      = Some ([PahoUnsubscribe ''t''], Some (RegUnsubscribe 8 ''t'' (Some 7)))"
    by (simp_all add: request_when_def session_state(2))
  from mqtt_crossed_handlers_deadlock [OF stacks _ this(1) _ this(2), of "[Runs 1, Runs 2]"] show ?thesis
    by (simp add: Let_def del: run_calls.simps mt_act.simps)
qed

text \<open>
  C7: threads under the discipline come to an end. While handlers for messages and for results of
  subscriptions at most publish, and those for publishes call neither, whatever else the clients and
  the library do, some thread that is in a call can always go on, and left alone all of them
  finish.
\<close>

theorem mqtt_disciplined_threads_finish:
  assumes "disciplined_run mqtt_threads0 acts"
  shows "let s = run_calls mt_step mqtt_threads0 acts
    in (mt_stack s th \<noteq> [] \<longrightarrow> (\<exists>th'. mt_act (Runs th') s \<noteq> None))
      \<and> (\<exists>ths. \<forall>th. mt_stack (run_calls mt_step s (map Runs ths)) th = [])"
proof -
  define s where "s = run_calls mt_step mqtt_threads0 acts"
  have inv: "disc_inv s" unfolding s_def by (intro disc.inv_reaches disciplined_reaches assms reaches_start)
  moreover have "finite {th. mt_stack s th \<noteq> []}" using inv by (simp add: disc_inv_def)
  then have "\<exists>ths. \<forall>th. mt_stack (run_calls mt_step s (map Runs ths)) th = []"
    by (rule disc_drains) (use inv in simp_all)
  ultimately show ?thesis using disc_progress [of s th] unfolding Let_def s_def [symmetric] by blast
qed

theorem mqtt_disciplined_threads_finish_witness:
  "let s = run_calls mt_step mqtt_threads0 (session_acts @ [ApiCall 1 (Publish ''u'' 1 ''m'' SendLog DeliveryLog \<lparr>rr_code = 0, rr_token = 9\<rparr>)])
   in mt_stack s 1 \<noteq> [] \<and> (\<exists>ths. \<forall>th. mt_stack (run_calls mt_step s (map Runs ths)) th = [])"
proof -
  have "disciplined_run mqtt_threads0 (session_acts @ [ApiCall 1 (Publish ''u'' 1 ''m'' SendLog DeliveryLog \<lparr>rr_code = 0, rr_token = 9\<rparr>)])"
    by (simp add: session_acts_def mqtt_threads0_def mqtt0_def mqtt_config0_def apply_pars_def default_ConnectionPars_def
        to_size_t_def mt_eval)
  moreover have "mt_stack (run_calls mt_step mqtt_threads0 (session_acts
      @ [ApiCall 1 (Publish ''u'' 1 ''m'' SendLog DeliveryLog \<lparr>rr_code = 0, rr_token = 9\<rparr>)])) 1 \<noteq> []"
    by (simp add: run_calls_append mt_step_def outcome_simps request_when_def session_state)
  ultimately show ?thesis using mqtt_disciplined_threads_finish [of _ 1] unfolding Let_def by blast
qed

end
