(* ===== verification/Spec2Isabelle.thy ===== *)
theory Spec2Isabelle
  imports Step_Systems Std_Map Topic Mqtt_Correct Task_Queue Task_Queue_Retry Mq_Message Command_Service
    Msg_Cmd Ws_Service Ws_Client Log_Stream Zero_Mq_Progress Syslog_Logger Rest_Api Fleet_Component Typed_Messages Mq_Threads
    Mqtt_History Message_Link Ws_Link Ws_Stop Command_Calls Msg_Cmd_Life
    Ws_Connect Mqtt_Threads
begin

text \<open>
  Shape components: messaging, queues, commands and provisioning.

  Shape is a component framework for gateways in C++. Its components talk through interfaces
  (\<^verbatim>\<open>src/include/I*.h\<close>) and are put together by a launcher from configuration files.
  This development models the components that carry logic of their own, as they are written in
  \<^verbatim>\<open>src/\<close>, and proves what they do, errors included.

  \<^bold>\<open>Style.\<close> An operation of a component is a function of its state that returns an
  \<open>outcome\<close>: the value or the exception, the calls it makes outside, in order, and the next
  state (\<open>Shape_Prelude\<close>). What the outside answers (the Paho library, POSIX message queues,
  websocketpp, rapidjson, the file system, random numbers) is an argument. No definition says
  what such a library does. Threads are step relations: one step is what a thread does
  between two points where another can run. Maps of the C++ library are association lists in
  the order of their keys, with the operations of the source (\<open>Std_Map\<close>), character streams
  and \<^verbatim>\<open>getline\<close> are in \<open>Std_String\<close>. A callable is an identity; calling it is an output.

  \<^bold>\<open>Theories and sources.\<close>
  \<^item> \<open>Topic\<close>: \<^verbatim>\<open>include/mqtt_utils.h\<close> and the tests of \<^verbatim>\<open>MqttService::Imp::msgarrvd\<close>
    which decide whether a filter matches a topic, against the rules of the MQTT standard (4.7.1,
    and 4.7.2 on topics that start with \<^verbatim>\<open>$\<close>).
  \<^item> \<open>Mqtt\<close>: \<^verbatim>\<open>MqttService/MqttService.cpp\<close>, the whole of \<^verbatim>\<open>MqttService::Imp\<close>: each member
    function and each callback of the Paho library is one definition, \<open>mqtt_step\<close> is their
    union. \<open>Mqtt_Correct\<close> holds the properties of runs, \<open>Mqtt_History\<close> what a client has to
    know of the history to know who hears a message. \<open>Mqtt_Threads\<close>: its threads, with the two
    mutexes its handlers are called under, requests apart from what they register, and calls from
    handlers; the calls a callback makes are a list of pending ones, each made with the handlers
    registered when its turn comes.
  \<^item> \<open>Task_Queue\<close>: \<^verbatim>\<open>MqMessageService/TaskQueue.h\<close>, the worker thread and its clients with the
    mutex and the condition variable as interleaved steps. \<open>Task_Queue_Retry\<close>:
    \<^verbatim>\<open>include/TaskQueue2.h\<close>, where a task stays in the queue until its function succeeded.
  \<^item> \<open>Mq_Message\<close>: \<^verbatim>\<open>MqMessageService/MqMessageService.cpp\<close> with the task queue as a line;
    \<open>Mq_Threads\<close>: that the trace of the threads of the task queue, whatever their schedule, is a run
    of this line.
  \<^item> \<open>Command_Service\<close>: \<^verbatim>\<open>CommandService/CommandService.cpp\<close> and the loop of
    \<^verbatim>\<open>CommandLineService/CommandLineService.cpp\<close> on its whole input; \<open>Command_Line\<close>: the thread of
    that loop step by step, with its flag, its blocking read and the calls of the framework;
    \<open>Command_Calls\<close>: all calls of the command service, as a map in which the first stands.
    \<open>Msg_Cmd\<close>: \<^verbatim>\<open>examples/MsgCmd\<close> and \<^verbatim>\<open>examples/MsgCmdEcho\<close>, which use the command and the
    message queue services; \<open>Msg_Cmd_Life\<close>: the two as components, with what their activation and
    deactivation leave in the services; \<open>Typed_Messages\<close>: the way of a typed word through four
    components.
  \<^item> \<open>Ws_Server\<close>, \<open>Ws_Service\<close>: \<^verbatim>\<open>WebsocketCppService\<close>, the handlers between the library and
    the service, the TLS settings, and the service with its table of connections; \<open>Ws_Stop\<close>: its
    \<^verbatim>\<open>stop\<close> and \<^verbatim>\<open>runThd\<close> as steps of two threads, with the reports of the endpoint between. \<open>Log_Stream\<close>:
    its \<^verbatim>\<open>LogStream.cpp\<close>, the buffer that cuts the log of websocketpp into messages.
  \<^item> \<open>Ws_Client\<close>: \<^verbatim>\<open>WebsocketCppClientService/WebsocketCppClientService.cpp\<close>, with the connect
    that waits for an event of the library; \<open>Ws_Connect\<close>: its threads, with the mutex, the condition
    and the handlers of the user, which run under the mutex and may call the service.
  \<^item> \<open>Message_Link\<close>, \<open>Ws_Link\<close>: two components on both ends of a link, a pair of message queue services
    and, in both directions, the web socket client with the web socket server.
  \<^item> \<open>Zero_Mq\<close>, \<open>Zero_Mq_Progress\<close>: \<^verbatim>\<open>ZeroMqService/ZeroMqService.cpp\<close>, the workers of a
    request and of a reply socket and any number of client threads, interleaved; the second
    theory holds what returns and what does not.
  \<^item> \<open>Rest_Api\<close>: \<^verbatim>\<open>CurlRestApiService\<close> and \<^verbatim>\<open>CppRestService\<close>, two providers of one interface.
  \<^item> \<open>Syslog_Logger\<close>: \<^verbatim>\<open>SyslogLogger/SyslogLogger.cpp\<close>, the filter and the text of messages.
  \<^item> \<open>Json_Macro\<close>: \<^verbatim>\<open>include/JsonMacro.h\<close>, the macros that read a member of a JSON document.
  \<^item> \<open>Fleet_Prov\<close>: \<^verbatim>\<open>AwsFleetProv/AwsFleetProv.cpp\<close>, the provisioning workflow, an MQTT client,
    as one function, with what the handlers of the user throw into its \<^verbatim>\<open>try\<close> block and out of its
    \<^verbatim>\<open>catch\<close> clauses; \<open>Fleet_Component\<close>: its worker step by step, on a thread or on the caller, the
    flag, the mutex, the joins and the interfaces.
  \<^item> This theory: what spans components. A failed provisioning run is replayed on the model of
    the MQTT service (\<open>failed_provisioning_blocks_relaunch\<close>), a successful one as well, with
    what \<^verbatim>\<open>MQTTAsync_destroy\<close> leaves as an argument (\<open>successful_provisioning_frees_client\<close>).

  \<^bold>\<open>Interfaces as locales\<close> (\<open>Step_Systems\<close>, and in the theories of their providers).
  \<open>call_sequence\<close> and \<open>observed_sequence\<close> lift a law of one call to runs of calls, \<open>ledger\<close>
  balances what is reported against what was accepted, \<open>balanced_sequence\<close> does so exactly,
  \<open>call_refinement\<close> makes a run of calls the run of a simpler object, \<open>message_link\<close> joins the laws
  of a sender and of a receiver over a link that delivers a first part of what it is given, or some of it,
  \<open>interleaving\<close> lifts an invariant of one step to reachable states, \<open>trace_refinement\<close> makes the
  events a schedule shows a run of an abstract object, \<open>rest_api\<close> is what
  a client of either REST provider relies on. Each is interpreted on the operations of the
  components.

  \<^bold>\<open>Groups of lemmas.\<close>
  \<^item> Dispatch: a message is handed to exactly the handlers of the matching filters, in order;
    for which filters and topics the tests of the code agree with the standard, and for which not.
  \<^item> Accounting of the MQTT service over all runs: the number of pending publishes is bounded,
    no request reports twice, a publish reports once if there was room for it, the connection flag follows the events, an unsubscribed topic
    is silent; error paths of \<^verbatim>\<open>create\<close>, \<^verbatim>\<open>disconnect\<close>, \<^verbatim>\<open>subscribe\<close>. Its threads are runs
    of its operations; which calls from handlers deadlock, and a discipline under which all finish.
  \<^item> Task queue over all interleavings: order, mutual exclusion, no lost wake-up, the trace of
    every schedule as a run of a plain queue, and termination of the worker.
  \<^item> Message queue service: order of messages, what ends the listening thread and what
    a deactivation leaves, reconnection.
  \<^item> End to end: what a client sends through one component the handler behind the other gets, in
    order and once; who hears a message of the MQTT service, by the history of the calls alone.
  \<^item> Commands: the lines run, the registry by its history, the life of a client of it. Web socket
    service: the targets of a message, the balance of open and close reports, configuration, what a
    stop closes and what it misses, the flag and the thread.
  \<^item> ZeroMq: the fate of every message, the turns of the sockets, the calls that return within a
    bound, and those that never do. Web socket client: every connect returns once;
    its operations take effect one at a time whatever the threads do, no connect is forgotten, and
    what a handler of the user must not call.
  \<^item> REST: what a returned \<^verbatim>\<open>getFile\<close> has written, and its resources. Logging: lines, levels.
  \<^item> Provisioning: the first report and the second one a throwing handler causes, what has been stored
    when success is told, what a failure leaves behind; the steps of the thread are the function, a
    second launch takes over the report, a silent broker blocks it for good.

  \<^bold>\<open>Bounds.\<close> \<open>task_queue_drains\<close>: a worker left alone needs at most \<open>3 n + 10\<close> steps for \<open>n\<close>
  waiting tasks, three per task (test, take, process) and ten for the states in between;
  \<open>task_queue_stops\<close>: four steps from a stop to the end; \<open>zmq_open_returns\<close>: six steps of the
  worker. The loop of the command line has the number of rounds its flag stays set as an
  argument, since another thread clears it; the properties hold for any number that covers the
  input. Its thread needs four steps for each line (flag, quit flag, read, run) and three to end;
  the worker of the provisioning ends or blocks within four; a stop of the web socket service takes
  four steps and one for each connection to reach its join. Every other loop recurses on its data.

  \<^bold>\<open>Not modelled.\<close> Tracing, which does not change the state. Code under \<^verbatim>\<open>#if 0\<close> and the
  Windows branches. What websocketpp and Paho do in their run loops: the reports they send from
  there are events, that a run loop does not end is an absence of its end in the sequence of steps.
  Two stops of the web socket service at once. Exceptions out of the handlers of
  the user other than those of the provisioning and of the message queue service. An activation of
  the ZeroMQ service over a thread that was not joined, which ends the process, is no step there. The life cycle of the web socket client and the
  members of the MQTT service that take no mutex are operations, not steps of their threads. What else is left of the sources has no behaviour to
  state: includes, constructors and the attaching of the trace service. The generated start-up code of
  components, build scripts, and the drivers of the tests under \<^verbatim>\<open>src/tests\<close>. The internals of
  libcurl, cpprest, libzmq, rapidjson and OpenSSL: their answers are arguments. Data races the code
  has (\<^verbatim>\<open>m_connectionsStrMap\<close> is read in \<^verbatim>\<open>sendMessage\<close> without its mutex, the handlers of the
  provisioning are set without one) have no defined behaviour; such an access is one step here.
\<close>

section \<open>Provisioning on the MQTT service\<close>

text \<open>
  The calls of the provisioning worker as calls of the MQTT service of \<open>Mqtt\<close>, with the
  answers of its library; \<open>left\<close> is what \<^verbatim>\<open>MQTTAsync_destroy\<close> leaves in the handle it is given.
\<close>

fun mqtt_calls_of ::
  "create_reply \<Rightarrow> request_reply \<Rightarrow> disconnect_reply \<Rightarrow> nat option \<Rightarrow> nat fleet_out \<Rightarrow> nat mqtt_call list"
where
  "mqtt_calls_of r rr d left (FCreate clientId cp) = [mqtt_call.Create clientId cp r]"
| "mqtt_calls_of r rr d left FConnect = [mqtt_call.ConnectOn (Some 0) False 0]"
| "mqtt_calls_of r rr d left (FSubscribe t q) = [mqtt_call.Subscribe t q (SubUser (Some 0)) (MsgUser (Some 0)) rr]"
| "mqtt_calls_of r rr d left (FPublish t q m) = [mqtt_call.Publish t q m (SendUser (Some 0)) (DeliveryUser (Some 0)) rr]"
| "mqtt_calls_of r rr d left (FUnsubscribe t) = [mqtt_call.Unsubscribe t (Some 0) rr]"
| "mqtt_calls_of r rr d left FUnregisterMessageStr = [mqtt_call.Register MessageStrSlot None]"
| "mqtt_calls_of r rr d left FUnregisterOnConnect = [mqtt_call.Register OnConnectSlot None]"
| "mqtt_calls_of r rr d left FDisconnect = [mqtt_call.Disconnect d]"
| "mqtt_calls_of r rr d left (FDestroy clientId) = [mqtt_call.Destroy clientId d left]"
| "mqtt_calls_of r rr d left _ = []"

lemma worker_calls_keep_client:
  assumes "\<forall>c. FDestroy c \<notin> set outs"
  shows "list_all (\<lambda>c. \<not> destroys_client c) (concat (map (mqtt_calls_of r rr d left) outs))"
  using assms
proof (induction outs)
  case (Cons out outs)
  then have "list_all (\<lambda>c. \<not> destroys_client c) (mqtt_calls_of r rr d left out)" by (cases out) auto
  with Cons show ?case by simp
qed simp

lemma create_when:
  "m_client s \<noteq> None \<Longrightarrow> mqtt_create clientId cp r s = (Inl AlreadyCreated, [], s)"
  "m_client s = None \<Longrightarrow> result_of (mqtt_create clientId cp r s) \<noteq> Inl AlreadyCreated"
  by (simp_all add: mqtt_create_def throws_def outcome_simps Let_def)

text \<open>What \<^verbatim>\<open>create\<close> answers to the next client, by what the calls made so far leave.\<close>

lemma create_after:
  assumes "m_client s = None" and "cr_handle r = Some n"
    and "result_of (worker_connect env f) = Inr ()" and "\<forall>c. FDestroy c \<notin> set outs"
  shows "let t = run_calls mqtt_step s (concat (map (mqtt_calls_of r rr d left) (outs_of (worker_connect env f) @ outs)))
    in mqtt_create clientId cp r' t = (Inl AlreadyCreated, [], t)"
proof -
  obtain c cp0 where connect: "outs_of (worker_connect env f) = [FCreate c cp0, FConnect]"
    using worker_connect_outs [OF assms(3)] by metis
  have "\<forall>c. FDestroy c \<notin> set (FConnect # outs)" using assms(4) by simp
  note keeps = worker_calls_keep_client [OF this, where r = r and rr = rr and d = d and left = left]
  have "m_client (state_of (mqtt_create c cp0 r s)) \<noteq> None"
    using assms(1,2) by (simp add: mqtt_create_def outcome_simps Let_def)
  from alive.run_keeps [OF this keeps] show ?thesis by (simp add: connect create_when Let_def)
qed

text \<open>
  C33: a failed provisioning cannot be repeated. When the workflow failed after the connection was
  made, and its calls are run on the MQTT service, the service still has the client, and the
  \<^verbatim>\<open>create\<close> of the next attempt throws that a client was already created.
\<close>

theorem failed_provisioning_blocks_relaunch:
  assumes "m_client s = None" and "cr_handle r = Some n"
    and "result_of (worker_connect env f) = Inr ()" and "fe_connected env" and "m_onError f = Some h"
    and "result_of (provisioning_try env (state_of (worker_connect env f))) = Inl (Raised reason)"
  shows "let t = run_calls mqtt_step s (concat (map (mqtt_calls_of r rr d left) (outs_of (fleet_worker env f)))) in
    mqtt_create clientId cp r' t = (Inl AlreadyCreated, [], t)"
proof -
  obtain outs e where outs: "outs_of (fleet_worker env f) = outs_of (worker_connect env f) @ outs @ [FOnError h e]"
    "list_all workflow_out outs"
    using failed_worker [OF assms(3-6)] by metis
  have "\<forall>c. FDestroy c \<notin> set (outs @ [FOnError h e])" using workflow_keeps_client [OF outs(2)] by simp
  from create_after [OF assms(1-3) this] show ?thesis by (simp only: outs(1))
qed

theorem failed_provisioning_blocks_relaunch_witness:
  "let env = env0\<lparr>fe_registerPublish := Answered False\<rparr>;
       r = \<lparr>cr_create = 0, cr_handle = Some 1, cr_setConnected = 0, cr_setCallbacks = 0\<rparr>;
       t = run_calls mqtt_step mqtt0 (concat (map (mqtt_calls_of r \<lparr>rr_code = 0, rr_token = 5\<rparr> NoAnswer None)
             (outs_of (fleet_worker env fleet0))))
   in mqtt_create ''_2'' default_ConnectionPars r t = (Inl AlreadyCreated, [], t)"
proof -
  let ?env = "env0\<lparr>fe_registerPublish := Answered False\<rparr>"
  have connect: "result_of (worker_connect ?env fleet0) = Inr ()"
    by (simp add: worker_connect_def env0_def fleet0_def outcome_simps Let_def)
  have keys: "result_of (create_keys ?env s) = Inr ()" for s :: "nat fleet"
    by (simp add: create_keys_steps env0_def fleet_call_def demand_def get_response_def keys_accepted_def
        parse_message_def from_json_def GET_JSON_AS_STR_def json_required_def open_write_def outcome_simps Let_def)
  have register: "result_of (register_thing ?env s) = Inl (Raised CannotRegister)" for s :: "nat fleet"
    by (simp add: register_thing_steps env0_def fleet_call_def demand_def and_then_returns outcome_simps Let_def)
  have "result_of (provisioning_try ?env (state_of (worker_connect ?env fleet0))) = Inl (Raised CannotRegister)"
    by (simp add: and_then_def keys register)
  from failed_provisioning_blocks_relaunch [OF _ _ connect _ _ this, of mqtt0 _ 1 2] show ?thesis
    by (simp add: Let_def mqtt0_def env0_def fleet0_def)
qed

text \<open>
  C34: a provisioning that succeeded frees the client, but not before it tells, and not when the
  handler throws. When the workflow succeeded and its calls are run on the MQTT service, a \<^verbatim>\<open>create\<close>
  out of the handler for success throws that a client was already created. Once the worker has ended,
  the next \<^verbatim>\<open>create\<close> does not, when the handler returned and \<^verbatim>\<open>MQTTAsync_destroy\<close> leaves a null handle,
  as it is documented to; when the handler let an exception out, the client is still there and every
  later \<^verbatim>\<open>create\<close> throws.
\<close>

theorem successful_provisioning_frees_client:
  assumes "m_client s = None" and "cr_handle r = Some n"
    and "result_of (worker_connect env f) = Inr ()" and "fe_connected env" and "m_onProvisioned f = Some g"
    and "result_of (makeProvisioning env (state_of (worker_connect env f))) = Inr ()"
    and "left = None"
  shows "\<exists>before data after. outs_of (fleet_worker env f) = before @ FOnProvisioned g data # after
    \<and> (let t = run_calls mqtt_step s (concat (map (mqtt_calls_of r rr d left) before)) in
         mqtt_create clientId cp r' t = (Inl AlreadyCreated, [], t))
    \<and> (let t = run_calls mqtt_step s (concat (map (mqtt_calls_of r rr d left) (outs_of (fleet_worker env f)))) in
         if fe_onProvisioned env = HandlerReturns then result_of (mqtt_create clientId cp r' t) \<noteq> Inl AlreadyCreated
         else mqtt_create clientId cp r' t = (Inl AlreadyCreated, [], t))"
proof -
  let ?r = "worker_connect env f"
  let ?p = "makeProvisioning env (state_of ?r)"
  let ?t = "set_provisioned (state_of ?p)"
  have "fleet_config ?t = fleet_config f" using makeProvisioning_tame(1) [OF refl] by simp
  then have told: "on_provisioned ?t = [FOnProvisioned g (m_provisioningData ?t)]"
    using assms(5) by (simp add: on_provisioned_def fleet_config_def)
  have kept: "\<forall>c. FDestroy c \<notin> set (outs_of ?p)"
    using workflow_keeps_client [OF makeProvisioning_tame(2) [OF refl, of env f]] by blast
  note inside = create_after [OF assms(1-3) kept, of rr d left clientId cp r']
  show ?thesis
  proof (cases "handler_exc (fe_onProvisioned env)")
    case None
    then have returned: "fe_onProvisioned env = HandlerReturns" by (cases "fe_onProvisioned env") simp_all
    have outs: "outs_of (fleet_worker env f) = (outs_of ?r @ outs_of ?p) @ FOnProvisioned g (m_provisioningData ?t)
        # [FDisconnect, FDestroy (m_mqttClientId ?t)]"
      using assms(3,4,6) told None
      by (cases rule: worker_cases [of env f]) (simp_all add: fleet_worker_outs thrown_def)
    have freed: "m_client (state_of (mqtt_step u (mqtt_call.Destroy c' d None))) = None" for u :: "nat mqtt" and c'
      by (simp add: mqtt_op_simps split: mqtt_splits)
    show ?thesis
    proof (intro exI conjI)
      show "outs_of (fleet_worker env f) = (outs_of ?r @ outs_of ?p) @ FOnProvisioned g (m_provisioningData ?t)
        # [FDisconnect, FDestroy (m_mqttClientId ?t)]" by (rule outs)
    qed (use inside freed assms(7) in \<open>simp_all add: outs returned run_calls_append create_when Let_def del: mqtt_step.simps\<close>)
  next
    case (Some e)
    then have threw: "fe_onProvisioned env \<noteq> HandlerReturns" by auto
    have outs: "outs_of (fleet_worker env f) = (outs_of ?r @ outs_of ?p) @ FOnProvisioned g (m_provisioningData ?t)
        # on_error e ?t"
      using assms(3,4,6) told Some
      by (cases rule: worker_cases [of env f]) (simp_all add: fleet_worker_outs thrown_def)
    have "\<forall>c. FDestroy c \<notin> set (outs_of ?p @ FOnProvisioned g (m_provisioningData ?t) # on_error e ?t)"
      using kept by (auto simp: on_error_def split: option.split)
    note afterwards = create_after [OF assms(1-3) this, of rr d left clientId cp r']
    show ?thesis
    proof (intro exI conjI)
      show "outs_of (fleet_worker env f) = (outs_of ?r @ outs_of ?p) @ FOnProvisioned g (m_provisioningData ?t)
        # on_error e ?t" by (rule outs)
    qed (use inside afterwards in \<open>simp_all add: outs threw Let_def del: mqtt_step.simps\<close>)
  qed
qed

theorem successful_provisioning_frees_client_witness:
  "let r = \<lparr>cr_create = 0, cr_handle = Some 1, cr_setConnected = 0, cr_setCallbacks = 0\<rparr>;
       calls = \<lambda>env. concat (map (mqtt_calls_of r \<lparr>rr_code = 0, rr_token = 5\<rparr> NoAnswer None) (outs_of (fleet_worker env fleet0)))
   in result_of (mqtt_create ''_2'' default_ConnectionPars r (run_calls mqtt_step mqtt0 (calls env0))) \<noteq> Inl AlreadyCreated
    \<and> result_of (mqtt_create ''_2'' default_ConnectionPars r (run_calls mqtt_step mqtt0 (calls throwing_env))) = Inl AlreadyCreated"
proof -
  let ?r = "\<lparr>cr_create = 0, cr_handle = Some 1, cr_setConnected = 0, cr_setCallbacks = 0\<rparr>"
  have run0: "result_of (worker_connect env0 fleet0) = Inr ()"
    "result_of (makeProvisioning env0 (state_of (worker_connect env0 fleet0))) = Inr ()"
    by (simp_all add: worker0_connects makeProvisioning0)
  have start: "m_client (mqtt0 :: nat mqtt) = None" "cr_handle ?r = Some 1" "m_onProvisioned fleet0 = Some 1"
    by (simp_all add: mqtt0_def fleet0_def)
  note returned = successful_provisioning_frees_client [OF start(1,2) run0(1) connected0 start(3) run0(2) refl,
      of "\<lparr>rr_code = 0, rr_token = 5\<rparr>" NoAnswer "''_2''" default_ConnectionPars ?r]
  note threw = successful_provisioning_frees_client [OF start(1,2) throwing_runs(1,2) start(3) throwing_runs(3) refl,
      of "\<lparr>rr_code = 0, rr_token = 5\<rparr>" NoAnswer "''_2''" default_ConnectionPars ?r]
  have "result_of (mqtt_create ''_2'' default_ConnectionPars ?r (run_calls mqtt_step mqtt0
      (concat (map (mqtt_calls_of ?r \<lparr>rr_code = 0, rr_token = 5\<rparr> NoAnswer None) (outs_of (fleet_worker env0 fleet0)))))) \<noteq> Inl AlreadyCreated"
    using returned by (auto simp: Let_def returning0)
  moreover have "result_of (mqtt_create ''_2'' default_ConnectionPars ?r (run_calls mqtt_step mqtt0
      (concat (map (mqtt_calls_of ?r \<lparr>rr_code = 0, rr_token = 5\<rparr> NoAnswer None) (outs_of (fleet_worker throwing_env fleet0)))))) = Inl AlreadyCreated"
    using threw by (auto simp: Let_def throwing_answers)
  ultimately show ?thesis by (simp only: Let_def) blast
qed

end
